(* ===== verification/Prelude.thy ===== *)
theory Prelude
  imports Main "HOL-Library.Word"
begin

text \<open>
  Shared vocabulary of the crabv6 development: the machine integer types of the kernel, the
  outcome of a Rust computation (a value, an error, a panic, or not returning), the two
  sequencing combinators that stand for the operator \<^verbatim>\<open>?\<close>, the little-endian integer
  encodings of \<^verbatim>\<open>to_le_bytes\<close>/\<^verbatim>\<open>from_le_bytes\<close>, and the slice operations of
  Rust's standard library the kernel calls (\<^verbatim>\<open>chunks\<close>, \<^verbatim>\<open>position\<close>,
  \<^verbatim>\<open>split\<close>, \<^verbatim>\<open>copy_from_slice\<close>).
\<close>

unbundle bit_operations_syntax

section \<open>Machine integers\<close>

type_synonym u8 = "8 word"
type_synonym u16 = "16 word"
type_synonym u32 = "32 word"
type_synonym u64 = "64 word"

text \<open>Rust strings are their UTF-8 bytes.\<close>

type_synonym bytes = "u8 list"

section \<open>Outcomes\<close>

text \<open>
  A Rust call returns a value, returns an error, panics (the panic handler shuts the machine
  down), or never returns (it spins on a lock that is never released, or on a device).
\<close>

datatype ('a, 'e) outcome = Ok 'a | Err 'e | Panic | Hang

named_theorems outcome_simps \<open>inversion of outcomes\<close>

fun and_then :: "('a, 'e) outcome \<Rightarrow> ('a \<Rightarrow> ('b, 'e) outcome) \<Rightarrow> ('b, 'e) outcome" where
  "and_then (Ok x) f = f x"
| "and_then (Err e) f = Err e"
| "and_then Panic f = Panic"
| "and_then Hang f = Hang"

text \<open>\<open>tryS\<close> is the same over a state that every step returns.\<close>

fun tryS :: "('a, 'e) outcome \<times> 's \<Rightarrow> ('a \<Rightarrow> 's \<Rightarrow> ('b, 'e) outcome \<times> 's) \<Rightarrow> ('b, 'e) outcome \<times> 's"
where
  "tryS (Ok x, s) f = f x s"
| "tryS (Err e, s) f = (Err e, s)"
| "tryS (Panic, s) f = (Panic, s)"
| "tryS (Hang, s) f = (Hang, s)"

fun map_err :: "('e \<Rightarrow> 'f) \<Rightarrow> ('a, 'e) outcome \<Rightarrow> ('a, 'f) outcome" where
  "map_err f (Ok x) = Ok x"
| "map_err f (Err e) = Err (f e)"
| "map_err f Panic = Panic"
| "map_err f Hang = Hang"

definition ok_or :: "'e \<Rightarrow> 'a option \<Rightarrow> ('a, 'e) outcome" where
  "ok_or e x = (case x of None \<Rightarrow> Err e | Some y \<Rightarrow> Ok y)"

text \<open>\<^verbatim>\<open>Result::ok\<close>, and \<^verbatim>\<open>let _ = ...\<close>: an error is looked at or dropped; a panic is not caught.\<close>

fun attempt :: "('a, 'e) outcome \<Rightarrow> ('a option, 'f) outcome" where
  "attempt (Ok x) = Ok (Some x)"
| "attempt (Err e) = Ok None"
| "attempt Panic = Panic"
| "attempt Hang = Hang"

fun ignore_err :: "(unit, 'e) outcome \<times> 's \<Rightarrow> (unit, 'f) outcome \<times> 's" where
  "ignore_err (Ok _, s) = (Ok (), s)"
| "ignore_err (Err e, s) = (Ok (), s)"
| "ignore_err (Panic, s) = (Panic, s)"
| "ignore_err (Hang, s) = (Hang, s)"

fun is_ok :: "('a, 'e) outcome \<Rightarrow> bool" where
  "is_ok (Ok x) = True"
| "is_ok _ = False"

lemma and_then_eq_Ok [outcome_simps]: "and_then m f = Ok y \<longleftrightarrow> (\<exists>x. m = Ok x \<and> f x = Ok y)"
  by (cases m) auto

lemma tryS_eq_Ok [outcome_simps]:
  "tryS m f = (Ok y, s') \<longleftrightarrow> (\<exists>x s. m = (Ok x, s) \<and> f x s = (Ok y, s'))"
  by (cases "(m, f)" rule: tryS.cases) auto

lemma tryS_Hang: "fst m = Hang \<Longrightarrow> tryS m f = (Hang, snd m)"
  by (cases m) simp

lemma map_err_eq_Ok [outcome_simps]: "map_err f m = Ok x \<longleftrightarrow> m = Ok x"
  by (cases m) auto

lemma ok_or_eq_Ok [outcome_simps]: "ok_or e x = Ok y \<longleftrightarrow> x = Some y"
  by (simp add: ok_or_def split: option.split)

lemma ok_or_simps [simp]: "ok_or e None = Err e" "ok_or e (Some x) = Ok x"
  by (simp_all add: ok_or_def)

lemma is_ok_iff: "is_ok m \<longleftrightarrow> (\<exists>x. m = Ok x)"
  by (cases m) auto

section \<open>Slices\<close>

text \<open>\<^verbatim>\<open>slice::chunks(n)\<close>: consecutive pieces of length n, the last one possibly shorter.\<close>

function chunks :: "nat \<Rightarrow> 'a list \<Rightarrow> 'a list list" where
  "chunks n xs = (if n = 0 \<or> xs = [] then [] else take n xs # chunks n (drop n xs))"
  by pat_completeness auto
termination
  by (relation "measure (\<lambda>(n, xs). length xs)") auto

declare chunks.simps [simp del]

lemma chunks_Nil [simp]: "chunks n [] = []"
  by (simp add: chunks.simps)

lemma chunks_step: "0 < n \<Longrightarrow> xs \<noteq> [] \<Longrightarrow> chunks n xs = take n xs # chunks n (drop n xs)"
  by (simp add: chunks.simps [of n xs])

lemma concat_chunks: "0 < n \<Longrightarrow> concat (chunks n xs) = xs"
proof (induction n xs rule: chunks.induct)
  case (1 n xs)
  then show ?case by (cases "xs = []") (simp_all add: chunks_step)
qed

lemma chunks_append: "0 < n \<Longrightarrow> length xs = n \<Longrightarrow> chunks n (xs @ ys) = xs # chunks n ys"
  by (cases "xs = []") (simp_all add: chunks_step)

lemma chunks_concat:
  assumes "0 < n" and "\<And>x. x \<in> set xss \<Longrightarrow> length x = n"
  shows "chunks n (concat xss) = xss"
  using assms(2) by (induction xss) (simp_all add: chunks_append assms(1))

lemma chunks_length: "c \<in> set (chunks n xs) \<Longrightarrow> length c \<le> n"
proof (induction n xs rule: chunks.induct)
  case (1 n xs)
  then show ?case by (cases "n = 0 \<or> xs = []") (auto simp: chunks.simps [of n xs])
qed

text \<open>\<^verbatim>\<open>iter().position(P)\<close>: the index of the first element that satisfies P.\<close>

fun position :: "('a \<Rightarrow> bool) \<Rightarrow> 'a list \<Rightarrow> nat option" where
  "position P [] = None"
| "position P (x # xs) = (if P x then Some 0 else map_option Suc (position P xs))"

lemma position_None [simp]: "position P xs = None \<longleftrightarrow> (\<forall>x \<in> set xs. \<not> P x)"
  by (induction xs) auto

lemma position_SomeD:
  "position P xs = Some i \<Longrightarrow> i < length xs \<and> P (xs ! i) \<and> (\<forall>j < i. \<not> P (xs ! j))"
proof (induction xs arbitrary: i)
  case Nil
  then show ?case by simp
next
  case (Cons x xs)
  show ?case
  proof (cases "P x")
    case True
    with Cons.prems show ?thesis by simp
  next
    case False
    with Cons.prems obtain k where k: "position P xs = Some k" "i = Suc k" by auto
    with Cons.IH [OF k(1)] False show ?thesis by (auto simp: nth_Cons split: nat.split)
  qed
qed

lemma position_find: "map_option (\<lambda>i. xs ! i) (position P xs) = find P xs"
  by (induction xs) (auto simp: option.map_comp comp_def)

text \<open>\<^verbatim>\<open>buf[off..off + src.len()].copy_from_slice(src)\<close>.\<close>

definition put_slice :: "nat \<Rightarrow> 'a list \<Rightarrow> 'a list \<Rightarrow> 'a list" where
  "put_slice off src buf = take off buf @ src @ drop (off + length src) buf"

lemma length_put_slice [simp]:
  "off + length src \<le> length buf \<Longrightarrow> length (put_slice off src buf) = length buf"
  by (simp add: put_slice_def)

text \<open>\<^verbatim>\<open>buf[off..off + n]\<close>.\<close>

definition slice :: "nat \<Rightarrow> nat \<Rightarrow> 'a list \<Rightarrow> 'a list" where
  "slice off n buf = take n (drop off buf)"

lemma length_slice [simp]: "off + n \<le> length buf \<Longrightarrow> length (slice off n buf) = n"
  by (simp add: slice_def)

lemma slice_append_left: "off + n \<le> length xs \<Longrightarrow> slice off n (xs @ ys) = slice off n xs"
  by (simp add: slice_def)

lemma slice_append_right: "length xs \<le> off \<Longrightarrow> slice off n (xs @ ys) = slice (off - length xs) n ys"
  by (simp add: slice_def)

text \<open>\<^verbatim>\<open>str::split(c)\<close>: the pieces between the separators, empty ones included.\<close>

fun split_on :: "'a \<Rightarrow> 'a list \<Rightarrow> 'a list list" where
  "split_on c [] = [[]]"
| "split_on c (x # xs) =
     (if x = c then [] # split_on c xs
      else case split_on c xs of [] \<Rightarrow> [[x]] | p # ps \<Rightarrow> (x # p) # ps)"

lemma split_on_not_Nil [simp]: "split_on c xs \<noteq> []"
  by (induction xs) (auto split: list.split)

lemma split_on_no_sep: "p \<in> set (split_on c xs) \<Longrightarrow> c \<notin> set p"
proof (induction xs arbitrary: p)
  case Nil
  then show ?case by simp
next
  case (Cons x xs)
  then show ?case by (cases "split_on c xs") (auto split: if_splits)
qed

lemma split_on_set: "p \<in> set (split_on c xs) \<Longrightarrow> set p \<subseteq> set xs"
proof (induction xs arbitrary: p)
  case Nil
  then show ?case by simp
next
  case (Cons x xs)
  then show ?case by (cases "split_on c xs") (fastforce split: if_splits)+
qed

lemma split_on_id: "c \<notin> set xs \<Longrightarrow> split_on c xs = [xs]"
  by (induction xs) auto

lemma split_on_append_sep: "c \<notin> set xs \<Longrightarrow> split_on c (xs @ c # ys) = xs # split_on c ys"
  by (induction xs) auto

section \<open>Integer arithmetic of the kernel profile\<close>

text \<open>\<^verbatim>\<open>usize::div_ceil\<close>.\<close>

definition div_ceil :: "nat \<Rightarrow> nat \<Rightarrow> nat" where
  "div_ceil a b = a div b + (if a mod b = 0 then 0 else 1)"

lemma div_ceil_bounds: "0 < b \<Longrightarrow> a \<le> div_ceil a b * b \<and> div_ceil a b * b < a + b"
proof -
  assume b: "0 < b"
  have "a div b * b + a mod b = a" by (rule div_mult_mod_eq)
  moreover from b have "a mod b < b" by simp
  ultimately have "a \<le> a div b * b + b" "a mod b = 0 \<longrightarrow> a div b * b = a"
    "a mod b \<noteq> 0 \<longrightarrow> a div b * b < a"
    by linarith+
  then show ?thesis using b by (auto simp: div_ceil_def add_mult_distrib)
qed

lemma div_ceil_pos: "0 < b \<Longrightarrow> 0 < a \<Longrightarrow> 0 < div_ceil a b"
  using div_ceil_bounds [of b a] by (cases "div_ceil a b") auto

lemma div_ceil_0 [simp]: "div_ceil 0 b = 0"
  by (simp add: div_ceil_def)

lemma div_ceil_step: "0 < n \<Longrightarrow> div_ceil n 512 = Suc (div_ceil (n - min n 512) 512)"
proof (cases "n \<le> 512")
  case True
  assume "0 < n"
  with True show ?thesis by (cases "n = 512") (auto simp: div_ceil_def)
next
  case False
  then obtain m where "n = m + 512" by (metis add.commute le_Suc_ex nat_le_linear)
  then show ?thesis by (simp add: div_ceil_def)
qed

lemma length_chunks: "length (chunks 512 xs) = div_ceil (length xs) 512"
proof (induction "512::nat" xs rule: chunks.induct)
  case (1 xs)
  show ?case
  proof (cases "xs = []")
    case False
    then show ?thesis
      using 1 div_ceil_step [of "length xs"] by (simp add: chunks_step min_def)
  qed simp
qed

lemma unat_less_pow: "unat (w :: 'a::len word) < 2 ^ LENGTH('a)"
  by (rule unsigned_less)

lemma unat_u32_less: "unat (w :: u32) < 4294967296"
  using unat_less_pow [of w] by simp

lemma unat_ucast_mod: "unat (ucast w :: 'b::len word) = unat w mod 2 ^ LENGTH('b)"
  for w :: "'a::len word"
  by (simp add: unsigned_ucast_eq take_bit_eq_mod)

lemma unat_u32_to_u64: "unat (ucast (w :: u32) :: u64) = unat w"
  using unat_u32_less [of w] by (simp add: unat_ucast_mod)

lemma unat_word_of_nat_u32: "n < 4294967296 \<Longrightarrow> unat (word_of_nat n :: u32) = n"
  by (simp add: unat_of_nat take_bit_eq_mod)

text \<open>Additions of the kernel are checked: \<^verbatim>\<open>+\<close> panics when it overflows.\<close>

definition add_overflows :: "'a::len word \<Rightarrow> 'a word \<Rightarrow> bool" where
  "add_overflows a b \<longleftrightarrow> 2 ^ LENGTH('a) \<le> unat a + unat b"

lemma unat_add_no_overflow: "\<not> add_overflows a b \<Longrightarrow> unat (a + b) = unat a + unat b"
  for a b :: "'a::len word"
  by (simp add: add_overflows_def unat_word_ariths)

section \<open>Little-endian encodings\<close>

definition to_le_bytes :: "nat \<Rightarrow> 'a::len word \<Rightarrow> bytes" where
  "to_le_bytes n w = map (\<lambda>i. ucast (drop_bit (8 * i) w)) [0..<n]"

fun from_le_bytes :: "bytes \<Rightarrow> 'a::len word" where
  "from_le_bytes [] = 0"
| "from_le_bytes (b # bs) = ucast b OR push_bit 8 (from_le_bytes bs)"

lemma from_le_bytes_zero [simp]: "from_le_bytes (replicate n 0) = 0"
  by (induction n) simp_all

lemma length_to_le_bytes [simp]: "length (to_le_bytes n w) = n"
  by (simp add: to_le_bytes_def)

lemma bit_from_le_bytes:
  "bit (from_le_bytes bs :: 'a::len word) k \<longleftrightarrow>
     k < LENGTH('a) \<and> k div 8 < length bs \<and> bit (bs ! (k div 8)) (k mod 8)"
proof (induction bs arbitrary: k)
  case Nil
  then show ?case by simp
next
  case (Cons b bs)
  show ?case
  proof (cases "k < 8")
    case True
    then show ?thesis
      by (auto simp: bit_simps dest: bit_imp_le_length)
  next
    case False
    then obtain j where k: "k = j + 8" by (metis add.commute le_Suc_ex not_less)
    then have "(j + 8) div 8 = Suc (j div 8)" "(j + 8) mod 8 = j mod 8" by auto
    moreover have "\<not> bit b (j + 8)" by (auto dest: bit_imp_le_length)
    ultimately show ?thesis
      using Cons.IH [of j] by (auto simp: k bit_simps)
  qed
qed

lemma from_to_le_bytes: "LENGTH('a) = 8 * n \<Longrightarrow> from_le_bytes (to_le_bytes n w) = (w :: 'a::len word)"
proof (rule bit_word_eqI)
  fix k assume n: "LENGTH('a) = 8 * n" and k: "k < LENGTH('a)"
  then have "k div 8 < n" by auto
  moreover have "8 * (k div 8) + k mod 8 = k" by simp
  ultimately show "bit (from_le_bytes (to_le_bytes n w) :: 'a word) k = bit w k"
    using k by (simp add: bit_from_le_bytes to_le_bytes_def bit_simps)
qed

lemma to_from_le_bytes:
  assumes "LENGTH('a::len) = 8 * n" and "length bs = n"
  shows "to_le_bytes n (from_le_bytes bs :: 'a word) = bs"
proof (rule nth_equalityI)
  show "length (to_le_bytes n (from_le_bytes bs :: 'a word)) = length bs"
    using assms by simp
  fix i assume "i < length (to_le_bytes n (from_le_bytes bs :: 'a word))"
  then have i: "i < n" by simp
  show "to_le_bytes n (from_le_bytes bs :: 'a word) ! i = bs ! i"
  proof (rule bit_word_eqI)
    fix k assume "k < LENGTH(8)"
    then have k: "k < 8" by simp
    then have "(8 * i + k) div 8 = i" "(8 * i + k) mod 8 = k" "8 * i + k < 8 * n"
      using i by auto
    then show "bit (to_le_bytes n (from_le_bytes bs :: 'a word) ! i) k = bit (bs ! i) k"
      using i k assms by (simp add: to_le_bytes_def bit_simps bit_from_le_bytes)
  qed
qed

end
