(* ===== verification/Utf8.thy ===== *)
theory Utf8
  imports Prelude
begin

text \<open>
  The validity check of \<^verbatim>\<open>core::str::from_utf8\<close> (the well-formed byte sequences of the
  Unicode standard), which the kernel applies to every path it takes from user memory and to
  every name it reads from disk. Cutting a valid string at an ASCII byte leaves valid strings,
  which is why path components are valid again.
\<close>

definition ascii :: "string \<Rightarrow> bytes" where
  "ascii s = map (\<lambda>c. word_of_nat (of_char c)) s"

definition is_cont :: "u8 \<Rightarrow> bool" where
  "is_cont b \<longleftrightarrow> 0x80 \<le> b \<and> b \<le> 0xBF"

definition utf8_2 :: "u8 \<Rightarrow> u8 \<Rightarrow> bool" where
  "utf8_2 a b \<longleftrightarrow> 0xC2 \<le> a \<and> a \<le> 0xDF \<and> is_cont b"

definition utf8_3 :: "u8 \<Rightarrow> u8 \<Rightarrow> u8 \<Rightarrow> bool" where
  "utf8_3 a b c \<longleftrightarrow> is_cont c \<and>
     (a = 0xE0 \<and> 0xA0 \<le> b \<and> b \<le> 0xBF \<or>
      0xE1 \<le> a \<and> a \<le> 0xEC \<and> is_cont b \<or>
      a = 0xED \<and> 0x80 \<le> b \<and> b \<le> 0x9F \<or>
      0xEE \<le> a \<and> a \<le> 0xEF \<and> is_cont b)"

definition utf8_4 :: "u8 \<Rightarrow> u8 \<Rightarrow> u8 \<Rightarrow> u8 \<Rightarrow> bool" where
  "utf8_4 a b c d \<longleftrightarrow> is_cont c \<and> is_cont d \<and>
     (a = 0xF0 \<and> 0x90 \<le> b \<and> b \<le> 0xBF \<or>
      0xF1 \<le> a \<and> a \<le> 0xF3 \<and> is_cont b \<or>
      a = 0xF4 \<and> 0x80 \<le> b \<and> b \<le> 0x8F)"

fun valid_utf8 :: "bytes \<Rightarrow> bool" where
  "valid_utf8 [] = True"
| "valid_utf8 (a # as) =
     (if a < 0x80 then valid_utf8 as
      else case as of [] \<Rightarrow> False | b # bs \<Rightarrow>
        (if utf8_2 a b then valid_utf8 bs
         else case bs of [] \<Rightarrow> False | c # cs \<Rightarrow>
           (if utf8_3 a b c then valid_utf8 cs
            else case cs of [] \<Rightarrow> False | d # ds \<Rightarrow> utf8_4 a b c d \<and> valid_utf8 ds)))"

definition from_utf8 :: "bytes \<Rightarrow> bytes option" where
  "from_utf8 bs = (if valid_utf8 bs then Some bs else None)"

lemma is_cont_ge: "is_cont b \<Longrightarrow> \<not> b < 0x80"
  by (simp add: is_cont_def not_less)

lemma utf8_3_snd_ge: "utf8_3 a b c \<Longrightarrow> \<not> b < 0x80"
  by (auto simp: utf8_3_def is_cont_def word_le_nat_alt word_less_nat_alt)

lemma utf8_4_snd_ge: "utf8_4 a b c d \<Longrightarrow> \<not> b < 0x80"
  by (auto simp: utf8_4_def is_cont_def word_le_nat_alt word_less_nat_alt)

lemma ascii_not_multibyte:
  assumes "c < 0x80"
  shows "\<not> utf8_2 a c" "\<not> utf8_3 a c d" "\<not> utf8_3 a b c" "\<not> utf8_4 a c d e" "\<not> utf8_4 a b c e"
    "\<not> utf8_4 a b d c"
  using assms is_cont_ge utf8_3_snd_ge utf8_4_snd_ge
  by (auto simp: utf8_2_def, auto simp: utf8_3_def utf8_4_def)

lemma valid_utf8_cut:
  assumes "c < 0x80"
  shows "valid_utf8 (xs @ c # ys) \<longleftrightarrow> valid_utf8 xs \<and> valid_utf8 ys"
proof (induction xs rule: valid_utf8.induct)
  case 1
  then show ?case using assms by simp
next
  case (2 a as)
  note no = ascii_not_multibyte [OF assms]
  show ?case
  proof (cases "a < 0x80")
    case True
    with "2.IH"(1) show ?thesis by simp
  next
    case a: False
    consider "as = []" | b where "as = [b]" | b c' where "as = [b, c']"
      | b c' d ds where "as = b # c' # d # ds"
      by (metis list.exhaust)
    then show ?thesis
    proof cases
      case 1
      with a no show ?thesis by (simp split: list.split)
    next
      case 2
      with a no "2.IH"(2) [of b "[]"] show ?thesis by (simp split: list.split)
    next
      case 3
      with a no "2.IH"(2) [of b "[c']"] "2.IH"(3) [of b "[c']" c' "[]"] show ?thesis
        by (simp split: list.split)
    next
      case 4
      with a "2.IH"(2) [of b "c' # d # ds"] "2.IH"(3) [of b "c' # d # ds" c' "d # ds"]
        "2.IH"(4) [of b "c' # d # ds" c' "d # ds" d ds]
      show ?thesis by simp
    qed
  qed
qed

lemma valid_utf8_split_on:
  assumes "c < 0x80"
  shows "valid_utf8 xs \<Longrightarrow> p \<in> set (split_on c xs) \<Longrightarrow> valid_utf8 p"
proof (induction "length xs" arbitrary: xs rule: less_induct)
  case less
  show ?case
  proof (cases "c \<in> set xs")
    case True
    then obtain as bs where xs: "xs = as @ c # bs" "c \<notin> set as"
      by (meson split_list_first)
    with less.prems(1) have "valid_utf8 as" "valid_utf8 bs"
      by (simp_all add: valid_utf8_cut [OF assms])
    with less.hyps [of bs] less.prems(2) xs show ?thesis
      by (auto simp: split_on_append_sep)
  next
    case False
    with less.prems show ?thesis by (simp add: split_on_id)
  qed
qed

end
