(* ===== verification/BlockDev.thy ===== *)
theory BlockDev
  imports Prelude
begin

text \<open>
  The block device TinyFS is generic over: the trait \<^verbatim>\<open>BlockDevice\<close> of
  \<^verbatim>\<open>src/fs.rs\<close> as a locale, and its one implementation, \<^verbatim>\<open>VirtIoBlock\<close> of
  \<^verbatim>\<open>src/virtio.rs\<close>, at the level of sectors: the asserts of \<^verbatim>\<open>transfer\<close> are
  panics, and a transfer moves one sector between the caller's buffer and the disk. The two loops
  of TinyFS that move extents (\<^verbatim>\<open>allocate_and_write\<close>, \<^verbatim>\<open>read_data\<close>) are
  defined over the trait's operations; the locale proves once that they are inverse to each other.
\<close>

definition BLOCK_SIZE :: nat where
  "BLOCK_SIZE = 512"

declare BLOCK_SIZE_def [simp]

section \<open>The two extent loops\<close>

fun write_chunks ::
  "('d \<Rightarrow> u32 \<Rightarrow> bytes \<Rightarrow> (unit, 'e) outcome \<times> 'd) \<Rightarrow> u32 \<Rightarrow> nat \<Rightarrow> bytes list \<Rightarrow> 'd \<Rightarrow>
     (unit, 'e) outcome \<times> 'd"
where
  "write_chunks wr start i [] d = (Ok (), d)"
| "write_chunks wr start i (chunk # cs) d =
     (let buf = put_slice 0 chunk (replicate BLOCK_SIZE 0) in
      if add_overflows start (word_of_nat i) then (Panic, d)
      else tryS (wr d (start + word_of_nat i) buf) (\<lambda>_ d'. write_chunks wr start (Suc i) cs d'))"

function read_loop ::
  "('d \<Rightarrow> u32 \<Rightarrow> bytes \<Rightarrow> (bytes, 'e) outcome) \<Rightarrow> 'd \<Rightarrow> u32 \<Rightarrow> nat \<Rightarrow> bytes \<Rightarrow> bytes \<Rightarrow> (bytes, 'e) outcome"
where
  "read_loop rd d block_index remaining buf data =
     (if remaining = 0 then Ok data
      else and_then (rd d block_index buf) (\<lambda>buf'.
        let n = min remaining BLOCK_SIZE in
        if add_overflows block_index 1 then Panic
        else read_loop rd d (block_index + 1) (remaining - n) buf' (data @ take n buf')))"
  by pat_completeness auto
termination
  by (relation "measure (\<lambda>(rd, d, bi, remaining, buf, data). remaining)") auto

declare read_loop.simps [simp del]

section \<open>The contract of a block device\<close>

text \<open>
  \<open>block_at d i\<close> is what the device holds in block \<open>i\<close>; \<open>inv\<close> is the device's own
  invariant. Blocks below \<open>total_blocks\<close> can be read and written in whole.
\<close>

locale block_device =
  fixes total_blocks :: "'d \<Rightarrow> u32"
    and read_block :: "'d \<Rightarrow> u32 \<Rightarrow> bytes \<Rightarrow> (bytes, 'e) outcome"
    and write_block :: "'d \<Rightarrow> u32 \<Rightarrow> bytes \<Rightarrow> (unit, 'e) outcome \<times> 'd"
    and block_at :: "'d \<Rightarrow> nat \<Rightarrow> bytes"
    and inv :: "'d \<Rightarrow> bool"
  assumes read_ok: "inv d \<Longrightarrow> i < total_blocks d \<Longrightarrow> length buf = BLOCK_SIZE \<Longrightarrow>
      read_block d i buf = Ok (block_at d (unat i))"
    and length_block: "inv d \<Longrightarrow> length (block_at d j) = BLOCK_SIZE"
    and write_ok: "inv d \<Longrightarrow> i < total_blocks d \<Longrightarrow> length buf = BLOCK_SIZE \<Longrightarrow>
      \<exists>d'. write_block d i buf = (Ok (), d') \<and> inv d' \<and> total_blocks d' = total_blocks d \<and>
           block_at d' = (block_at d)(unat i := buf)"
begin

text \<open>What an extent of \<open>n\<close> bytes at block \<open>s\<close> holds.\<close>

definition run :: "'d \<Rightarrow> nat \<Rightarrow> nat \<Rightarrow> bytes" where
  "run d s n = take n (concat (map (block_at d) [s..<s + div_ceil n BLOCK_SIZE]))"

lemma run_step:
  assumes "inv d" and "0 < n"
  shows "run d s n = take (min n 512) (block_at d s) @ run d (Suc s) (n - min n 512)"
proof -
  have "[s..<s + div_ceil n 512] = s # [Suc s..<Suc s + div_ceil (n - min n 512) 512]"
    using assms(2) by (simp add: div_ceil_step upt_conv_Cons del: upt_Suc)
  then show ?thesis
    using length_block [OF assms(1), of s] by (simp add: run_def min_def)
qed

lemma run_0 [simp]: "run d s 0 = []"
  by (simp add: run_def)

lemma length_run: "inv d \<Longrightarrow> length (run d s n) = n"
proof (induction n arbitrary: s rule: less_induct)
  case (less n)
  show ?case
  proof (cases "n = 0")
    case False
    then have "n - min n 512 < n" by simp
    with False less.IH [OF this less.prems] show ?thesis
      using length_block [OF less.prems, of s] by (simp add: run_step [OF less.prems])
  qed simp
qed

text \<open>Reading an extent inside the device returns what it holds.\<close>

lemma read_loop_run:
  assumes "inv d" and "unat bi + div_ceil n BLOCK_SIZE \<le> unat (total_blocks d)"
    and "length buf = BLOCK_SIZE"
  shows "read_loop read_block d bi n buf data = Ok (data @ run d (unat bi) n)"
  using assms(2,3)
proof (induction n arbitrary: bi buf data rule: less_induct)
  case (less n)
  show ?case
  proof (cases "n = 0")
    case True
    then show ?thesis by (simp add: read_loop.simps)
  next
    case False
    let ?m = "n - min n 512"
    have bound: "unat bi + Suc (div_ceil ?m 512) \<le> unat (total_blocks d)"
      using less.prems(1) div_ceil_step [of n] False by simp
    then have bi: "bi < total_blocks d" by (simp add: word_less_nat_alt)
    have ov: "\<not> add_overflows bi 1"
      using bound unat_u32_less [of "total_blocks d"] by (simp add: add_overflows_def)
    then have Suc: "unat (bi + 1) = Suc (unat bi)"
      using unat_add_no_overflow [OF ov] by simp
    have "read_loop read_block d (bi + 1) ?m (block_at d (unat bi)) dt = Ok (dt @ run d (unat (bi + 1)) ?m)"
      for dt
      by (rule less.IH) (use False bound Suc length_block [OF assms(1)] in simp_all)
    then show ?thesis
      using False ov read_ok [OF assms(1) bi less.prems(2)]
      by (simp add: read_loop.simps [of _ _ _ n] run_step [OF assms(1)] Suc Let_def)
  qed
qed

text \<open>Writing the chunks of a byte string puts it there, and touches nothing else.\<close>

lemma write_chunks_ok:
  assumes "inv d" and "\<forall>c \<in> set cs. length c \<le> BLOCK_SIZE"
    and "unat start + i + length cs \<le> unat (total_blocks d)"
  shows "\<exists>d'. write_chunks write_block start i cs d = (Ok (), d') \<and> inv d' \<and>
    total_blocks d' = total_blocks d \<and>
    (\<forall>j. block_at d' j =
      (if unat start + i \<le> j \<and> j < unat start + i + length cs
       then put_slice 0 (cs ! (j - (unat start + i))) (replicate BLOCK_SIZE 0) else block_at d j))"
  using assms
proof (induction cs arbitrary: i d)
  case Nil
  then show ?case by auto
next
  case (Cons c cs)
  let ?i = "word_of_nat i :: u32"
  let ?buf = "put_slice 0 c (replicate BLOCK_SIZE 0)"
  have lt: "unat start + i < 4294967296"
    using Cons.prems(3) unat_u32_less [of "total_blocks d"] by simp
  then have ui: "unat ?i = i" by (simp add: unat_word_of_nat_u32)
  with lt have ov: "\<not> add_overflows start ?i" by (simp add: add_overflows_def)
  then have us: "unat (start + ?i) = unat start + i"
    using unat_add_no_overflow [OF ov] ui by simp
  have len: "length ?buf = BLOCK_SIZE" using Cons.prems(2) by simp
  have "start + ?i < total_blocks d" using Cons.prems(3) us by (simp add: word_less_nat_alt)
  from write_ok [OF Cons.prems(1) this len] obtain d1
    where d1: "write_block d (start + ?i) ?buf = (Ok (), d1)" "inv d1"
      "total_blocks d1 = total_blocks d" "block_at d1 = (block_at d)(unat start + i := ?buf)"
    using us by auto
  from Cons.IH [OF d1(2), of "Suc i"] Cons.prems d1(3) obtain d2
    where d2: "write_chunks write_block start (Suc i) cs d1 = (Ok (), d2)" "inv d2"
      "total_blocks d2 = total_blocks d1"
      "\<And>j. block_at d2 j =
        (if unat start + Suc i \<le> j \<and> j < unat start + Suc i + length cs
         then put_slice 0 (cs ! (j - (unat start + Suc i))) (replicate BLOCK_SIZE 0) else block_at d1 j)"
    by auto
  have "block_at d2 j =
      (if unat start + i \<le> j \<and> j < unat start + i + length (c # cs)
       then put_slice 0 ((c # cs) ! (j - (unat start + i))) (replicate BLOCK_SIZE 0) else block_at d j)"
    for j
  proof (cases "j = unat start + i")
    case True
    then show ?thesis by (simp add: d2(4) d1(4))
  next
    case False
    then have "unat start + i \<le> j \<Longrightarrow> j - (unat start + i) = Suc (j - (unat start + Suc i))" by simp
    with False show ?thesis by (auto simp: d2(4) d1(4))
  qed
  then show ?case using d1 d2 ov by (auto simp: Let_def)
qed

lemma run_of_chunks:
  assumes "inv d"
    and "\<And>j. j < length (chunks 512 xs) \<Longrightarrow>
      block_at d (s + j) = put_slice 0 (chunks 512 xs ! j) (replicate 512 0)"
  shows "run d s (length xs) = xs"
  using assms(2)
proof (induction "512::nat" xs arbitrary: s rule: chunks.induct)
  case (1 xs)
  show ?case
  proof (cases "xs = []")
    case False
    have ch: "chunks 512 xs = take 512 xs # chunks 512 (drop 512 xs)"
      using False by (simp add: chunks_step)
    have s: "block_at d s = put_slice 0 (take 512 xs) (replicate 512 0)"
      using "1.prems" [of 0] ch by simp
    have "block_at d (Suc s + j) = put_slice 0 (chunks 512 (drop 512 xs) ! j) (replicate 512 0)"
      if "j < length (chunks 512 (drop 512 xs))" for j
      using "1.prems" [of "Suc j"] that ch by simp
    then have "run d (Suc s) (length (drop 512 xs)) = drop 512 xs"
      using "1.hyps" [of "Suc s"] False by simp
    then show ?thesis
      using False s by (simp add: run_step [OF assms(1)] put_slice_def min_def)
  qed simp
qed

text \<open>The round trip, and the frame of a write.\<close>

lemma write_chunks_run:
  assumes "inv d" and "unat start + div_ceil (length xs) BLOCK_SIZE \<le> unat (total_blocks d)"
  shows "\<exists>d'. write_chunks write_block start 0 (chunks BLOCK_SIZE xs) d = (Ok (), d') \<and> inv d' \<and>
    total_blocks d' = total_blocks d \<and> run d' (unat start) (length xs) = xs \<and>
    (\<forall>j < unat start. block_at d' j = block_at d j)"
proof -
  have "\<forall>c \<in> set (chunks 512 xs). length c \<le> 512" by (auto dest: chunks_length)
  with write_chunks_ok [OF assms(1), of "chunks 512 xs" start 0] assms(2)
  obtain d' where d': "write_chunks write_block start 0 (chunks 512 xs) d = (Ok (), d')" "inv d'"
      "total_blocks d' = total_blocks d"
      "\<And>j. block_at d' j =
        (if unat start \<le> j \<and> j < unat start + length (chunks 512 xs)
         then put_slice 0 (chunks 512 xs ! (j - unat start)) (replicate 512 0) else block_at d j)"
    by (auto simp: length_chunks)
  have "run d' (unat start) (length xs) = xs"
    by (rule run_of_chunks [OF d'(2)]) (simp add: d'(4))
  with d' show ?thesis by auto
qed

text \<open>An extent is unchanged when its blocks are.\<close>

lemma run_cong:
  assumes "\<And>j. s \<le> j \<Longrightarrow> j < s + div_ceil n BLOCK_SIZE \<Longrightarrow> block_at d' j = block_at d j"
  shows "run d' s n = run d s n"
proof -
  have "map (block_at d') [s..<s + div_ceil n BLOCK_SIZE] = map (block_at d) [s..<s + div_ceil n BLOCK_SIZE]"
    by (rule map_cong) (use assms in auto)
  then show ?thesis unfolding run_def by (rule arg_cong)
qed

end

section \<open>VirtIoBlock\<close>

datatype VirtioError =
  DeviceNotFound | UnsupportedDevice | LegacyOnly u32 | QueueUnavailable
| DeviceRejectedFeatures | DeviceFailure

text \<open>The driver's handle, together with the sectors of the disk behind it.\<close>

record VirtIoBlock =
  capacity_sectors :: u64
  sectors :: "nat \<Rightarrow> bytes"

definition total_blocks :: "VirtIoBlock \<Rightarrow> u32" where
  "total_blocks d = ucast (min (capacity_sectors d) 0xFFFFFFFF)"

definition read_block :: "VirtIoBlock \<Rightarrow> u32 \<Rightarrow> bytes \<Rightarrow> (bytes, 'e) outcome" where
  "read_block d index buf =
     (if length buf < BLOCK_SIZE then Panic
      else if \<not> ucast index < capacity_sectors d then Panic
      else Ok (put_slice 0 (sectors d (unat index)) buf))"

definition write_block :: "VirtIoBlock \<Rightarrow> u32 \<Rightarrow> bytes \<Rightarrow> (unit, 'e) outcome \<times> VirtIoBlock" where
  "write_block d index buf =
     (if length buf < BLOCK_SIZE then (Panic, d)
      else if \<not> ucast index < capacity_sectors d then (Panic, d)
      else (Ok (), d\<lparr>sectors := (sectors d)(unat index := take BLOCK_SIZE buf)\<rparr>))"

definition dev_ok :: "VirtIoBlock \<Rightarrow> bool" where
  "dev_ok d \<longleftrightarrow> (\<forall>j. length (sectors d j) = BLOCK_SIZE)"

lemma unat_total_blocks: "unat (total_blocks d) = min (unat (capacity_sectors d)) 4294967295"
proof -
  have "unat (min (capacity_sectors d) 0xFFFFFFFF) = min (unat (capacity_sectors d)) 4294967295"
    by (simp add: min_def word_le_nat_alt)
  then show ?thesis by (simp add: total_blocks_def unat_ucast_mod min_def)
qed

lemma below_total_below_capacity: "i < total_blocks d \<Longrightarrow> ucast i < capacity_sectors d"
  by (simp add: word_less_nat_alt unat_total_blocks unat_u32_to_u64)

interpretation vb: block_device total_blocks read_block write_block sectors dev_ok
proof unfold_locales
  fix d i and buf :: bytes
  assume d: "dev_ok d" and i: "i < total_blocks d" and buf: "length buf = BLOCK_SIZE"
  show "read_block d i buf = Ok (sectors d (unat i))"
    using d buf below_total_below_capacity [OF i]
    by (simp add: read_block_def dev_ok_def put_slice_def)
  show "\<exists>d'. write_block d i buf = (Ok (), d') \<and> dev_ok d' \<and> total_blocks d' = total_blocks d \<and>
      sectors d' = (sectors d)(unat i := buf)"
    using d buf below_total_below_capacity [OF i]
    by (simp add: write_block_def dev_ok_def total_blocks_def)
qed (simp add: dev_ok_def)

end
