(* ===== verification/Fs.thy ===== *)
theory Fs
  imports Utf8 BlockDev
begin

text \<open>
  TinyFS, \<^verbatim>\<open>src/fs.rs\<close>: the superblock, the directory entries and their 44-byte
  encoding, the bump allocator, directory chains, the file and directory operations, and the
  public functions behind the global instance. Method names are the source's; the public functions
  of the module carry the prefix \<open>fs_\<close>. A method that changes the file system returns its
  outcome together with the new state, also when it fails.
\<close>

section \<open>Data\<close>

definition MAGIC :: u32 where "MAGIC = 0x54465331"
definition VERSION :: u32 where "VERSION = 2"
definition DIR_BLOCK_INDEX :: u32 where "DIR_BLOCK_INDEX = 1"
definition DATA_START_BLOCK :: u32 where "DATA_START_BLOCK = 2"
definition NAME_LEN :: nat where "NAME_LEN = 32"
definition DIR_ENTRY_SIZE :: nat where "DIR_ENTRY_SIZE = NAME_LEN + 4 + 4 + 1 + 3"
definition MAX_FILES :: nat where "MAX_FILES = BLOCK_SIZE div DIR_ENTRY_SIZE"

lemmas fs_consts [simp] =
  MAGIC_def VERSION_def DIR_BLOCK_INDEX_def DATA_START_BLOCK_def NAME_LEN_def DIR_ENTRY_SIZE_def
  MAX_FILES_def

datatype FsError =
  NotInitialized | NameTooLong | DirectoryFull | NotFound | NoSpace | InvalidEncoding
| DeviceInitFailed VirtioError | InvalidPath | NotADirectory | AlreadyExists | DirectoryNotEmpty
| IsDirectory | IsFile

record Superblock =
  magic :: u32
  version :: u32
  next_free_block :: u32
  file_count :: u32

datatype EntryType = File | Directory

fun from_raw :: "u8 \<Rightarrow> EntryType option" where
  "from_raw v = (if v = 1 then Some File else if v = 2 then Some Directory else None)"

fun to_raw :: "EntryType \<Rightarrow> u8" where
  "to_raw File = 1"
| "to_raw Directory = 2"

record FileEntry =
  e_name :: bytes
  e_start_block :: u32
  e_length :: u32
  e_kind :: EntryType

record LoadedDir =
  entries :: "FileEntry list"
  entry_index_in_parent :: "nat option"

record TinyFs =
  device :: VirtIoBlock
  superblock :: Superblock
  root_entries :: "FileEntry list"

section \<open>Encoding of entries and of the superblock\<close>

definition write_entry :: "bytes \<Rightarrow> FileEntry \<Rightarrow> bytes" where
  "write_entry buf entry =
     (let buf0 = replicate (length buf) 0;
          copy_len = min NAME_LEN (length (e_name entry));
          buf1 = put_slice 0 (take copy_len (e_name entry)) buf0;
          buf2 = put_slice NAME_LEN (to_le_bytes 4 (e_start_block entry)) buf1;
          buf3 = put_slice (NAME_LEN + 4) (to_le_bytes 4 (e_length entry)) buf2
      in buf3[NAME_LEN + 8 := to_raw (e_kind entry)])"

definition deserialize_entry :: "bytes \<Rightarrow> FileEntry option" where
  "deserialize_entry chunk =
     (if length chunk < DIR_ENTRY_SIZE then None
      else if chunk ! 0 = 0 then None
      else
        let name_bytes = take NAME_LEN chunk;
            end_pos = (case position (\<lambda>b. b = 0) name_bytes of Some i \<Rightarrow> i | None \<Rightarrow> NAME_LEN)
        in case from_utf8 (take end_pos name_bytes) of
             None \<Rightarrow> None
           | Some name \<Rightarrow>
               (case from_raw (chunk ! (NAME_LEN + 8)) of
                  None \<Rightarrow> None
                | Some kind \<Rightarrow>
                    Some \<lparr>e_name = name,
                          e_start_block = from_le_bytes (slice NAME_LEN 4 chunk),
                          e_length = from_le_bytes (slice (NAME_LEN + 4) 4 chunk),
                          e_kind = kind\<rparr>))"

text \<open>The loop \<^verbatim>\<open>for (slot, entry) in entries.iter().enumerate()\<close> of both directory writers.\<close>

fun write_entries :: "nat \<Rightarrow> bytes \<Rightarrow> FileEntry list \<Rightarrow> bytes" where
  "write_entries slot buf [] = buf"
| "write_entries slot buf (entry # es) =
     (let offset = slot * DIR_ENTRY_SIZE in
      write_entries (Suc slot)
        (put_slice offset (write_entry (slice offset DIR_ENTRY_SIZE buf) entry) buf) es)"

definition parse_superblock :: "bytes \<Rightarrow> Superblock" where
  "parse_superblock buf =
     \<lparr>magic = from_le_bytes (slice 0 4 buf), version = from_le_bytes (slice 4 4 buf),
      next_free_block = from_le_bytes (slice 8 4 buf), file_count = from_le_bytes (slice 12 4 buf)\<rparr>"

definition superblock_bytes :: "Superblock \<Rightarrow> bytes" where
  "superblock_bytes sb =
     put_slice 12 (to_le_bytes 4 (file_count sb))
      (put_slice 8 (to_le_bytes 4 (next_free_block sb))
       (put_slice 4 (to_le_bytes 4 (version sb))
        (put_slice 0 (to_le_bytes 4 (magic sb)) (replicate BLOCK_SIZE 0))))"

section \<open>Block access\<close>

text \<open>A write through \<^verbatim>\<open>self.device\<close>.\<close>

definition dev_write :: "TinyFs \<Rightarrow> u32 \<Rightarrow> bytes \<Rightarrow> (unit, FsError) outcome \<times> TinyFs" where
  "dev_write fs i buf = (case write_block (device fs) i buf of (r, d) \<Rightarrow> (r, fs\<lparr>device := d\<rparr>))"

definition flush_superblock :: "TinyFs \<Rightarrow> (unit, FsError) outcome \<times> TinyFs" where
  "flush_superblock fs = dev_write fs 0 (superblock_bytes (superblock fs))"

definition flush_root_directory :: "TinyFs \<Rightarrow> (unit, FsError) outcome \<times> TinyFs" where
  "flush_root_directory fs =
     dev_write fs DIR_BLOCK_INDEX
       (write_entries 0 (replicate BLOCK_SIZE 0) (take MAX_FILES (root_entries fs)))"

definition format_disk :: "TinyFs \<Rightarrow> (unit, FsError) outcome \<times> TinyFs" where
  "format_disk fs =
     tryS (dev_write fs 0 (replicate BLOCK_SIZE 0)) (\<lambda>_ fs1.
     tryS (dev_write fs1 1 (replicate BLOCK_SIZE 0)) (\<lambda>_ fs2.
       let fs3 = fs2\<lparr>superblock := \<lparr>magic = MAGIC, version = VERSION,
                                   next_free_block = DATA_START_BLOCK, file_count = 0\<rparr>,
                    root_entries := []\<rparr>
       in tryS (flush_root_directory fs3) (\<lambda>_ fs4. flush_superblock fs4)))"

definition load_root_directory :: "TinyFs \<Rightarrow> (unit, FsError) outcome \<times> TinyFs" where
  "load_root_directory fs =
     (let fs1 = fs\<lparr>root_entries := []\<rparr> in
      tryS (read_block (device fs1) DIR_BLOCK_INDEX (replicate BLOCK_SIZE 0), fs1) (\<lambda>buf fs2.
        (Ok (), fs2\<lparr>root_entries :=
           List.map_filter deserialize_entry (take MAX_FILES (chunks DIR_ENTRY_SIZE buf))\<rparr>)))"

definition load_or_format :: "TinyFs \<Rightarrow> (unit, FsError) outcome \<times> TinyFs" where
  "load_or_format fs =
     tryS (read_block (device fs) 0 (replicate BLOCK_SIZE 0), fs) (\<lambda>buf fs1.
       let sb = parse_superblock buf in
       if magic sb \<noteq> MAGIC \<or> version sb \<noteq> VERSION then format_disk fs1
       else load_root_directory (fs1\<lparr>superblock := sb\<rparr>))"

definition mount :: "VirtIoBlock \<Rightarrow> (unit, FsError) outcome \<times> TinyFs" where
  "mount dev =
     load_or_format \<lparr>device = dev,
       superblock = \<lparr>magic = 0, version = 0, next_free_block = 0, file_count = 0\<rparr>,
       root_entries = []\<rparr>"

definition allocate_blocks :: "TinyFs \<Rightarrow> u32 \<Rightarrow> (u32, FsError) outcome \<times> TinyFs" where
  "allocate_blocks fs blocks =
     (let start = next_free_block (superblock fs) in
      if add_overflows start blocks then (Panic, fs)
      else if total_blocks (device fs) < start + blocks then (Err NoSpace, fs)
      else (Ok start, fs\<lparr>superblock := (superblock fs)\<lparr>next_free_block := start + blocks\<rparr>\<rparr>))"

definition allocate_and_write :: "TinyFs \<Rightarrow> bytes \<Rightarrow> (u32 \<times> u32, FsError) outcome \<times> TinyFs" where
  "allocate_and_write fs contents =
     (if contents = [] then (Ok (0, 0), fs)
      else tryS (allocate_blocks fs (word_of_nat (div_ceil (length contents) BLOCK_SIZE))) (\<lambda>start fs1.
        case write_chunks write_block start 0 (chunks BLOCK_SIZE contents) (device fs1) of
          (r, d) \<Rightarrow> tryS (r, fs1\<lparr>device := d\<rparr>) (\<lambda>_ fs2. (Ok (start, word_of_nat (length contents)), fs2))))"

definition read_data :: "TinyFs \<Rightarrow> u32 \<Rightarrow> u32 \<Rightarrow> (bytes, FsError) outcome" where
  "read_data fs start_block len =
     (if len = 0 then Ok []
      else read_loop read_block (device fs) start_block (unat len) (replicate BLOCK_SIZE 0) [])"

text \<open>
  The loop over \<^verbatim>\<open>raw.chunks(DIR_ENTRY_SIZE)\<close> stops at the first short chunk.
\<close>

fun collect_entries :: "bytes list \<Rightarrow> FileEntry list" where
  "collect_entries [] = []"
| "collect_entries (chunk # cs) =
     (if length chunk < DIR_ENTRY_SIZE then []
      else case deserialize_entry chunk of
             Some e \<Rightarrow> e # collect_entries cs
           | None \<Rightarrow> collect_entries cs)"

definition read_directory_entries :: "TinyFs \<Rightarrow> FileEntry \<Rightarrow> (FileEntry list, FsError) outcome" where
  "read_directory_entries fs entry =
     (if e_kind entry \<noteq> Directory then Err NotADirectory
      else if e_length entry = 0 then Ok []
      else and_then (read_data fs (e_start_block entry) (e_length entry)) (\<lambda>raw.
        Ok (collect_entries (chunks DIR_ENTRY_SIZE raw))))"

definition write_directory_entries :: "TinyFs \<Rightarrow> FileEntry list \<Rightarrow> (u32 \<times> u32, FsError) outcome \<times> TinyFs"
where
  "write_directory_entries fs es =
     (if es = [] then (Ok (0, 0), fs)
      else allocate_and_write fs (write_entries 0 (replicate (length es * DIR_ENTRY_SIZE) 0) es))"

section \<open>Paths and directory chains\<close>

definition SLASH :: u8 where "SLASH = 47"

definition split_path :: "bytes \<Rightarrow> (bytes list, FsError) outcome" where
  "split_path path =
     (if path = [] then Ok []
      else Ok (filter (\<lambda>segment. segment \<noteq> []) (split_on SLASH path)))"

fun load_components :: "TinyFs \<Rightarrow> LoadedDir list \<Rightarrow> bytes list \<Rightarrow> (LoadedDir list, FsError) outcome" where
  "load_components fs chain [] = Ok chain"
| "load_components fs chain (component # cs) =
     (if component = [] then load_components fs chain cs
      else
        let current = last chain in
        case position (\<lambda>e. e_name e = component) (entries current) of
          None \<Rightarrow> Err NotFound
        | Some idx \<Rightarrow>
            let entry = entries current ! idx in
            if e_kind entry \<noteq> Directory then Err NotADirectory
            else and_then (read_directory_entries fs entry) (\<lambda>child_entries.
              load_components fs
                (chain @ [\<lparr>entries = child_entries, entry_index_in_parent = Some idx\<rparr>]) cs))"

definition load_directory_chain :: "TinyFs \<Rightarrow> bytes list \<Rightarrow> (LoadedDir list, FsError) outcome" where
  "load_directory_chain fs components =
     load_components fs [\<lparr>entries = root_entries fs, entry_index_in_parent = None\<rparr>] components"

text \<open>
  The loop of \<^verbatim>\<open>persist_directory_chain\<close> from \<^verbatim>\<open>level = chain.len() - 1\<close> down to 1.
\<close>

fun persist_levels :: "nat \<Rightarrow> TinyFs \<Rightarrow> LoadedDir list \<Rightarrow> (LoadedDir list, FsError) outcome \<times> TinyFs" where
  "persist_levels 0 fs chain = (Ok chain, fs)"
| "persist_levels (Suc l) fs chain =
     (let parent = chain ! l; current_dir = chain ! Suc l in
      tryS (write_directory_entries fs (entries current_dir)) (\<lambda>(start, len) fs1.
        case entry_index_in_parent current_dir of
          None \<Rightarrow> persist_levels l fs1 chain
        | Some idx \<Rightarrow>
            if idx < length (entries parent)
            then persist_levels l fs1
              (chain[l := parent\<lparr>entries := (entries parent)[idx :=
                 (entries parent ! idx)\<lparr>e_start_block := start, e_length := len\<rparr>]\<rparr>])
            else (Panic, fs1)))"

definition persist_directory_chain :: "TinyFs \<Rightarrow> LoadedDir list \<Rightarrow> (unit, FsError) outcome \<times> TinyFs" where
  "persist_directory_chain fs chain =
     tryS (persist_levels (length chain - 1) fs chain) (\<lambda>chain' fs1.
       let es = entries (chain' ! 0);
           fs2 = fs1\<lparr>root_entries := es,
                     superblock := (superblock fs1)\<lparr>file_count := word_of_nat (length es)\<rparr>\<rparr>
       in tryS (flush_root_directory fs2) (\<lambda>_ fs3. flush_superblock fs3))"

definition set_last_entries :: "LoadedDir list \<Rightarrow> FileEntry list \<Rightarrow> LoadedDir list" where
  "set_last_entries chain es = butlast chain @ [(last chain)\<lparr>entries := es\<rparr>]"

section \<open>Operations\<close>

definition display_name :: "FileEntry \<Rightarrow> bytes" where
  "display_name e = (case e_kind e of File \<Rightarrow> e_name e | Directory \<Rightarrow> e_name e @ [SLASH])"

definition list_directory :: "TinyFs \<Rightarrow> bytes \<Rightarrow> (bytes list, FsError) outcome" where
  "list_directory fs path =
     and_then (split_path path) (\<lambda>components.
     and_then (load_directory_chain fs components) (\<lambda>chain.
       Ok (map display_name (entries (last chain)))))"

definition read_file_contents :: "TinyFs \<Rightarrow> bytes \<Rightarrow> (bytes, FsError) outcome" where
  "read_file_contents fs path =
     and_then (split_path path) (\<lambda>components.
       if components = [] then Err InvalidPath
       else and_then (load_directory_chain fs (butlast components)) (\<lambda>chain.
         case find (\<lambda>e. e_name e = last components) (entries (last chain)) of
           None \<Rightarrow> Err NotFound
         | Some entry \<Rightarrow>
             if e_kind entry \<noteq> File then Err NotADirectory
             else read_data fs (e_start_block entry) (e_length entry)))"

definition write_file_contents :: "TinyFs \<Rightarrow> bytes \<Rightarrow> bytes \<Rightarrow> (unit, FsError) outcome \<times> TinyFs" where
  "write_file_contents fs path contents =
     tryS (split_path path, fs) (\<lambda>components fs.
       if components = [] then (Err InvalidPath, fs)
       else
         let file_name = last components in
         if file_name = [] \<or> NAME_LEN < length file_name then (Err NameTooLong, fs)
         else tryS (load_directory_chain fs (butlast components), fs) (\<lambda>chain fs.
           let parent_is_root = (length chain = 1);
               es = entries (last chain);
               existing_index = position (\<lambda>e. e_name e = file_name) es
           in
           if existing_index = None \<and> parent_is_root \<and> MAX_FILES \<le> length es
           then (Err DirectoryFull, fs)
           else tryS (allocate_and_write fs contents) (\<lambda>(start_block, len) fs.
             case existing_index of
               Some idx \<Rightarrow>
                 if e_kind (es ! idx) \<noteq> File then (Err NotADirectory, fs)
                 else persist_directory_chain fs (set_last_entries chain
                        (es[idx := (es ! idx)\<lparr>e_start_block := start_block, e_length := len\<rparr>]))
             | None \<Rightarrow>
                 persist_directory_chain fs (set_last_entries chain
                   (es @ [\<lparr>e_name = file_name, e_start_block = start_block, e_length = len,
                           e_kind = File\<rparr>])))))"

definition create_directory :: "TinyFs \<Rightarrow> bytes \<Rightarrow> (unit, FsError) outcome \<times> TinyFs" where
  "create_directory fs path =
     tryS (split_path path, fs) (\<lambda>components fs.
       if components = [] then (Err InvalidPath, fs)
       else
         let dir_name = last components in
         if dir_name = [] \<or> NAME_LEN < length dir_name then (Err NameTooLong, fs)
         else tryS (load_directory_chain fs (butlast components), fs) (\<lambda>chain fs.
           let parent_is_root = (length chain = 1); es = entries (last chain) in
           if find (\<lambda>e. e_name e = dir_name) es \<noteq> None then (Err AlreadyExists, fs)
           else if parent_is_root \<and> MAX_FILES \<le> length es then (Err DirectoryFull, fs)
           else persist_directory_chain fs (set_last_entries chain
                  (es @ [\<lparr>e_name = dir_name, e_start_block = 0, e_length = 0, e_kind = Directory\<rparr>]))))"

definition create_file :: "TinyFs \<Rightarrow> bytes \<Rightarrow> (unit, FsError) outcome \<times> TinyFs" where
  "create_file fs path =
     tryS (split_path path, fs) (\<lambda>components fs.
       if components = [] then (Err InvalidPath, fs)
       else
         let file_name = last components in
         if file_name = [] \<or> NAME_LEN < length file_name then (Err NameTooLong, fs)
         else tryS (load_directory_chain fs (butlast components), fs) (\<lambda>chain fs.
           let parent_is_root = (length chain = 1); es = entries (last chain) in
           if list_ex (\<lambda>e. e_name e = file_name) es then (Err AlreadyExists, fs)
           else if parent_is_root \<and> MAX_FILES \<le> length es then (Err DirectoryFull, fs)
           else persist_directory_chain fs (set_last_entries chain
                  (es @ [\<lparr>e_name = file_name, e_start_block = 0, e_length = 0, e_kind = File\<rparr>]))))"

definition remove_file :: "TinyFs \<Rightarrow> bytes \<Rightarrow> (unit, FsError) outcome \<times> TinyFs" where
  "remove_file fs path =
     tryS (split_path path, fs) (\<lambda>components fs.
       if components = [] then (Err InvalidPath, fs)
       else tryS (load_directory_chain fs (butlast components), fs) (\<lambda>chain fs.
         let es = entries (last chain) in
         case position (\<lambda>e. e_name e = last components) es of
           None \<Rightarrow> (Err NotFound, fs)
         | Some idx \<Rightarrow>
             if e_kind (es ! idx) \<noteq> File then (Err IsDirectory, fs)
             else persist_directory_chain fs
                    (set_last_entries chain (take idx es @ drop (Suc idx) es))))"

definition remove_directory :: "TinyFs \<Rightarrow> bytes \<Rightarrow> (unit, FsError) outcome \<times> TinyFs" where
  "remove_directory fs path =
     tryS (split_path path, fs) (\<lambda>components fs.
       if components = [] then (Err InvalidPath, fs)
       else tryS (load_directory_chain fs (butlast components), fs) (\<lambda>chain fs.
         let es = entries (last chain) in
         case position (\<lambda>e. e_name e = last components) es of
           None \<Rightarrow> (Err NotFound, fs)
         | Some idx \<Rightarrow>
             if e_kind (es ! idx) \<noteq> Directory then (Err IsFile, fs)
             else tryS (read_directory_entries fs (es ! idx), fs) (\<lambda>children fs.
               if children \<noteq> [] then (Err DirectoryNotEmpty, fs)
               else persist_directory_chain fs
                      (set_last_entries chain (take idx es @ drop (Suc idx) es)))))"

definition ensure_directory_exists :: "TinyFs \<Rightarrow> bytes \<Rightarrow> (unit, FsError) outcome" where
  "ensure_directory_exists fs path =
     and_then (split_path path) (\<lambda>components.
     and_then (load_directory_chain fs components) (\<lambda>_. Ok ()))"

section \<open>The global instance\<close>

type_synonym fs_instance = "TinyFs option"

text \<open>
  \<^verbatim>\<open>block::init\<close> probes the device; its result is the parameter \<open>probe\<close>.
\<close>

definition fs_init :: "(VirtIoBlock, VirtioError) outcome \<Rightarrow> fs_instance \<Rightarrow> (unit, FsError) outcome \<times> fs_instance"
where
  "fs_init probe g =
     (case g of
        Some fs \<Rightarrow> (Ok (), g)
      | None \<Rightarrow>
          tryS (map_err DeviceInitFailed probe, None) (\<lambda>dev _.
            case mount dev of (r, fs) \<Rightarrow> tryS (r, None) (\<lambda>_ _. (Ok (), Some fs))))"

definition with_fs :: "fs_instance \<Rightarrow> (TinyFs \<Rightarrow> ('a, FsError) outcome \<times> TinyFs) \<Rightarrow>
    ('a, FsError) outcome \<times> fs_instance" where
  "with_fs g f =
     (case g of
        Some fs \<Rightarrow> (case f fs of (r, fs') \<Rightarrow> (r, Some fs'))
      | None \<Rightarrow> (Err NotInitialized, None))"

definition fs_list_files :: "fs_instance \<Rightarrow> bytes option \<Rightarrow> (bytes list, FsError) outcome \<times> fs_instance" where
  "fs_list_files g path =
     with_fs g (\<lambda>fs. (list_directory fs (case path of Some p \<Rightarrow> p | None \<Rightarrow> []), fs))"

definition fs_read_file :: "fs_instance \<Rightarrow> bytes \<Rightarrow> (bytes, FsError) outcome \<times> fs_instance" where
  "fs_read_file g path = with_fs g (\<lambda>fs. (read_file_contents fs path, fs))"

definition fs_write_file :: "fs_instance \<Rightarrow> bytes \<Rightarrow> bytes \<Rightarrow> (unit, FsError) outcome \<times> fs_instance" where
  "fs_write_file g path data = with_fs g (\<lambda>fs. write_file_contents fs path data)"

definition fs_mkdir :: "fs_instance \<Rightarrow> bytes \<Rightarrow> (unit, FsError) outcome \<times> fs_instance" where
  "fs_mkdir g path = with_fs g (\<lambda>fs. create_directory fs path)"

definition fs_ensure_directory :: "fs_instance \<Rightarrow> bytes \<Rightarrow> (unit, FsError) outcome \<times> fs_instance" where
  "fs_ensure_directory g path = with_fs g (\<lambda>fs. (ensure_directory_exists fs path, fs))"

definition fs_create_file :: "fs_instance \<Rightarrow> bytes \<Rightarrow> (unit, FsError) outcome \<times> fs_instance" where
  "fs_create_file g path = with_fs g (\<lambda>fs. create_file fs path)"

definition fs_remove_file :: "fs_instance \<Rightarrow> bytes \<Rightarrow> (unit, FsError) outcome \<times> fs_instance" where
  "fs_remove_file g path = with_fs g (\<lambda>fs. remove_file fs path)"

definition fs_remove_directory :: "fs_instance \<Rightarrow> bytes \<Rightarrow> (unit, FsError) outcome \<times> fs_instance" where
  "fs_remove_directory g path = with_fs g (\<lambda>fs. remove_directory fs path)"

definition fs_format :: "fs_instance \<Rightarrow> (unit, FsError) outcome \<times> fs_instance" where
  "fs_format g = with_fs g (\<lambda>fs. tryS (format_disk fs) (\<lambda>_ fs'. (Ok (), fs')))"

end
