(* ===== verification/FsCodec.thy ===== *)
theory FsCodec
  imports Fs
begin

text \<open>
  The on-disk formats of TinyFS round-trip: the superblock, one directory entry, a directory (the
  root block and the serialized subdirectories). A name survives the round trip exactly when it is
  valid UTF-8 of 1 to 32 bytes without a zero byte.
\<close>

definition name_ok :: "bytes \<Rightarrow> bool" where
  "name_ok n \<longleftrightarrow> n \<noteq> [] \<and> length n \<le> NAME_LEN \<and> 0 \<notin> set n \<and> SLASH \<notin> set n \<and> valid_utf8 n"

definition enc :: "FileEntry \<Rightarrow> bytes" where
  "enc e = take 32 (e_name e) @ replicate (32 - length (e_name e)) 0
     @ to_le_bytes 4 (e_start_block e) @ to_le_bytes 4 (e_length e) @ [to_raw (e_kind e), 0, 0, 0]"

lemma length_enc [simp]: "length (enc e) = 44"
  by (simp add: enc_def)

lemma put_slice_replicate:
  "off + length src \<le> n \<Longrightarrow>
   put_slice off src (replicate n x) = replicate off x @ src @ replicate (n - (off + length src)) x"
  by (simp add: put_slice_def)

lemma put_slice_append:
  "length xs = off \<Longrightarrow> put_slice off src (xs @ ys) = xs @ src @ drop (length src) ys"
  by (simp add: put_slice_def)

lemma write_entry_enc: "length buf = 44 \<Longrightarrow> write_entry buf e = enc e"
proof -
  assume buf: "length buf = 44"
  let ?n = "take 32 (e_name e)"
  have b1: "put_slice 0 ?n (replicate 44 0) = (?n @ replicate (32 - length ?n) 0) @ replicate 12 0"
    by (simp add: put_slice_replicate flip: replicate_add)
  have b2: "put_slice 32 (to_le_bytes 4 (e_start_block e)) ((?n @ replicate (32 - length ?n) 0) @ replicate 12 0)
      = ((?n @ replicate (32 - length ?n) 0) @ to_le_bytes 4 (e_start_block e)) @ replicate 8 0"
    by (subst put_slice_append) simp_all
  have b3: "put_slice 36 (to_le_bytes 4 (e_length e))
        (((?n @ replicate (32 - length ?n) 0) @ to_le_bytes 4 (e_start_block e)) @ replicate 8 0)
      = (((?n @ replicate (32 - length ?n) 0) @ to_le_bytes 4 (e_start_block e)) @ to_le_bytes 4 (e_length e))
        @ replicate 4 0"
    by (subst put_slice_append) simp_all
  have b4: "(xs @ replicate 4 (0::u8))[40 := k] = xs @ [k, 0, 0, 0]" if "length xs = 40" for xs k
    using that by (simp add: list_update_append numeral_eq_Suc)
  have t: "take (min 32 (length (e_name e))) (e_name e) = ?n" by (simp add: min_def)
  have m: "32 - length ?n = 32 - length (e_name e)" by (simp add: min_def)
  have "write_entry buf e =
      (((?n @ replicate (32 - length ?n) 0) @ to_le_bytes 4 (e_start_block e)) @ to_le_bytes 4 (e_length e))
        @ [to_raw (e_kind e), 0, 0, 0]"
    unfolding write_entry_def Let_def fs_consts buf t b1 numeral_plus_numeral add_num_simps b2 b3
    by (rule b4) (simp add: min_def)
  then show ?thesis unfolding m enc_def by simp
qed

lemma take_position: "take (case position P xs of Some i \<Rightarrow> i | None \<Rightarrow> length xs) xs = takeWhile (\<lambda>b. \<not> P b) xs"
  by (induction xs) (auto split: option.splits simp del: position_None)

lemma takeWhile_padded: "takeWhile (\<lambda>b. b \<noteq> (0::u8)) (n @ replicate k 0) = takeWhile (\<lambda>b. b \<noteq> 0) n"
  by (induction n) (simp_all add: takeWhile_replicate)

text \<open>
  One entry: decoding gives back the entry with its name cut at the first NUL byte, or nothing when
  the name starts with one.
\<close>

lemma deserialize_enc_cut:
  assumes len: "length (e_name e) \<le> 32"
    and utf8: "valid_utf8 (takeWhile (\<lambda>b. b \<noteq> 0) (e_name e))"
  shows "deserialize_entry (enc e) =
    (if takeWhile (\<lambda>b. b \<noteq> 0) (e_name e) = [] then None
     else Some (e\<lparr>e_name := takeWhile (\<lambda>b. b \<noteq> 0) (e_name e)\<rparr>))"
proof -
  let ?n = "e_name e" let ?c = "takeWhile (\<lambda>b. b \<noteq> 0) ?n"
  let ?p = "?n @ replicate (32 - length ?n) 0"
  have enc: "enc e = ?p @ to_le_bytes 4 (e_start_block e) @ to_le_bytes 4 (e_length e)
      @ [to_raw (e_kind e), 0, 0, 0]"
    using len by (simp add: enc_def)
  have p: "length ?p = 32" using len by simp
  have p0: "enc e ! 0 = 0 \<longleftrightarrow> ?c = []"
    by (cases ?n) (auto simp: enc nth_append)
  have "take NAME_LEN (enc e) = ?p" using len p by (simp add: enc)
  moreover have "take (case position (\<lambda>b. b = 0) ?p of Some i \<Rightarrow> i | None \<Rightarrow> NAME_LEN) ?p = ?c"
    using take_position [of ?p "\<lambda>b. b = 0"] takeWhile_padded [of ?n] unfolding p NAME_LEN_def by simp
  ultimately have nm: "take (case position (\<lambda>b. b = 0) (take NAME_LEN (enc e)) of Some i \<Rightarrow> i | None \<Rightarrow> NAME_LEN)
      (take NAME_LEN (enc e)) = ?c" by simp
  have st: "slice NAME_LEN 4 (enc e) = to_le_bytes 4 (e_start_block e)"
    and ln: "slice (NAME_LEN + 4) 4 (enc e) = to_le_bytes 4 (e_length e)"
    using p by (simp_all add: enc slice_def)
  have "enc e ! 40 = to_raw (e_kind e)"
    using p unfolding enc by (subst nth_append) (simp add: nth_append)
  moreover have "from_raw (to_raw k) = Some k" for k by (cases k) simp_all
  ultimately have kd: "from_raw (enc e ! (NAME_LEN + 8)) = Some (e_kind e)" by simp
  show ?thesis
    unfolding deserialize_entry_def Let_def nm st ln kd p0
    using utf8 by (simp add: from_utf8_def from_to_le_bytes)
qed

lemma deserialize_enc:
  assumes "name_ok (e_name e)"
  shows "deserialize_entry (enc e) = Some e"
proof -
  have "takeWhile (\<lambda>b. b \<noteq> 0) (e_name e) = e_name e"
    using assms by (auto simp: name_ok_def takeWhile_eq_all_conv)
  with deserialize_enc_cut [of e] assms show ?thesis by (simp add: name_ok_def)
qed

lemma deserialize_zero: "length c < 44 \<or> c ! 0 = 0 \<Longrightarrow> deserialize_entry c = None"
  by (auto simp: deserialize_entry_def)

text \<open>A directory: the entries one after the other.\<close>

lemma write_entries_append:
  "length es * 44 \<le> length buf \<Longrightarrow> length pre = slot * 44 \<Longrightarrow>
   write_entries slot (pre @ buf) es = pre @ concat (map enc es) @ drop (length es * 44) buf"
proof (induction es arbitrary: slot pre buf)
  case Nil
  then show ?case by simp
next
  case (Cons e es)
  let ?off = "slot * 44"
  have "length (slice ?off 44 (pre @ buf)) = 44" using Cons.prems by simp
  then have w: "write_entry (slice ?off 44 (pre @ buf)) e = enc e" by (rule write_entry_enc)
  have "put_slice ?off (enc e) (pre @ buf) = (pre @ enc e) @ drop 44 buf"
    using Cons.prems by (simp add: put_slice_append)
  then show ?case
    using Cons.IH [of "drop 44 buf" "pre @ enc e" "Suc slot"] Cons.prems w
    by (simp add: Let_def add.commute)
qed

lemma write_entries_eq:
  "length es * 44 \<le> n \<Longrightarrow>
   write_entries 0 (replicate n 0) es = concat (map enc es) @ replicate (n - length es * 44) 0"
  using write_entries_append [of es "replicate n 0" "[]" 0] by simp

lemma collect_enc: "(\<forall>e \<in> set es. name_ok (e_name e)) \<Longrightarrow> collect_entries (map enc es) = es"
  by (induction es) (auto simp: deserialize_enc)

lemma decode_directory:
  assumes "\<forall>e \<in> set es. name_ok (e_name e)"
  shows "collect_entries (chunks 44 (write_entries 0 (replicate (length es * 44) 0) es)) = es"
proof -
  have "chunks 44 (concat (map enc es)) = map enc es"
    by (rule chunks_concat) auto
  with collect_enc [OF assms] show ?thesis by (simp add: write_entries_eq)
qed

lemma length_encoded_directory: "length (concat (map enc es)) = length es * 44"
  by (induction es) simp_all

text \<open>The root block: up to eleven entries and zero padding.\<close>

lemma chunks_replicate_zero: "c \<in> set (chunks 44 (replicate n (0::u8))) \<Longrightarrow> length c < 44 \<or> c ! 0 = 0"
proof (induction n rule: less_induct)
  case (less n)
  show ?case
  proof (cases "n = 0")
    case False
    have ch: "chunks 44 (replicate n (0::u8)) = replicate (min n 44) 0 # chunks 44 (replicate (n - 44) 0)"
      using False by (simp add: chunks_step)
    from less.prems have "c = replicate (min n 44) 0 \<or> c \<in> set (chunks 44 (replicate (n - 44) (0::u8)))"
      unfolding ch by simp
    then show ?thesis using False less.IH [of "n - 44"] by auto
  qed (use less.prems in simp)
qed

lemma decode_root_block:
  assumes "\<forall>e \<in> set es. name_ok (e_name e)" and "length es \<le> 11"
  shows "List.map_filter deserialize_entry
    (take 11 (chunks 44 (write_entries 0 (replicate 512 0) es))) = es"
proof -
  let ?z = "replicate (512 - length es * 44) (0::u8)"
  have "chunks 44 (concat (map enc es) @ z) = map enc es @ chunks 44 z" for z
    by (induction es) (simp_all add: chunks_append)
  then have "take 11 (chunks 44 (write_entries 0 (replicate 512 0) es))
      = map enc es @ take (11 - length es) (chunks 44 ?z)"
    using assms(2) by (simp add: write_entries_eq)
  moreover have "List.map_filter deserialize_entry (take k (chunks 44 ?z)) = []" for k
    using chunks_replicate_zero deserialize_zero
    by (auto simp: List.map_filter_def filter_empty_conv dest!: in_set_takeD)
  moreover have "List.map_filter deserialize_entry (map enc es) = es"
    using assms(1) by (induction es) (auto simp: List.map_filter_def deserialize_enc)
  ultimately show ?thesis by (simp add: List.map_filter_def)
qed

text \<open>The superblock.\<close>

lemma superblock_bytes_eq:
  "superblock_bytes sb = to_le_bytes 4 (magic sb) @ to_le_bytes 4 (version sb)
     @ to_le_bytes 4 (next_free_block sb) @ to_le_bytes 4 (file_count sb) @ replicate 496 0"
  unfolding superblock_bytes_def by (simp add: put_slice_def)

lemma length_superblock_bytes [simp]: "length (superblock_bytes sb) = 512"
  by (simp add: superblock_bytes_eq)

lemma parse_superblock_bytes: "parse_superblock (superblock_bytes sb) = sb"
  by (simp add: parse_superblock_def superblock_bytes_eq slice_def from_to_le_bytes)

end
