(* ===== verification/FsInv.thy ===== *)
theory FsInv
  imports FsCodec
begin

text \<open>
  The invariant of a mounted TinyFS and the tree of files it stands for. The bump allocator makes
  the disk well founded: a directory is written after everything it names, so each of its extents
  lies below its own first block. Both the invariant and the tree recurse along that order. The
  allocator only ever writes at or above \<^verbatim>\<open>next_free_block\<close>, so what lies below keeps its
  meaning.
\<close>

section \<open>Directories on disk\<close>

definition dir_entries :: "VirtIoBlock \<Rightarrow> FileEntry \<Rightarrow> FileEntry list" where
  "dir_entries d e =
     collect_entries (chunks DIR_ENTRY_SIZE (vb.run d (unat (e_start_block e)) (unat (e_length e))))"

definition extent_ok :: "nat \<Rightarrow> FileEntry \<Rightarrow> bool" where
  "extent_ok b e \<longleftrightarrow> e_length e = 0 \<or>
     2 \<le> unat (e_start_block e) \<and> unat (e_start_block e) + div_ceil (unat (e_length e)) BLOCK_SIZE \<le> b"

definition is_dir :: "FileEntry \<Rightarrow> bool" where
  "is_dir e \<longleftrightarrow> e_kind e = Directory \<and> e_length e \<noteq> 0"

function dir_ok :: "VirtIoBlock \<Rightarrow> nat \<Rightarrow> FileEntry list \<Rightarrow> bool" where
  "dir_ok d b es \<longleftrightarrow> distinct (map e_name es) \<and>
     (\<forall>e \<in> set es. name_ok (e_name e) \<and> extent_ok b e \<and>
        (is_dir e \<and> unat (e_start_block e) < b \<longrightarrow> dir_ok d (unat (e_start_block e)) (dir_entries d e)))"
  by pat_completeness auto
termination
  by (relation "measure (\<lambda>(d, b, es). b)") auto

declare dir_ok.simps [simp del]

datatype node = FileN bytes | DirN "(bytes \<times> node) list"

type_synonym tree = "(bytes \<times> node) list"

function dir_tree :: "VirtIoBlock \<Rightarrow> nat \<Rightarrow> FileEntry list \<Rightarrow> tree" where
  "dir_tree d b es = map (\<lambda>e. (e_name e,
     if e_kind e = File then FileN (vb.run d (unat (e_start_block e)) (unat (e_length e)))
     else DirN (if is_dir e \<and> unat (e_start_block e) < b
                then dir_tree d (unat (e_start_block e)) (dir_entries d e) else []))) es"
  by pat_completeness auto
termination
  by (relation "measure (\<lambda>(d, b, es). b)") auto

declare dir_tree.simps [simp del]

definition node_of :: "VirtIoBlock \<Rightarrow> FileEntry \<Rightarrow> node" where
  "node_of d e =
     (if e_kind e = File then FileN (vb.run d (unat (e_start_block e)) (unat (e_length e)))
      else DirN (dir_tree d (unat (e_start_block e)) (dir_entries d e)))"

lemma extent_below: "extent_ok b e \<Longrightarrow> e_length e \<noteq> 0 \<Longrightarrow> unat (e_start_block e) < b"
  using div_ceil_pos [of 512 "unat (e_length e)"] by (auto simp: extent_ok_def unat_gt_0)

lemma extent_mono: "extent_ok b e \<Longrightarrow> b \<le> b' \<Longrightarrow> extent_ok b' e"
  by (auto simp: extent_ok_def)

lemma dir_entries_empty [simp]: "e_length e = 0 \<Longrightarrow> dir_entries d e = []"
  by (simp add: dir_entries_def)

lemma dir_tree_Nil [simp]: "dir_tree d b [] = []"
  by (subst dir_tree.simps) simp

lemma dir_ok_Nil [simp]: "dir_ok d b []"
  by (subst dir_ok.simps) simp

text \<open>Under the invariant the guard of the recursion holds wherever it is needed.\<close>

lemma dir_ok_iff:
  "dir_ok d b es \<longleftrightarrow> distinct (map e_name es) \<and>
     (\<forall>e \<in> set es. name_ok (e_name e) \<and> extent_ok b e \<and>
        (e_kind e = Directory \<longrightarrow> dir_ok d (unat (e_start_block e)) (dir_entries d e)))"
proof -
  have "(is_dir e \<and> unat (e_start_block e) < b \<longrightarrow> dir_ok d (unat (e_start_block e)) (dir_entries d e)) \<longleftrightarrow>
      (e_kind e = Directory \<longrightarrow> dir_ok d (unat (e_start_block e)) (dir_entries d e))"
    if "extent_ok b e" for e
    using extent_below [OF that] by (cases "e_length e = 0") (auto simp: is_dir_def)
  then show ?thesis by (subst dir_ok.simps) blast
qed

lemma dir_okD:
  assumes "dir_ok d b es"
  shows "distinct (map e_name es)" and "e \<in> set es \<Longrightarrow> name_ok (e_name e)"
    and "e \<in> set es \<Longrightarrow> extent_ok b e"
    and "e \<in> set es \<Longrightarrow> e_kind e = Directory \<Longrightarrow> dir_ok d (unat (e_start_block e)) (dir_entries d e)"
  using assms [unfolded dir_ok_iff [of d b es]] by auto

lemma dir_tree_eq: "dir_ok d b es \<Longrightarrow> dir_tree d b es = map (\<lambda>e. (e_name e, node_of d e)) es"
proof -
  assume ok: "dir_ok d b es"
  have "(if is_dir e \<and> unat (e_start_block e) < b
         then dir_tree d (unat (e_start_block e)) (dir_entries d e) else [])
       = dir_tree d (unat (e_start_block e)) (dir_entries d e)"
    if "e \<in> set es" "e_kind e \<noteq> File" for e
    using that ok extent_below [of b e] EntryType.exhaust [of "e_kind e"]
    by (cases "e_length e = 0") (auto simp: dir_ok_iff [of d b es] is_dir_def)
  then show ?thesis by (subst dir_tree.simps) (auto simp: node_of_def)
qed

lemma dir_ok_mono: "dir_ok d b es \<Longrightarrow> b \<le> b' \<Longrightarrow> dir_ok d b' es"
  by (auto simp: dir_ok_iff [of d b es] dir_ok_iff [of d b' es] intro: extent_mono)

lemma dir_tree_mono: "dir_ok d b es \<Longrightarrow> b \<le> b' \<Longrightarrow> dir_tree d b' es = dir_tree d b es"
  by (simp add: dir_tree_eq dir_ok_mono [of d b es b'])

section \<open>Frame\<close>

text \<open>Two disks agree on the data blocks below \<open>b\<close>.\<close>

definition agree :: "nat \<Rightarrow> VirtIoBlock \<Rightarrow> VirtIoBlock \<Rightarrow> bool" where
  "agree b d d' \<longleftrightarrow> (\<forall>j. 2 \<le> j \<longrightarrow> j < b \<longrightarrow> sectors d' j = sectors d j)"

lemma agree_mono: "agree b d d' \<Longrightarrow> b' \<le> b \<Longrightarrow> agree b' d d'"
  by (simp add: agree_def)

lemma agree_run:
  "agree b d d' \<Longrightarrow> extent_ok b e \<Longrightarrow>
   vb.run d' (unat (e_start_block e)) (unat (e_length e)) = vb.run d (unat (e_start_block e)) (unat (e_length e))"
  by (cases "e_length e = 0") (auto simp: agree_def extent_ok_def intro!: vb.run_cong)

lemma agree_dir_entries: "agree b d d' \<Longrightarrow> extent_ok b e \<Longrightarrow> dir_entries d' e = dir_entries d e"
  by (simp add: dir_entries_def agree_run)

lemma frame:
  "dir_ok d b es \<Longrightarrow> agree b d d' \<Longrightarrow> dir_ok d' b es \<and> dir_tree d' b es = dir_tree d b es"
proof (induction d b es rule: dir_ok.induct)
  case (1 d b es)
  note ok = "1.prems"(1) [unfolded dir_ok_iff [of d b es]]
  have sub: "dir_ok d' (unat (e_start_block e)) (dir_entries d' e) \<and> node_of d' e = node_of d e"
    if e: "e \<in> set es" "e_kind e = Directory" for e
  proof (cases "e_length e = 0")
    case True
    then show ?thesis using e by (simp add: node_of_def)
  next
    case False
    from ok e have x: "extent_ok b e" "dir_ok d (unat (e_start_block e)) (dir_entries d e)" by auto
    from extent_below [OF x(1) False] have lt: "unat (e_start_block e) < b" .
    with "1.IH" [OF e(1)] e False x(2) agree_mono [OF "1.prems"(2)]
    have "dir_ok d' (unat (e_start_block e)) (dir_entries d e) \<and>
        dir_tree d' (unat (e_start_block e)) (dir_entries d e)
          = dir_tree d (unat (e_start_block e)) (dir_entries d e)"
      by (auto simp: is_dir_def)
    with e agree_dir_entries [OF "1.prems"(2) x(1)] show ?thesis by (simp add: node_of_def)
  qed
  have plain: "node_of d' e = node_of d e" if "e \<in> set es" "e_kind e = File" for e
    using that ok agree_run [OF "1.prems"(2)] by (simp add: node_of_def)
  have dok: "dir_ok d' b es" using ok sub by (simp add: dir_ok_iff [of d' b es])
  moreover have "map (\<lambda>e. (e_name e, node_of d' e)) es = map (\<lambda>e. (e_name e, node_of d e)) es"
    using sub plain by (auto intro: EntryType.exhaust)
  ultimately show ?case using "1.prems"(1) by (simp add: dir_tree_eq)
qed

lemmas frame_ok = frame [THEN conjunct1] and frame_tree = frame [THEN conjunct2]

section \<open>The state\<close>

abbreviation nfree :: "TinyFs \<Rightarrow> nat" where
  "nfree fs \<equiv> unat (next_free_block (superblock fs))"

abbreviation ntotal :: "TinyFs \<Rightarrow> nat" where
  "ntotal fs \<equiv> unat (total_blocks (device fs))"

text \<open>
  The disk has at most 4194304 blocks (2 GiB; the image of the project is 32768 blocks), so that no
  byte count of an extent on it overflows 32 bits.
\<close>

definition fs_base :: "TinyFs \<Rightarrow> bool" where
  "fs_base fs \<longleftrightarrow> dev_ok (device fs) \<and> 2 \<le> nfree fs \<and> nfree fs \<le> ntotal fs \<and> ntotal fs \<le> 4194304 \<and>
     magic (superblock fs) = MAGIC \<and> version (superblock fs) = VERSION"

definition fs_ok :: "TinyFs \<Rightarrow> bool" where
  "fs_ok fs \<longleftrightarrow> fs_base fs \<and> length (root_entries fs) \<le> MAX_FILES \<and>
     dir_ok (device fs) (nfree fs) (root_entries fs)"

definition fs_tree :: "TinyFs \<Rightarrow> tree" where
  "fs_tree fs = dir_tree (device fs) (nfree fs) (root_entries fs)"

text \<open>What an allocation may change: it moves the bump pointer and writes above it.\<close>

definition ext :: "TinyFs \<Rightarrow> TinyFs \<Rightarrow> bool" where
  "ext fs fs' \<longleftrightarrow> fs_base fs' \<and> ntotal fs' = ntotal fs \<and> nfree fs \<le> nfree fs' \<and>
     root_entries fs' = root_entries fs \<and>
     (\<forall>j < nfree fs. sectors (device fs') j = sectors (device fs) j)"

lemma ext_refl: "fs_base fs \<Longrightarrow> ext fs fs"
  by (simp add: ext_def)

lemma ext_trans: "ext a b \<Longrightarrow> ext b c \<Longrightarrow> ext a c"
  by (auto simp: ext_def)

lemma ext_agree: "ext fs fs' \<Longrightarrow> agree (nfree fs) (device fs) (device fs')"
  by (simp add: ext_def agree_def)

lemma ext_dir:
  assumes "ext fs fs'" and "dir_ok (device fs) b es" and "b \<le> nfree fs"
  shows "dir_ok (device fs') (nfree fs') es \<and>
    dir_tree (device fs') (nfree fs') es = dir_tree (device fs) b es"
proof -
  have ag: "agree b (device fs) (device fs')"
    using ext_agree [OF assms(1)] assms(3) by (rule agree_mono)
  have b: "b \<le> nfree fs'" using assms(1,3) by (simp add: ext_def)
  from frame [OF assms(2) ag] dir_ok_mono [OF _ b] dir_tree_mono [OF _ b] show ?thesis by auto
qed

lemma ext_fs_ok: "ext fs fs' \<Longrightarrow> fs_ok fs \<Longrightarrow> fs_ok fs' \<and> fs_tree fs' = fs_tree fs"
  using ext_dir [of fs fs' "nfree fs" "root_entries fs"]
  by (auto simp: fs_ok_def fs_tree_def ext_def)

section \<open>Allocation\<close>

lemma allocate_and_write_cases:
  assumes base: "fs_base fs" and len: "length contents < 4294967296" and ne: "contents \<noteq> []"
  shows "(\<exists>fs'. allocate_and_write fs contents =
             (Ok (next_free_block (superblock fs), word_of_nat (length contents)), fs') \<and>
           ext fs fs' \<and> vb.run (device fs') (nfree fs) (length contents) = contents \<and>
           nfree fs' = nfree fs + div_ceil (length contents) BLOCK_SIZE) \<or>
         allocate_and_write fs contents = (Err NoSpace, fs) \<and>
           ntotal fs < nfree fs + div_ceil (length contents) BLOCK_SIZE"
proof -
  let ?n = "div_ceil (length contents) 512" and ?s = "next_free_block (superblock fs)"
  let ?w = "word_of_nat ?n :: u32"
  from base have b: "dev_ok (device fs)" "2 \<le> unat ?s" "unat ?s \<le> ntotal fs" "ntotal fs \<le> 4194304"
    by (simp_all add: fs_base_def)
  have "?n * 512 < length contents + 512"
    using div_ceil_bounds [of 512 "length contents"] by simp
  then have n: "?n \<le> 8388608" using len by linarith
  then have w: "unat ?w = ?n" by (simp add: unat_word_of_nat_u32)
  then have ov: "\<not> add_overflows ?s ?w" using b n by (simp add: add_overflows_def)
  have sw: "unat (?s + ?w) = unat ?s + ?n" using unat_add_no_overflow [OF ov] w by simp
  show ?thesis
  proof (cases "total_blocks (device fs) < ?s + ?w")
    case True
    moreover from this have "ntotal fs < unat ?s + ?n" using sw by (simp add: word_less_nat_alt)
    ultimately show ?thesis using ne ov by (simp add: allocate_and_write_def allocate_blocks_def Let_def)
  next
    case False
    then have le: "unat ?s + ?n \<le> ntotal fs" using sw by (simp add: word_less_nat_alt)
    from vb.write_chunks_run [OF b(1), of ?s contents] le obtain d'
      where d': "write_chunks write_block ?s 0 (chunks 512 contents) (device fs) = (Ok () :: (unit, FsError) outcome, d')"
        "dev_ok d'" "total_blocks d' = total_blocks (device fs)"
        "vb.run d' (unat ?s) (length contents) = contents"
        "\<forall>j < unat ?s. sectors d' j = sectors (device fs) j"
      by auto
    let ?fs' = "fs\<lparr>superblock := (superblock fs)\<lparr>next_free_block := ?s + ?w\<rparr>, device := d'\<rparr>"
    have "allocate_and_write fs contents = (Ok (?s, word_of_nat (length contents)), ?fs')"
      using ne ov False d'(1) by (simp add: allocate_and_write_def allocate_blocks_def Let_def)
    moreover have "ext fs ?fs'"
      using base d' le sw by (simp add: ext_def fs_base_def)
    ultimately show ?thesis using d'(4) sw by fastforce
  qed
qed

text \<open>Writing a directory: its entries can be read back from where it was put.\<close>

definition dir_blocks :: "nat \<Rightarrow> nat" where
  "dir_blocks n = div_ceil (n * DIR_ENTRY_SIZE) BLOCK_SIZE"

lemma write_directory_entries_cases:
  assumes base: "fs_base fs" and len: "length es * 44 < 4294967296"
    and ok: "dir_ok (device fs) (nfree fs) es"
  shows "(\<exists>s l fs'. write_directory_entries fs es = (Ok (s, l), fs') \<and> ext fs fs' \<and>
           (\<forall>e. extent_ok (nfree fs') (e\<lparr>e_start_block := s, e_length := l\<rparr>) \<and>
                dir_entries (device fs') (e\<lparr>e_start_block := s, e_length := l\<rparr>) = es) \<and>
           dir_ok (device fs') (unat s) es \<and>
           dir_tree (device fs') (unat s) es = dir_tree (device fs) (nfree fs) es \<and>
           nfree fs' = nfree fs + dir_blocks (length es)) \<or>
         write_directory_entries fs es = (Err NoSpace, fs) \<and> ntotal fs < nfree fs + dir_blocks (length es)"
proof (cases "es = []")
  case True
  then show ?thesis
    using base by (auto simp: write_directory_entries_def ext_refl extent_ok_def dir_blocks_def)
next
  case False
  define n where "n = length es * 44"
  let ?raw = "write_entries 0 (replicate n 0) es"
  have raw1: "length ?raw = n"
    by (simp add: n_def write_entries_eq length_encoded_directory)
  with False have "0 < length ?raw" by (simp add: n_def)
  then have raw2: "?raw \<noteq> []" by (rule length_greater_0_conv [THEN iffD1])
  have names: "\<forall>e \<in> set es. name_ok (e_name e)" using dir_okD(2) [OF ok] by blast
  from allocate_and_write_cases [OF base _ raw2] len [folded n_def] raw1
  consider (ok) fs' where "allocate_and_write fs ?raw =
        (Ok (next_free_block (superblock fs), word_of_nat (n)), fs')"
      "ext fs fs'" "vb.run (device fs') (nfree fs) (n) = ?raw"
      "nfree fs' = nfree fs + div_ceil (n) 512"
    | (full) "allocate_and_write fs ?raw = (Err NoSpace, fs)" "ntotal fs < nfree fs + div_ceil n 512"
    by auto
  then show ?thesis
  proof cases
    case ok
    have l: "unat (word_of_nat (n) :: u32) = n"
      by (rule unat_word_of_nat_u32) (use len in \<open>simp add: n_def\<close>)
    have s: "2 \<le> nfree fs" using base by (simp add: fs_base_def)
    have d: "dir_ok (device fs') (nfree fs) es"
      "dir_tree (device fs') (nfree fs) es = dir_tree (device fs) (nfree fs) es"
      using frame [OF \<open>dir_ok (device fs) (nfree fs) es\<close> ext_agree [OF ok(2)]] by auto
    have "dir_entries (device fs')
        (e\<lparr>e_start_block := next_free_block (superblock fs), e_length := word_of_nat (n)\<rparr>) = es"
      for e
      using decode_directory [OF names, folded n_def] ok(3) by (simp add: dir_entries_def l)
    then show ?thesis
      using ok d l s False
      by (auto simp: write_directory_entries_def extent_ok_def dir_blocks_def n_def [symmetric])
  next
    case full
    then show ?thesis using False by (simp add: write_directory_entries_def dir_blocks_def n_def [symmetric])
  qed
qed

lemma length_dir_entries: "length (dir_entries d e) * 44 \<le> unat (e_length e)" if "dev_ok d"
proof -
  have "length (collect_entries cs) * 44 \<le> length (concat cs)" for cs
    by (induction cs) (auto split: option.split)
  from this [of "chunks 44 (vb.run d (unat (e_start_block e)) (unat (e_length e)))"]
  show ?thesis by (simp add: dir_entries_def concat_chunks vb.length_run [OF that])
qed

end
