(* ===== verification/FsTree.thy ===== *)
theory FsTree
  imports FsInv "HOL-Library.AList"
begin

text \<open>
  The abstract file system: a tree of named nodes, and what each operation of TinyFS promises on
  it, with the errors of the code. The two halves of every TinyFS operation are then related to it:
  loading a directory chain is descending the tree, and persisting a chain whose last directory
  was changed is an update of the tree at that directory.
\<close>

section \<open>Specification\<close>

fun tree_dir :: "tree \<Rightarrow> bytes list \<Rightarrow> (tree, FsError) outcome" where
  "tree_dir t [] = Ok t"
| "tree_dir t (c # cs) =
     (case map_of t c of
        None \<Rightarrow> Err NotFound
      | Some (FileN _) \<Rightarrow> Err NotADirectory
      | Some (DirN sub) \<Rightarrow> tree_dir sub cs)"

fun on_dir :: "(tree \<Rightarrow> tree) \<Rightarrow> node \<Rightarrow> node" where
  "on_dir f (FileN b) = FileN b"
| "on_dir f (DirN t) = DirN (f t)"

fun tree_update :: "bytes list \<Rightarrow> (tree \<Rightarrow> tree) \<Rightarrow> tree \<Rightarrow> tree" where
  "tree_update [] f t = f t"
| "tree_update (c # cs) f t =
     map (\<lambda>(n, x). (n, if n = c then on_dir (tree_update cs f) x else x)) t"

definition spec_read :: "bytes list \<Rightarrow> tree \<Rightarrow> (bytes, FsError) outcome" where
  "spec_read cs t =
     (if cs = [] then Err InvalidPath
      else and_then (tree_dir t (butlast cs)) (\<lambda>sub.
        case map_of sub (last cs) of
          None \<Rightarrow> Err NotFound
        | Some (FileN b) \<Rightarrow> Ok b
        | Some (DirN _) \<Rightarrow> Err NotADirectory))"

fun label :: "bytes \<times> node \<Rightarrow> bytes" where
  "label (n, FileN b) = n"
| "label (n, DirN t) = n @ [SLASH]"

definition spec_list :: "bytes list \<Rightarrow> tree \<Rightarrow> (bytes list, FsError) outcome" where
  "spec_list cs t = and_then (tree_dir t cs) (\<lambda>sub. Ok (map label sub))"

text \<open>A new or changed name: only the root directory has a limited number of entries.\<close>

definition spec_write :: "bytes list \<Rightarrow> bytes \<Rightarrow> tree \<Rightarrow> (tree, FsError) outcome" where
  "spec_write cs contents t =
     (if cs = [] then Err InvalidPath
      else if NAME_LEN < length (last cs) then Err NameTooLong
      else and_then (tree_dir t (butlast cs)) (\<lambda>sub.
        case map_of sub (last cs) of
          None \<Rightarrow>
            if butlast cs = [] \<and> MAX_FILES \<le> length sub then Err DirectoryFull
            else Ok (tree_update (butlast cs) (\<lambda>s. s @ [(last cs, FileN contents)]) t)
        | Some (FileN _) \<Rightarrow> Ok (tree_update (butlast cs) (AList.update (last cs) (FileN contents)) t)
        | Some (DirN _) \<Rightarrow> Err NotADirectory))"

definition spec_create :: "node \<Rightarrow> bytes list \<Rightarrow> tree \<Rightarrow> (tree, FsError) outcome" where
  "spec_create v cs t =
     (if cs = [] then Err InvalidPath
      else if NAME_LEN < length (last cs) then Err NameTooLong
      else and_then (tree_dir t (butlast cs)) (\<lambda>sub.
        if map_of sub (last cs) \<noteq> None then Err AlreadyExists
        else if butlast cs = [] \<and> MAX_FILES \<le> length sub then Err DirectoryFull
        else Ok (tree_update (butlast cs) (\<lambda>s. s @ [(last cs, v)]) t)))"

definition spec_remove_file :: "bytes list \<Rightarrow> tree \<Rightarrow> (tree, FsError) outcome" where
  "spec_remove_file cs t =
     (if cs = [] then Err InvalidPath
      else and_then (tree_dir t (butlast cs)) (\<lambda>sub.
        case map_of sub (last cs) of
          None \<Rightarrow> Err NotFound
        | Some (FileN _) \<Rightarrow> Ok (tree_update (butlast cs) (AList.delete (last cs)) t)
        | Some (DirN _) \<Rightarrow> Err IsDirectory))"

definition spec_remove_directory :: "bytes list \<Rightarrow> tree \<Rightarrow> (tree, FsError) outcome" where
  "spec_remove_directory cs t =
     (if cs = [] then Err InvalidPath
      else and_then (tree_dir t (butlast cs)) (\<lambda>sub.
        case map_of sub (last cs) of
          None \<Rightarrow> Err NotFound
        | Some (FileN _) \<Rightarrow> Err IsFile
        | Some (DirN s) \<Rightarrow>
            if s \<noteq> [] then Err DirectoryNotEmpty
            else Ok (tree_update (butlast cs) (AList.delete (last cs)) t)))"

text \<open>
  The blocks a change of the directory at a path takes: every directory on the path below the root
  is written anew.
\<close>

fun path_blocks :: "bytes list \<Rightarrow> tree \<Rightarrow> nat" where
  "path_blocks [] t = 0"
| "path_blocks (c # cs) t =
     (case map_of t c of
        Some (DirN s) \<Rightarrow> dir_blocks (length s) + path_blocks cs s
      | _ \<Rightarrow> 0)"

lemma map_of_tree_update:
  "map_of (tree_update (c # cs) f t) c = map_option (on_dir (tree_update cs f)) (map_of t c)"
  by (induction t) auto

section \<open>Descending\<close>

text \<open>The chain below a directory, without its first element.\<close>

fun walk :: "VirtIoBlock \<Rightarrow> FileEntry list \<Rightarrow> bytes list \<Rightarrow> (LoadedDir list, FsError) outcome" where
  "walk d es [] = Ok []"
| "walk d es (c # cs) =
     (case position (\<lambda>e. e_name e = c) es of
        None \<Rightarrow> Err NotFound
      | Some i \<Rightarrow>
          if e_kind (es ! i) \<noteq> Directory then Err NotADirectory
          else and_then (walk d (dir_entries d (es ! i)) cs) (\<lambda>r.
            Ok (\<lparr>entries = dir_entries d (es ! i), entry_index_in_parent = Some i\<rparr> # r)))"

lemma read_data_run:
  assumes "fs_base fs" and "extent_ok (nfree fs) e"
  shows "read_data fs (e_start_block e) (e_length e) =
    Ok (vb.run (device fs) (unat (e_start_block e)) (unat (e_length e)))"
proof (cases "e_length e = 0")
  case True
  then show ?thesis by (simp add: read_data_def)
next
  case False
  with assms have "unat (e_start_block e) + div_ceil (unat (e_length e)) 512 \<le> ntotal fs"
    by (auto simp: extent_ok_def fs_base_def)
  with assms(1) False show ?thesis
    by (simp add: read_data_def fs_base_def vb.read_loop_run)
qed

lemma read_directory_entries_eq:
  assumes "fs_base fs" and "extent_ok (nfree fs) e" and "e_kind e = Directory"
  shows "read_directory_entries fs e = Ok (dir_entries (device fs) e)"
  using read_data_run [OF assms(1,2)] assms(3)
  by (simp add: read_directory_entries_def dir_entries_def)

lemma dir_ok_child:
  assumes "dir_ok d b es" and "i < length es" and "e_kind (es ! i) = Directory"
  shows "\<exists>b' \<le> b. dir_ok d b' (dir_entries d (es ! i))"
proof (cases "e_length (es ! i) = 0")
  case False
  with dir_okD(3,4) [OF assms(1), of "es ! i"] assms(2,3) extent_below [of b "es ! i"]
  show ?thesis by (auto intro: less_imp_le)
qed auto

lemma load_components_walk:
  assumes "fs_base fs" and "[] \<notin> set cs"
  shows "dir_ok (device fs) b (entries (last chain)) \<Longrightarrow> b \<le> nfree fs \<Longrightarrow> chain \<noteq> [] \<Longrightarrow>
    load_components fs chain cs = and_then (walk (device fs) (entries (last chain)) cs) (\<lambda>r. Ok (chain @ r))"
  using assms(2)
proof (induction cs arbitrary: chain b)
  case Nil
  then show ?case by simp
next
  case (Cons c cs)
  let ?es = "entries (last chain)"
  show ?case
  proof (cases "position (\<lambda>e. e_name e = c) ?es")
    case None
    then show ?thesis using Cons.prems by (auto simp del: position_None)
  next
    case (Some i)
    then have i: "i < length ?es" using position_SomeD by fastforce
    show ?thesis
    proof (cases "e_kind (?es ! i) = Directory")
      case False
      then show ?thesis using Some Cons.prems by auto
    next
      case True
      have "extent_ok (nfree fs) (?es ! i)"
        using dir_okD(3) [OF Cons.prems(1)] i Cons.prems(2) extent_mono by (meson nth_mem)
      then have rd: "read_directory_entries fs (?es ! i) = Ok (dir_entries (device fs) (?es ! i))"
        using read_directory_entries_eq assms(1) True by blast
      obtain b' where b': "b' \<le> b" "dir_ok (device fs) b' (dir_entries (device fs) (?es ! i))"
        using dir_ok_child [OF Cons.prems(1) i True] by blast
      let ?ld = "\<lparr>entries = dir_entries (device fs) (?es ! i), entry_index_in_parent = Some i\<rparr>"
      have "load_components fs (chain @ [?ld]) cs =
          and_then (walk (device fs) (dir_entries (device fs) (?es ! i)) cs) (\<lambda>r. Ok ((chain @ [?ld]) @ r))"
        using Cons.IH [of b' "chain @ [?ld]"] b' Cons.prems by simp
      then show ?thesis
        using Some True rd Cons.prems
        by (cases "walk (device fs) (dir_entries (device fs) (?es ! i)) cs") auto
    qed
  qed
qed

lemma load_directory_chain_walk:
  assumes "fs_ok fs" and "[] \<notin> set cs"
  shows "load_directory_chain fs cs = and_then (walk (device fs) (root_entries fs) cs)
    (\<lambda>r. Ok (\<lparr>entries = root_entries fs, entry_index_in_parent = None\<rparr> # r))"
  using load_components_walk [of fs cs "nfree fs" "[\<lparr>entries = root_entries fs, entry_index_in_parent = None\<rparr>]"]
    assms by (simp add: load_directory_chain_def fs_ok_def)

text \<open>Looking a name up in the tree is looking it up among the entries.\<close>

lemma map_of_dir_tree:
  assumes "dir_ok d b es"
  shows "map_of (dir_tree d b es) c =
    (case position (\<lambda>e. e_name e = c) es of None \<Rightarrow> None | Some i \<Rightarrow> Some (node_of d (es ! i)))"
proof -
  have "map_of (map (\<lambda>e. (e_name e, node_of d e)) es) c =
      (case position (\<lambda>e. e_name e = c) es of None \<Rightarrow> None | Some i \<Rightarrow> Some (node_of d (es ! i)))"
    by (induction es) (auto split: option.splits simp del: position_None)
  then show ?thesis by (simp add: dir_tree_eq [OF assms])
qed

lemma node_of_cases:
  "node_of d e = FileN x \<longleftrightarrow> e_kind e = File \<and> x = vb.run d (unat (e_start_block e)) (unat (e_length e))"
  "node_of d e = DirN t \<longleftrightarrow> e_kind e = Directory \<and> t = dir_tree d (unat (e_start_block e)) (dir_entries d e)"
  using EntryType.exhaust [of "e_kind e"] by (auto simp: node_of_def)

lemma tree_update_at:
  assumes "distinct (map fst t)" and "k < length t" and "t ! k = (c, DirN s)"
  shows "tree_update (c # cs) f t = t[k := (c, DirN (tree_update cs f s))]"
proof (rule nth_equalityI)
  fix j assume "j < length (tree_update (c # cs) f t)"
  then have j: "j < length t" by simp
  show "tree_update (c # cs) f t ! j = t[k := (c, DirN (tree_update cs f s))] ! j"
  proof (cases "j = k")
    case True
    with assms j show ?thesis by simp
  next
    case False
    with assms j have "fst (t ! j) \<noteq> c"
      by (metis distinct_conv_nth fst_conv length_map nth_map)
    with False j show ?thesis by (simp add: split_beta)
  qed
qed simp

text \<open>One step down, on disk and in the tree.\<close>

lemma descend:
  assumes ok: "dir_ok d b es" and k: "position (\<lambda>e. e_name e = c) es = Some k"
    and dir: "e_kind (es ! k) = Directory"
  shows "\<exists>b' \<le> b. dir_ok d b' (dir_entries d (es ! k)) \<and>
    map_of (dir_tree d b es) c = Some (DirN (dir_tree d b' (dir_entries d (es ! k)))) \<and>
    (\<forall>cs. tree_dir (dir_tree d b es) (c # cs) = tree_dir (dir_tree d b' (dir_entries d (es ! k))) cs) \<and>
    (\<forall>f cs. tree_update (c # cs) f (dir_tree d b es) =
       (dir_tree d b es)[k := (c, DirN (tree_update cs f (dir_tree d b' (dir_entries d (es ! k)))))])"
proof -
  let ?e = "es ! k" let ?sub = "dir_entries d ?e" and ?s = "unat (e_start_block ?e)"
  from position_SomeD [OF k] have kl: "k < length es" and nm: "e_name ?e = c" by auto
  obtain b' where b': "b' \<le> b" "dir_ok d b' ?sub" "dir_tree d b' ?sub = dir_tree d ?s ?sub"
  proof (cases "e_length ?e = 0")
    case True
    then show ?thesis using that [of b] by simp
  next
    case False
    with that [of ?s] dir_okD(3,4) [OF ok, of ?e] kl dir extent_below [of b ?e] show ?thesis by simp
  qed
  have "tree_update (c # cs) f (dir_tree d b es) =
      (dir_tree d b es)[k := (c, DirN (tree_update cs f (dir_tree d b' ?sub)))]" for f cs
    using kl nm dir dir_okD(1) [OF ok] b'(3)
    by (intro tree_update_at) (simp_all add: dir_tree_eq [OF ok] node_of_def comp_def)
  moreover have m: "map_of (dir_tree d b es) c = Some (DirN (dir_tree d b' ?sub))"
    using map_of_dir_tree [OF ok, of c] k dir b'(3) by (simp add: node_of_def)
  moreover have "tree_dir (dir_tree d b es) (c # cs) = tree_dir (dir_tree d b' ?sub) cs" for cs
    using m by simp
  ultimately show ?thesis using b' by blast
qed

text \<open>
  Descending on disk and in the tree agree; the directory reached satisfies the invariant, is small
  enough to take one more entry, and is the tree's.
\<close>

definition reaches :: "VirtIoBlock \<Rightarrow> nat \<Rightarrow> FileEntry list \<Rightarrow> bytes list \<Rightarrow> LoadedDir list \<Rightarrow> tree \<Rightarrow> bool" where
  "reaches d b es cs r t \<longleftrightarrow>
     (let es' = (if r = [] then es else entries (last r)) in
      length r = length cs \<and> (\<exists>b' \<le> b. dir_ok d b' es' \<and> dir_tree d b' es' = t) \<and>
      (cs \<noteq> [] \<longrightarrow> (length es' + 1) * 44 < 4294967296))"

lemma dir_entries_small:
  assumes "dev_ok d" and "extent_ok b e" and "b \<le> 4194304"
  shows "(length (dir_entries d e) + 1) * 44 < 4294967296"
proof (cases "e_length e = 0")
  case False
  with assms(2,3) have "div_ceil (unat (e_length e)) 512 \<le> 4194304" by (auto simp: extent_ok_def)
  with div_ceil_bounds [of 512 "unat (e_length e)"] have "unat (e_length e) \<le> 2147483648" by simp
  with length_dir_entries [OF assms(1), of e] show ?thesis by simp
qed simp

lemma reaches_below:
  assumes "dev_ok d" and "extent_ok b e" and "b \<le> 4194304" and "b' \<le> b"
    and r: "reaches d b' (dir_entries d e) cs r t"
  shows "reaches d b es (c # cs) (\<lparr>entries = dir_entries d e, entry_index_in_parent = Some i\<rparr> # r) t"
proof (cases "r = []")
  case True
  with r assms(4) dir_entries_small [OF assms(1-3)] show ?thesis
    by (auto simp: reaches_def Let_def intro: order_trans)
next
  case False
  with r assms(4) show ?thesis by (auto simp: reaches_def Let_def intro: order_trans)
qed

lemma walk_tree:
  assumes "dev_ok d"
  shows "dir_ok d b es \<Longrightarrow> b \<le> 4194304 \<Longrightarrow>
    (case walk d es cs of
       Ok r \<Rightarrow> \<exists>t. tree_dir (dir_tree d b es) cs = Ok t \<and> reaches d b es cs r t
     | Err e \<Rightarrow> tree_dir (dir_tree d b es) cs = Err e
     | Panic \<Rightarrow> False | Hang \<Rightarrow> False)"
proof (induction cs arbitrary: es b)
  case Nil
  then show ?case by (auto simp: reaches_def)
next
  case (Cons c cs)
  note m = map_of_dir_tree [OF Cons.prems(1), of c]
  show ?case
  proof (cases "position (\<lambda>e. e_name e = c) es")
    case None
    with m show ?thesis by (simp del: position_None)
  next
    case (Some i)
    then have i: "i < length es" using position_SomeD by fastforce
    let ?e = "es ! i"
    show ?thesis
    proof (cases "e_kind ?e")
      case File
      with m Some show ?thesis by (simp add: node_of_def)
    next
      case Directory
      let ?sub = "dir_entries d ?e"
      have x: "extent_ok b ?e" using dir_okD(3) [OF Cons.prems(1)] i by simp
      from descend [OF Cons.prems(1) Some Directory] obtain b' where b': "b' \<le> b" "dir_ok d b' ?sub"
        and t: "tree_dir (dir_tree d b es) (c # cs) = tree_dir (dir_tree d b' ?sub) cs"
        by blast
      from Cons.IH [OF b'(2)] b'(1) Cons.prems(2) have
        IH: "case walk d ?sub cs of
            Ok r \<Rightarrow> \<exists>t. tree_dir (dir_tree d b' ?sub) cs = Ok t \<and> reaches d b' ?sub cs r t
          | Err e \<Rightarrow> tree_dir (dir_tree d b' ?sub) cs = Err e
          | Panic \<Rightarrow> False | Hang \<Rightarrow> False" by simp
      show ?thesis
      proof (cases "walk d ?sub cs")
        case (Ok r)
        with IH obtain t' where t': "tree_dir (dir_tree d b' ?sub) cs = Ok t'" "reaches d b' ?sub cs r t'"
          by auto
        have "reaches d b es (c # cs) (\<lparr>entries = ?sub, entry_index_in_parent = Some i\<rparr> # r) t'"
          by (rule reaches_below [OF assms x Cons.prems(2) b'(1) t'(2)])
        then show ?thesis using Ok Some Directory t'(1) by (simp add: t del: tree_dir.simps)
      next
        case (Err e)
        with IH Some Directory show ?thesis by (simp add: t del: tree_dir.simps)
      qed (use IH in simp_all)
    qed
  qed
qed

end
