(* ===== verification/FsPersist.thy ===== *)
theory FsPersist
  imports FsTree
begin

text \<open>
  \<^verbatim>\<open>persist_directory_chain\<close>: writing a chain back from its last directory up to the root is
  an update of the tree at that directory, or fails with \<^verbatim>\<open>NoSpace\<close> and changes nothing that
  can be reached.
\<close>

text \<open>Persisting a chain is persisting its tail and then the one directory below its head.\<close>

lemma persist_levels_Cons:
  "persist_levels (Suc n) fs (x # zs) =
     tryS (persist_levels n fs zs) (\<lambda>zs' fs1. persist_levels (Suc 0) fs1 (x # zs'))"
proof (induction n arbitrary: fs zs)
  case 0
  then show ?case by simp
next
  case (Suc n)
  have IH: "persist_levels (Suc n) fs1 ((x # zs)[Suc n := p]) =
      tryS (persist_levels n fs1 (zs[n := p])) (\<lambda>zs' fs1. persist_levels (Suc 0) fs1 (x # zs'))" for fs1 p
    using Suc.IH [of fs1 "zs[n := p]"] by simp
  show ?case
  proof (cases "write_directory_entries fs (entries (zs ! Suc n))")
    case (Pair r fs1)
    show ?thesis
      unfolding persist_levels.simps(2) [of "Suc n" fs "x # zs"] persist_levels.simps(2) [of n fs zs]
      using Pair IH [unfolded list_update.simps nat.case] Suc.IH [of fs1 zs]
      by (cases r) (auto simp: Let_def simp del: persist_levels.simps split: option.split)
  qed
qed

lemma dir_ok_replace:
  assumes es: "dir_ok d b es" and k: "k < length es" and dir: "e_kind (es ! k) = Directory"
    and x: "extent_ok b ((es ! k)\<lparr>e_start_block := s, e_length := l\<rparr>)"
    and sub: "dir_ok d (unat s) (dir_entries d ((es ! k)\<lparr>e_start_block := s, e_length := l\<rparr>))"
  shows "dir_ok d b (es[k := (es ! k)\<lparr>e_start_block := s, e_length := l\<rparr>]) \<and>
    dir_tree d b (es[k := (es ! k)\<lparr>e_start_block := s, e_length := l\<rparr>]) =
      (dir_tree d b es)[k := (e_name (es ! k),
         DirN (dir_tree d (unat s) (dir_entries d ((es ! k)\<lparr>e_start_block := s, e_length := l\<rparr>))))]"
proof -
  let ?e = "(es ! k)\<lparr>e_start_block := s, e_length := l\<rparr>"
  have names: "map e_name (es[k := ?e]) = map e_name es"
    using k by (simp add: map_update list_update_same_conv)
  have nk: "name_ok (e_name (es ! k))" using dir_okD(2) [OF es] k by simp
  have ok: "dir_ok d b (es[k := ?e])"
    unfolding dir_ok_iff [of d b "es[k := ?e]"] names
    using es [unfolded dir_ok_iff [of d b es]] nk x sub
    by (auto dest!: set_update_subset_insert [THEN subsetD])
  have "map (\<lambda>e. (e_name e, node_of d e)) (es[k := ?e]) =
      (map (\<lambda>e. (e_name e, node_of d e)) es)[k := (e_name (es ! k), node_of d ?e)]"
    by (simp add: map_update)
  with ok es dir show ?thesis by (simp add: dir_tree_eq node_of_def)
qed

text \<open>One level: the parent takes up the new place of its child.\<close>

lemma persist_level:
  assumes es: "dir_ok (device fs) b es" and b: "b \<le> nfree fs" and ext2: "ext fs fs2"
    and k: "k < length es" and dir: "e_kind (es ! k) = Directory"
    and sub: "dir_ok (device fs2) (nfree fs2) (entries z)" and len: "length (entries z) * 44 < 4294967296"
    and idx: "entry_index_in_parent z = Some k"
  shows "(\<exists>es3 fs3. persist_levels (Suc 0) fs2 (\<lparr>entries = es, entry_index_in_parent = i\<rparr> # z # zs) =
             (Ok (\<lparr>entries = es3, entry_index_in_parent = i\<rparr> # z # zs), fs3) \<and> ext fs fs3 \<and>
           length es3 = length es \<and> dir_ok (device fs3) (nfree fs3) es3 \<and>
           dir_tree (device fs3) (nfree fs3) es3 = (dir_tree (device fs) b es)[k :=
             (e_name (es ! k), DirN (dir_tree (device fs2) (nfree fs2) (entries z)))] \<and>
           nfree fs3 = nfree fs2 + dir_blocks (length (entries z))) \<or>
         persist_levels (Suc 0) fs2 (\<lparr>entries = es, entry_index_in_parent = i\<rparr> # z # zs) = (Err NoSpace, fs2) \<and>
           ntotal fs2 < nfree fs2 + dir_blocks (length (entries z))"
proof -
  have base2: "fs_base fs2" using ext2 by (simp add: ext_def)
  from write_directory_entries_cases [OF base2 len sub]
  consider (ok) s l fs3 where "write_directory_entries fs2 (entries z) = (Ok (s, l), fs3)" "ext fs2 fs3"
      "\<And>e. extent_ok (nfree fs3) (e\<lparr>e_start_block := s, e_length := l\<rparr>)"
      "\<And>e. dir_entries (device fs3) (e\<lparr>e_start_block := s, e_length := l\<rparr>) = entries z"
      "dir_ok (device fs3) (unat s) (entries z)"
      "dir_tree (device fs3) (unat s) (entries z) = dir_tree (device fs2) (nfree fs2) (entries z)"
      "nfree fs3 = nfree fs2 + dir_blocks (length (entries z))"
    | (full) "write_directory_entries fs2 (entries z) = (Err NoSpace, fs2)"
      "ntotal fs2 < nfree fs2 + dir_blocks (length (entries z))"
    by blast
  then show ?thesis
  proof cases
    case ok
    have e3: "ext fs fs3" using ext2 ok(2) by (rule ext_trans)
    let ?es3 = "es[k := (es ! k)\<lparr>e_start_block := s, e_length := l\<rparr>]"
    from ext_dir [OF e3 es b] have es3: "dir_ok (device fs3) (nfree fs3) es"
      "dir_tree (device fs3) (nfree fs3) es = dir_tree (device fs) b es" by auto
    from dir_ok_replace [OF es3(1) k dir ok(3)] ok(4,5,6) es3(2)
    have "dir_ok (device fs3) (nfree fs3) ?es3 \<and>
        dir_tree (device fs3) (nfree fs3) ?es3 = (dir_tree (device fs) b es)[k :=
          (e_name (es ! k), DirN (dir_tree (device fs2) (nfree fs2) (entries z)))]" by simp
    with ok(1,7) e3 idx k show ?thesis by fastforce
  next
    case full
    then show ?thesis by simp
  qed
qed

definition persisted ::
  "TinyFs \<Rightarrow> TinyFs \<Rightarrow> nat \<Rightarrow> FileEntry list \<Rightarrow> bytes list \<Rightarrow> FileEntry list \<Rightarrow> nat option \<Rightarrow> LoadedDir list \<Rightarrow> bool"
where
  "persisted fs fs2 b es cs es' i chain \<longleftrightarrow> ext fs fs2 \<and>
     (\<exists>es2 zs. chain = \<lparr>entries = es2, entry_index_in_parent = i\<rparr> # zs \<and>
        dir_ok (device fs2) (nfree fs2) es2 \<and>
        dir_tree (device fs2) (nfree fs2) es2 =
          tree_update cs (\<lambda>_. dir_tree (device fs) (nfree fs) es') (dir_tree (device fs) b es) \<and>
        length es2 = (if cs = [] then length es' else length es) \<and>
        nfree fs2 = nfree fs + path_blocks cs (dir_tree (device fs2) (nfree fs2) es2))"

lemma path_blocks_at:
  assumes "map_of t c = Some (DirN s)"
  shows "path_blocks (c # cs) (tree_update (c # cs) f t) =
    dir_blocks (length (tree_update cs f s)) + path_blocks cs (tree_update cs f s)"
  using assms by (simp add: map_of_tree_update del: tree_update.simps)

lemma set_last_entries_Cons: "r \<noteq> [] \<Longrightarrow> set_last_entries (x # r) es = x # set_last_entries r es"
  by (simp add: set_last_entries_def)

text \<open>One level above directories that have been written back.\<close>

lemma persist_above:
  fixes fs :: TinyFs and es :: "FileEntry list" and k :: nat
  defines "sub \<equiv> dir_entries (device fs) (es ! k)"
  assumes base: "fs_base fs" and len': "length es' * 44 < 4294967296"
    and es: "dir_ok (device fs) b es" "b \<le> nfree fs"
    and k: "position (\<lambda>e. e_name e = c) es = Some k" "e_kind (es ! k) = Directory"
    and tr: "\<And>f cs. tree_update (c # cs) f (dir_tree (device fs) b es) =
      (dir_tree (device fs) b es)[k := (c, DirN (tree_update cs f (dir_tree (device fs) b' sub)))]"
    and m: "map_of (dir_tree (device fs) b es) c = Some (DirN (dir_tree (device fs) b' sub))"
    and p: "persisted fs fs2 b' sub cs es' (Some k) chain"
  shows "(\<exists>chain' fs3. persist_levels (Suc 0) fs2 (\<lparr>entries = es, entry_index_in_parent = i\<rparr> # chain) = (Ok chain', fs3) \<and>
        persisted fs fs3 b es (c # cs) es' i chain') \<or>
    (\<exists>fs3. persist_levels (Suc 0) fs2 (\<lparr>entries = es, entry_index_in_parent = i\<rparr> # chain) = (Err NoSpace, fs3) \<and>
        ext fs fs3 \<and> ntotal fs < nfree fs + path_blocks (c # cs)
          (tree_update (c # cs) (\<lambda>_. dir_tree (device fs) (nfree fs) es') (dir_tree (device fs) b es)))"
proof -
  let ?f = "\<lambda>_. dir_tree (device fs) (nfree fs) es'"
  note blocks = path_blocks_at [OF m, of cs ?f]
  from position_SomeD [OF k(1)] have kl: "k < length es" and nm: "e_name (es ! k) = c" by auto
  from p obtain es2 zs where p: "ext fs fs2" "chain = \<lparr>entries = es2, entry_index_in_parent = Some k\<rparr> # zs"
      "dir_ok (device fs2) (nfree fs2) es2"
      "dir_tree (device fs2) (nfree fs2) es2 = tree_update cs ?f (dir_tree (device fs) b' sub)"
      "length es2 = (if cs = [] then length es' else length sub)"
      "nfree fs2 = nfree fs + path_blocks cs (dir_tree (device fs2) (nfree fs2) es2)"
    by (auto simp: persisted_def)
  have len2: "length (tree_update cs ?f (dir_tree (device fs) b' sub)) = length es2"
    using arg_cong [OF p(4), of length] by (simp add: dir_tree_eq [OF p(3)])
  have tot: "ntotal fs2 = ntotal fs" using p(1) by (simp add: ext_def)
  have "dev_ok (device fs)" using base by (simp add: fs_base_def)
  then have l2: "length es2 * 44 < 4294967296"
    using p(5) len' length_dir_entries [of "device fs" "es ! k"] unat_u32_less [of "e_length (es ! k)"]
    by (auto simp: sub_def split: if_splits)
  from persist_level [OF es p(1) kl k(2), of "\<lparr>entries = es2, entry_index_in_parent = Some k\<rparr>" i zs] p(3) l2
  show ?thesis
    unfolding p(2) persisted_def
    using p(1,6) blocks
    by (auto simp: p(4) tr [symmetric] nm len2 tot simp del: persist_levels.simps tree_update.simps path_blocks.simps)
qed

lemma persist_levels_cases:
  assumes base: "fs_base fs" and ok': "dir_ok (device fs) (nfree fs) es'"
    and len': "length es' * 44 < 4294967296"
  shows "dir_ok (device fs) b es \<Longrightarrow> b \<le> nfree fs \<Longrightarrow> walk (device fs) es cs = Ok r \<Longrightarrow>
    (\<exists>chain fs2. persist_levels (length r) fs
        (set_last_entries (\<lparr>entries = es, entry_index_in_parent = i\<rparr> # r) es') = (Ok chain, fs2) \<and>
        persisted fs fs2 b es cs es' i chain) \<or>
    (\<exists>fs2. persist_levels (length r) fs
        (set_last_entries (\<lparr>entries = es, entry_index_in_parent = i\<rparr> # r) es') = (Err NoSpace, fs2) \<and>
        ext fs fs2 \<and> ntotal fs < nfree fs +
          path_blocks cs (tree_update cs (\<lambda>_. dir_tree (device fs) (nfree fs) es') (dir_tree (device fs) b es)))"
proof (induction cs arbitrary: es i r b)
  case Nil
  then show ?case
    using base ok' by (simp add: set_last_entries_def persisted_def ext_refl)
next
  case (Cons c cs)
  from Cons.prems(3) obtain k r' where k: "position (\<lambda>e. e_name e = c) es = Some k"
      "e_kind (es ! k) = Directory" "walk (device fs) (dir_entries (device fs) (es ! k)) cs = Ok r'"
    and r: "r = \<lparr>entries = dir_entries (device fs) (es ! k), entry_index_in_parent = Some k\<rparr> # r'"
    by (auto simp: outcome_simps split: option.splits if_splits)
  let ?e = "es ! k" let ?sub = "dir_entries (device fs) ?e"
  let ?hd = "\<lparr>entries = es, entry_index_in_parent = i\<rparr>" and ?nx = "\<lparr>entries = ?sub, entry_index_in_parent = Some k\<rparr>"
  from descend [OF Cons.prems(1) k(1,2)] obtain b' where b': "b' \<le> b" "dir_ok (device fs) b' ?sub"
    and tr: "\<And>f cs. tree_update (c # cs) f (dir_tree (device fs) b es) =
      (dir_tree (device fs) b es)[k := (c, DirN (tree_update cs f (dir_tree (device fs) b' ?sub)))]"
    and m: "map_of (dir_tree (device fs) b es) c = Some (DirN (dir_tree (device fs) b' ?sub))"
    by blast
  let ?f = "\<lambda>_. dir_tree (device fs) (nfree fs) es'"
  have unfold: "persist_levels (length r) fs (set_last_entries (?hd # r) es') =
      tryS (persist_levels (length r') fs (set_last_entries (?nx # r') es'))
        (\<lambda>zs' fs1. persist_levels (Suc 0) fs1 (?hd # zs'))"
    using persist_levels_Cons [of "length r'" fs ?hd "set_last_entries (?nx # r') es'"]
    by (simp add: r set_last_entries_Cons del: persist_levels.simps)
  from Cons.IH [OF b'(2) _ k(3), of "Some k"] b'(1) Cons.prems(2)
  consider (ok) chain fs2 where
      "persist_levels (length r') fs (set_last_entries (?nx # r') es') = (Ok chain, fs2)"
      "persisted fs fs2 b' ?sub cs es' (Some k) chain"
    | (full) fs2 where "persist_levels (length r') fs (set_last_entries (?nx # r') es') = (Err NoSpace, fs2)"
      "ext fs fs2" "ntotal fs < nfree fs + path_blocks cs (tree_update cs ?f (dir_tree (device fs) b' ?sub))"
    by auto
  then show ?case
  proof cases
    case ok
    show ?thesis
      unfolding unfold ok(1) tryS.simps
      by (rule persist_above [OF base len' Cons.prems(1,2) k(1,2) tr m ok(2)])
  next
    case full
    then show ?thesis unfolding unfold path_blocks_at [OF m, of cs ?f] by simp
  qed
qed

section \<open>The whole chain\<close>

text \<open>The disk blocks of the superblock and of the root directory hold the state in memory.\<close>

definition synced :: "TinyFs \<Rightarrow> bool" where
  "synced fs \<longleftrightarrow> sectors (device fs) 0 = superblock_bytes (superblock fs) \<and>
     sectors (device fs) 1 = write_entries 0 (replicate BLOCK_SIZE 0) (root_entries fs)"

lemma flush_ok:
  assumes "fs_ok fs"
  shows "\<exists>fs'. tryS (flush_root_directory fs) (\<lambda>_. flush_superblock) = (Ok (), fs') \<and>
    fs_ok fs' \<and> fs_tree fs' = fs_tree fs \<and> synced fs' \<and> nfree fs' = nfree fs \<and> ntotal fs' = ntotal fs"
proof -
  from assms have b: "dev_ok (device fs)" "2 \<le> ntotal fs" "length (root_entries fs) \<le> 11"
      "dir_ok (device fs) (nfree fs) (root_entries fs)" "fs_base fs"
    by (simp_all add: fs_ok_def fs_base_def)
  let ?root = "write_entries 0 (replicate 512 0) (root_entries fs)"
  have "length ?root = 512"
    using b(3) by (simp add: write_entries_eq length_encoded_directory)
  with vb.write_ok [OF b(1), of 1 ?root] b(2) obtain d1
    where d1: "write_block (device fs) 1 ?root = (Ok () :: (unit, FsError) outcome, d1)" "dev_ok d1"
      "total_blocks d1 = total_blocks (device fs)" "sectors d1 = (sectors (device fs))(1 := ?root)"
    by (auto simp: word_less_nat_alt)
  with vb.write_ok [of d1 0 "superblock_bytes (superblock fs)"] b(2) obtain d2
    where d2: "write_block d1 0 (superblock_bytes (superblock fs)) = (Ok () :: (unit, FsError) outcome, d2)"
      "dev_ok d2" "total_blocks d2 = total_blocks (device fs)"
      "sectors d2 = (sectors (device fs))(1 := ?root, 0 := superblock_bytes (superblock fs))"
    by (auto simp: word_less_nat_alt)
  have ag: "agree (nfree fs) (device fs) d2" by (simp add: agree_def d2(4))
  have run: "tryS (flush_root_directory fs) (\<lambda>_. flush_superblock) = (Ok (), fs\<lparr>device := d2\<rparr>)"
    using d1(1) d2(1) b(3) by (simp add: flush_root_directory_def flush_superblock_def dev_write_def)
  have "fs_ok (fs\<lparr>device := d2\<rparr>)" "fs_tree (fs\<lparr>device := d2\<rparr>) = fs_tree fs" "synced (fs\<lparr>device := d2\<rparr>)"
    "nfree (fs\<lparr>device := d2\<rparr>) = nfree fs" "ntotal (fs\<lparr>device := d2\<rparr>) = ntotal fs"
    using frame [OF b(4) ag] b(5) assms d2
    by (simp_all add: fs_ok_def fs_base_def fs_tree_def synced_def)
  with run show ?thesis by blast
qed

text \<open>
  The result of a change that takes \<open>need\<close> blocks: success with the updated tree on disk,
  or, only when they do not fit, a full disk with the tree as it was.
\<close>

definition refines_to :: "TinyFs \<Rightarrow> nat \<Rightarrow> (unit, FsError) outcome \<times> TinyFs \<Rightarrow> tree \<Rightarrow> bool" where
  "refines_to fs need res t \<longleftrightarrow>
     (\<exists>fs'. res = (Ok (), fs') \<and> fs_ok fs' \<and> fs_tree fs' = t \<and> synced fs' \<and>
        nfree fs' = nfree fs + need \<and> ntotal fs' = ntotal fs) \<or>
     (\<exists>fs'. res = (Err NoSpace, fs') \<and> ext fs fs' \<and> ntotal fs < nfree fs + need)"

lemma persist_directory_chain_refines:
  assumes ok: "fs_ok fs0" and e0: "ext fs0 fs" and wk: "walk (device fs0) (root_entries fs0) cs = Ok r"
    and wk': "walk (device fs) (root_entries fs) cs = Ok r"
    and es': "dir_ok (device fs) (nfree fs) es'" "length es' * 44 < 4294967296"
    and root: "cs = [] \<Longrightarrow> length es' \<le> 11"
  shows "refines_to fs0 (nfree fs - nfree fs0 +
      path_blocks cs (tree_update cs (\<lambda>_. dir_tree (device fs) (nfree fs) es') (fs_tree fs0)))
    (persist_directory_chain fs
      (set_last_entries (\<lparr>entries = root_entries fs0, entry_index_in_parent = None\<rparr> # r) es'))
    (tree_update cs (\<lambda>_. dir_tree (device fs) (nfree fs) es') (fs_tree fs0))"
proof -
  have r0: "root_entries fs = root_entries fs0" and base: "fs_base fs" using e0 by (simp_all add: ext_def)
  from ext_fs_ok [OF e0 ok] have fsok: "fs_ok fs" and tr: "fs_tree fs = fs_tree fs0" by auto
  have e0': "nfree fs0 \<le> nfree fs" "ntotal fs = ntotal fs0" using e0 by (simp_all add: ext_def)
  let ?ch = "set_last_entries (\<lparr>entries = root_entries fs0, entry_index_in_parent = None\<rparr> # r) es'"
  have lch: "length ?ch - 1 = length r" by (simp add: set_last_entries_def)
  from persist_levels_cases [OF base es'(1,2), of "nfree fs" "root_entries fs" cs r None] fsok wk'
  consider (ok) chain fs2 where "persist_levels (length r) fs ?ch = (Ok chain, fs2)"
      "persisted fs fs2 (nfree fs) (root_entries fs) cs es' None chain"
    | (full) fs2 where "persist_levels (length r) fs ?ch = (Err NoSpace, fs2)" "ext fs fs2"
      "ntotal fs < nfree fs + path_blocks cs (tree_update cs (\<lambda>_. dir_tree (device fs) (nfree fs) es') (fs_tree fs))"
    by (auto simp: fs_ok_def r0 fs_tree_def)
  then show ?thesis
  proof cases
    case ok
    then obtain es2 zs where p: "ext fs fs2" "chain = \<lparr>entries = es2, entry_index_in_parent = None\<rparr> # zs"
        "dir_ok (device fs2) (nfree fs2) es2"
        "dir_tree (device fs2) (nfree fs2) es2 =
          tree_update cs (\<lambda>_. dir_tree (device fs) (nfree fs) es') (fs_tree fs)"
        "length es2 = (if cs = [] then length es' else length (root_entries fs))"
        "nfree fs2 = nfree fs + path_blocks cs (dir_tree (device fs2) (nfree fs2) es2)"
      by (auto simp: persisted_def fs_tree_def)
    let ?fs3 = "fs2\<lparr>root_entries := es2,
      superblock := (superblock fs2)\<lparr>file_count := word_of_nat (length es2)\<rparr>\<rparr>"
    have "length es2 \<le> 11" using p(5) root fsok by (auto simp: fs_ok_def split: if_splits)
    then have "fs_ok ?fs3" using p(1,3) by (simp add: fs_ok_def ext_def fs_base_def)
    moreover have "fs_tree ?fs3 = tree_update cs (\<lambda>_. dir_tree (device fs) (nfree fs) es') (fs_tree fs0)"
      using p(4) tr by (simp add: fs_tree_def)
    moreover have "persist_directory_chain fs ?ch = tryS (flush_root_directory ?fs3) (\<lambda>_. flush_superblock)"
      using ok(1) p(2) lch by (simp add: persist_directory_chain_def Let_def)
    moreover have "nfree ?fs3 = nfree fs0 + (nfree fs - nfree fs0 +
        path_blocks cs (tree_update cs (\<lambda>_. dir_tree (device fs) (nfree fs) es') (fs_tree fs0)))"
      "ntotal ?fs3 = ntotal fs0"
      using p(1,4,6) tr e0' by (simp_all add: ext_def)
    ultimately show ?thesis using flush_ok [of ?fs3] by (fastforce simp: refines_to_def)
  next
    case full
    then show ?thesis
      using lch ext_trans [OF e0 full(2)] e0' tr by (simp add: persist_directory_chain_def refines_to_def)
  qed
qed

end
