(* ===== verification/FsRefine.thy ===== *)
theory FsRefine
  imports FsPersist
begin

text \<open>
  Every operation of TinyFS refines its specification on the tree: it returns the specified result
  and leaves the specified tree, on disk as in memory, or it reports a full disk and leaves the tree
  alone. It never panics, and it keeps the invariant. A state whose metadata is on disk is what a
  remount finds.
\<close>

section \<open>Paths\<close>

definition comps :: "bytes \<Rightarrow> bytes list" where
  "comps path = filter (\<lambda>s. s \<noteq> []) (split_on SLASH path)"

definition path_ok :: "bytes \<Rightarrow> bool" where
  "path_ok path \<longleftrightarrow> valid_utf8 path \<and> 0 \<notin> set path"

lemma split_path_comps: "split_path path = Ok (comps path)"
  by (simp add: split_path_def comps_def)

lemma comps_not_empty: "[] \<notin> set (comps path)"
  by (simp add: comps_def)

lemma comps_name_ok:
  assumes "path_ok path" and "c \<in> set (comps path)"
  shows "name_ok c \<longleftrightarrow> length c \<le> NAME_LEN"
proof -
  from assms(2) have c: "c \<noteq> []" "c \<in> set (split_on SLASH path)" by (simp_all add: comps_def)
  have "valid_utf8 c"
    using valid_utf8_split_on [of SLASH path c] assms(1) c(2) by (simp add: SLASH_def path_ok_def)
  with c split_on_no_sep [OF c(2)] split_on_set [OF c(2)] assms(1) show ?thesis
    by (auto simp: name_ok_def path_ok_def)
qed

lemma butlast_comps: "[] \<notin> set (butlast (comps path))"
  using comps_not_empty by (auto dest: in_set_butlastD)

section \<open>Leaf updates\<close>

lemma walk_agree: "dir_ok d b es \<Longrightarrow> agree b d d' \<Longrightarrow> walk d' es cs = walk d es cs"
proof (induction cs arbitrary: es b)
  case Nil
  then show ?case by simp
next
  case (Cons c cs)
  show ?case
  proof (cases "position (\<lambda>e. e_name e = c) es")
    case None
    then show ?thesis by (simp del: position_None)
  next
    case (Some k)
    then have k: "k < length es" using position_SomeD by fastforce
    show ?thesis
    proof (cases "e_kind (es ! k) = Directory")
      case True
      have "dir_entries d' (es ! k) = dir_entries d (es ! k)"
        using agree_dir_entries [OF Cons.prems(2)] dir_okD(3) [OF Cons.prems(1)] k by simp
      moreover obtain b' where "b' \<le> b" "dir_ok d b' (dir_entries d (es ! k))"
        using descend [OF Cons.prems(1) Some True] by blast
      ultimately show ?thesis
        using Some True Cons.IH agree_mono [OF Cons.prems(2)] by simp
    qed (use Some in simp)
  qed
qed

lemma tree_update_const:
  "dir_ok d b es \<Longrightarrow> walk d es cs = Ok r \<Longrightarrow> tree_dir (dir_tree d b es) cs = Ok t \<Longrightarrow>
   tree_update cs (\<lambda>_. f t) (dir_tree d b es) = tree_update cs f (dir_tree d b es)"
proof (induction cs arbitrary: es b r)
  case Nil
  then show ?case by simp
next
  case (Cons c cs)
  from Cons.prems(2) obtain k r' where k: "position (\<lambda>e. e_name e = c) es = Some k"
      "e_kind (es ! k) = Directory" "walk d (dir_entries d (es ! k)) cs = Ok r'"
    by (auto simp: outcome_simps split: option.splits if_splits)
  from descend [OF Cons.prems(1) k(1,2)] obtain b' where b': "dir_ok d b' (dir_entries d (es ! k))"
      "\<And>cs. tree_dir (dir_tree d b es) (c # cs) = tree_dir (dir_tree d b' (dir_entries d (es ! k))) cs"
      "\<And>f cs. tree_update (c # cs) f (dir_tree d b es) =
        (dir_tree d b es)[k := (c, DirN (tree_update cs f (dir_tree d b' (dir_entries d (es ! k)))))]"
    by blast
  from Cons.IH [OF b'(1) k(3)] Cons.prems(3) b'(2) show ?case
    by (simp add: b'(3) del: tree_dir.simps tree_update.simps)
qed

lemma dir_ok_append:
  assumes "dir_ok d b es" and "name_ok (e_name e)" and "extent_ok b e" and "e_name e \<notin> e_name ` set es"
    and "e_kind e = Directory \<Longrightarrow> e_length e = 0"
  shows "dir_ok d b (es @ [e]) \<and> dir_tree d b (es @ [e]) = dir_tree d b es @ [(e_name e, node_of d e)]"
proof -
  have "dir_ok d b (es @ [e])"
    unfolding dir_ok_iff [of d b "es @ [e]"]
    using assms(1) [unfolded dir_ok_iff [of d b es]] assms(2-5) by auto
  with assms(1) show ?thesis by (simp add: dir_tree_eq)
qed

lemma AList_update_map:
  "distinct (map e_name es) \<Longrightarrow> position (\<lambda>e. e_name e = c) es = Some k \<Longrightarrow>
   AList.update c v (map (\<lambda>e. (e_name e, g e)) es) = (map (\<lambda>e. (e_name e, g e)) es)[k := (c, v)]"
proof (induction es arbitrary: k)
  case Nil
  then show ?case by simp
next
  case (Cons e es)
  then show ?case by (cases "e_name e = c") auto
qed

lemma dir_ok_overwrite:
  assumes es: "dir_ok d b es" and k: "position (\<lambda>e. e_name e = c) es = Some k" and f: "e_kind (es ! k) = File"
    and x: "extent_ok b ((es ! k)\<lparr>e_start_block := s, e_length := l\<rparr>)"
  shows "dir_ok d b (es[k := (es ! k)\<lparr>e_start_block := s, e_length := l\<rparr>]) \<and>
    dir_tree d b (es[k := (es ! k)\<lparr>e_start_block := s, e_length := l\<rparr>]) =
      AList.update c (FileN (vb.run d (unat s) (unat l))) (dir_tree d b es)"
proof -
  let ?e = "(es ! k)\<lparr>e_start_block := s, e_length := l\<rparr>"
  from position_SomeD [OF k] have kl: "k < length es" and nm: "e_name (es ! k) = c" by auto
  have names: "map e_name (es[k := ?e]) = map e_name es"
    using kl by (simp add: map_update list_update_same_conv)
  have nk: "name_ok (e_name (es ! k))" using dir_okD(2) [OF es] kl by simp
  have ok: "dir_ok d b (es[k := ?e])"
    unfolding dir_ok_iff [of d b "es[k := ?e]"] names
    using es [unfolded dir_ok_iff [of d b es]] nk x f
    by (auto dest!: set_update_subset_insert [THEN subsetD])
  have "map (\<lambda>e. (e_name e, node_of d e)) (es[k := ?e]) =
      (map (\<lambda>e. (e_name e, node_of d e)) es)[k := (c, node_of d ?e)]"
    by (simp add: map_update nm)
  moreover have "node_of d ?e = FileN (vb.run d (unat s) (unat l))" using f by (simp add: node_of_def)
  ultimately show ?thesis
    using ok es by (simp add: dir_tree_eq AList_update_map [OF dir_okD(1) [OF es] k])
qed

lemma AList_delete_map:
  "distinct (map e_name es) \<Longrightarrow> position (\<lambda>e. e_name e = c) es = Some k \<Longrightarrow>
   AList.delete c (map (\<lambda>e. (e_name e, g e)) es) = map (\<lambda>e. (e_name e, g e)) (take k es @ drop (Suc k) es)"
proof (induction es arbitrary: k)
  case Nil
  then show ?case by simp
next
  case (Cons e es)
  show ?case
  proof (cases "e_name e = c")
    case True
    with Cons.prems have "c \<notin> e_name ` set es" by auto
    then have "AList.delete c (map (\<lambda>e. (e_name e, g e)) es) = map (\<lambda>e. (e_name e, g e)) es"
      by (auto simp: AList.delete_eq filter_id_conv)
    with True Cons.prems show ?thesis by simp
  next
    case False
    with Cons show ?thesis by auto
  qed
qed

lemma dir_ok_remove:
  assumes es: "dir_ok d b es" and k: "position (\<lambda>e. e_name e = c) es = Some k"
  shows "dir_ok d b (take k es @ drop (Suc k) es) \<and>
    dir_tree d b (take k es @ drop (Suc k) es) = AList.delete c (dir_tree d b es)"
proof -
  let ?es = "take k es @ drop (Suc k) es"
  have "set ?es \<subseteq> set es" by (auto dest: in_set_takeD in_set_dropD)
  moreover have "distinct (map e_name ?es)"
  proof -
    have "map e_name es = map e_name (take k es) @ map e_name (drop k es)"
      by (metis append_take_drop_id map_append)
    moreover have "drop k es = es ! k # drop (Suc k) es"
      using position_SomeD [OF k] by (simp add: Cons_nth_drop_Suc)
    ultimately show ?thesis using dir_okD(1) [OF es] by auto
  qed
  ultimately have "dir_ok d b ?es"
    unfolding dir_ok_iff [of d b ?es] using es [unfolded dir_ok_iff [of d b es]] by blast
  with es show ?thesis by (simp add: dir_tree_eq AList_delete_map [OF dir_okD(1) [OF es] k])
qed

section \<open>Finding and changing a directory\<close>

definition root_dir :: "TinyFs \<Rightarrow> LoadedDir" where
  "root_dir fs = \<lparr>entries = root_entries fs, entry_index_in_parent = None\<rparr>"

text \<open>What a successful descent to the directory \<open>cs\<close> has found.\<close>

definition located :: "TinyFs \<Rightarrow> bytes list \<Rightarrow> LoadedDir list \<Rightarrow> FileEntry list \<Rightarrow> tree \<Rightarrow> bool" where
  "located fs cs r es sub \<longleftrightarrow>
     walk (device fs) (root_entries fs) cs = Ok r \<and> entries (last (root_dir fs # r)) = es \<and>
     dir_ok (device fs) (nfree fs) es \<and> dir_tree (device fs) (nfree fs) es = sub \<and>
     tree_dir (fs_tree fs) cs = Ok sub \<and> (length es + 1) * 44 < 4294967296 \<and>
     (r = [] \<longleftrightarrow> cs = []) \<and> (cs = [] \<longrightarrow> es = root_entries fs)"

lemma load_cases:
  assumes "fs_ok fs" and "[] \<notin> set cs"
  obtains (err) e where "load_directory_chain fs cs = Err e" "tree_dir (fs_tree fs) cs = Err e"
  | (ok) r es sub where "load_directory_chain fs cs = Ok (root_dir fs # r)" "located fs cs r es sub"
proof -
  from assms(1) have b: "dev_ok (device fs)" "dir_ok (device fs) (nfree fs) (root_entries fs)"
      "nfree fs \<le> 4194304" "length (root_entries fs) \<le> 11"
    by (simp_all add: fs_ok_def fs_base_def)
  note ld = load_directory_chain_walk [OF assms]
  note wt = walk_tree [OF b(1,2,3), of cs]
  show ?thesis
  proof (cases "walk (device fs) (root_entries fs) cs")
    case (Ok r)
    with wt obtain sub where sub: "tree_dir (fs_tree fs) cs = Ok sub"
        "reaches (device fs) (nfree fs) (root_entries fs) cs r sub"
      by (auto simp: fs_tree_def)
    let ?es = "if r = [] then root_entries fs else entries (last r)"
    from sub(2) obtain b' where b': "b' \<le> nfree fs" "dir_ok (device fs) b' ?es"
        "dir_tree (device fs) b' ?es = sub"
      and r: "length r = length cs" "cs \<noteq> [] \<Longrightarrow> (length ?es + 1) * 44 < 4294967296"
      unfolding reaches_def Let_def by blast
    have r0: "r = [] \<longleftrightarrow> cs = []" using r(1) by auto
    have "(length ?es + 1) * 44 < 4294967296" using r(2) r0 b(4) by (cases "cs = []") auto
    moreover have "dir_ok (device fs) (nfree fs) ?es" "dir_tree (device fs) (nfree fs) ?es = sub"
      using dir_ok_mono [OF b'(2,1)] dir_tree_mono [OF b'(2,1)] b'(3) by simp_all
    ultimately have "located fs cs r ?es sub"
      using Ok sub(1) r0 unfolding located_def by (simp add: root_dir_def)
    with Ok ld that(2) show ?thesis by (simp add: root_dir_def)
  next
    case (Err e)
    with wt ld that(1) show ?thesis by (simp add: fs_tree_def)
  qed (use wt in simp_all)
qed

lemma change_refines:
  assumes ok: "fs_ok fs" and loc: "located fs cs r es sub" and e1: "ext fs fs1"
    and es': "dir_ok (device fs1) (nfree fs1) es'" "dir_tree (device fs1) (nfree fs1) es' = f sub"
    and len: "length es' \<le> length es + 1" and root: "cs = [] \<Longrightarrow> length es' \<le> 11"
  shows "refines_to fs (nfree fs1 - nfree fs + path_blocks cs (tree_update cs f (fs_tree fs)))
    (persist_directory_chain fs1 (set_last_entries (root_dir fs # r) es'))
    (tree_update cs f (fs_tree fs))"
proof -
  from loc have w: "walk (device fs) (root_entries fs) cs = Ok r" "tree_dir (fs_tree fs) cs = Ok sub"
      "(length es + 1) * 44 < 4294967296"
    by (auto simp: located_def)
  have dok: "dir_ok (device fs) (nfree fs) (root_entries fs)" using ok by (simp add: fs_ok_def)
  have "walk (device fs1) (root_entries fs1) cs = Ok r"
    using walk_agree [OF dok ext_agree [OF e1]] e1 w(1) by (simp add: ext_def)
  moreover have "length es' * 44 < 4294967296" using mult_le_mono1 [OF len, of 44] w(3) by linarith
  ultimately have "refines_to fs (nfree fs1 - nfree fs + path_blocks cs (tree_update cs (\<lambda>_. f sub) (fs_tree fs)))
      (persist_directory_chain fs1 (set_last_entries (root_dir fs # r) es'))
      (tree_update cs (\<lambda>_. f sub) (fs_tree fs))"
    using persist_directory_chain_refines [OF ok e1 w(1), of es'] es' root by (simp add: root_dir_def)
  with tree_update_const [OF dok w(1), of sub f] w(2) show ?thesis by (simp add: fs_tree_def)
qed

lemma locatedD:
  assumes "located fs cs r es sub"
  shows "entries (last (root_dir fs # r)) = es" and "tree_dir (fs_tree fs) cs = Ok sub"
    and "dir_ok (device fs) (nfree fs) es" and "dir_tree (device fs) (nfree fs) es = sub"
    and "cs = [] \<Longrightarrow> es = root_entries fs"
  using assms unfolding located_def by blast+

lemma located_lookup:
  assumes "located fs cs r es sub"
  shows "map_of sub c = (case position (\<lambda>e. e_name e = c) es of None \<Rightarrow> None
    | Some i \<Rightarrow> Some (node_of (device fs) (es ! i)))"
  using assms map_of_dir_tree [of "device fs" "nfree fs" es c] by (auto simp: located_def)

lemma located_length: "located fs cs r es sub \<Longrightarrow> length sub = length es"
  by (auto simp: located_def dir_tree_eq)

lemma located_root: "located fs cs r es sub \<Longrightarrow> length (root_dir fs # r) = 1 \<longleftrightarrow> cs = []"
  by (auto simp: located_def)

section \<open>The operations\<close>

text \<open>
  A change of the directory at \<open>cs\<close> that also stores \<open>n\<close> blocks of data. An error
  of the specification is the error of the code, except that a disk too full for the data may be
  noticed first.
\<close>

definition refines ::
  "TinyFs \<Rightarrow> nat \<Rightarrow> bytes list \<Rightarrow> (unit, FsError) outcome \<times> TinyFs \<Rightarrow> (tree, FsError) outcome \<Rightarrow> bool"
where
  "refines fs n cs res spec \<longleftrightarrow>
     (case spec of
        Ok t \<Rightarrow> refines_to fs (n + path_blocks cs t) res t
      | Err e \<Rightarrow> \<exists>fs' e'. res = (Err e', fs') \<and> ext fs fs' \<and> (e' = e \<or> e' = NoSpace \<and> ntotal fs < nfree fs + n)
      | Panic \<Rightarrow> False | Hang \<Rightarrow> False)"

lemma refines_ErrI: "fs_ok fs \<Longrightarrow> refines fs n cs (Err e, fs) (Err e)"
  by (auto simp: refines_def fs_ok_def intro: ext_refl)

lemma refines_Ok: "refines fs n cs res (Ok t) = refines_to fs (n + path_blocks cs t) res t"
  by (simp add: refines_def)

lemmas fs_step_defs = split_path_comps Let_def

lemma new_entry:
  assumes ok: "fs_ok fs" and loc: "located fs cs r es sub" and e1: "ext fs fs1"
    and pos: "position (\<lambda>e. e_name e = e_name x) es = None" and nm: "name_ok (e_name x)"
    and x: "extent_ok (nfree fs1) x" "e_kind x = Directory \<Longrightarrow> e_length x = 0"
    and root: "cs = [] \<Longrightarrow> length es < 11"
  shows "refines_to fs (nfree fs1 - nfree fs +
      path_blocks cs (tree_update cs (\<lambda>s. s @ [(e_name x, node_of (device fs1) x)]) (fs_tree fs)))
    (persist_directory_chain fs1 (set_last_entries (root_dir fs # r) (es @ [x])))
    (tree_update cs (\<lambda>s. s @ [(e_name x, node_of (device fs1) x)]) (fs_tree fs))"
proof -
  from loc have es: "dir_ok (device fs) (nfree fs) es" "dir_tree (device fs) (nfree fs) es = sub"
    by (auto simp: located_def)
  from ext_dir [OF e1 es(1)] es(2) have es1: "dir_ok (device fs1) (nfree fs1) es"
      "dir_tree (device fs1) (nfree fs1) es = sub" by auto
  have "e_name x \<notin> e_name ` set es" using pos by auto
  from dir_ok_append [OF es1(1) nm x(1) this x(2)] es1(2)
  have "dir_ok (device fs1) (nfree fs1) (es @ [x])"
    "dir_tree (device fs1) (nfree fs1) (es @ [x]) = sub @ [(e_name x, node_of (device fs1) x)]" by auto
  then show ?thesis using root by (intro change_refines [OF ok loc e1]) auto
qed

text \<open>\<^verbatim>\<open>create_file\<close> and \<^verbatim>\<open>create_directory\<close> differ in the kind of the new entry only.\<close>

definition create_entry :: "EntryType \<Rightarrow> TinyFs \<Rightarrow> bytes \<Rightarrow> (unit, FsError) outcome \<times> TinyFs" where
  "create_entry k fs path =
     (let cs = comps path in
      if cs = [] then (Err InvalidPath, fs)
      else if NAME_LEN < length (last cs) then (Err NameTooLong, fs)
      else tryS (load_directory_chain fs (butlast cs), fs) (\<lambda>chain fs.
        let es = entries (last chain) in
        if position (\<lambda>e. e_name e = last cs) es \<noteq> None then (Err AlreadyExists, fs)
        else if length chain = 1 \<and> MAX_FILES \<le> length es then (Err DirectoryFull, fs)
        else persist_directory_chain fs (set_last_entries chain
               (es @ [\<lparr>e_name = last cs, e_start_block = 0, e_length = 0, e_kind = k\<rparr>]))))"

lemma last_comps: "comps path \<noteq> [] \<Longrightarrow> last (comps path) \<noteq> []"
  using comps_not_empty [of path] last_in_set by metis

lemma create_file_entry: "create_file fs path = create_entry File fs path"
  unfolding create_file_def create_entry_def
  by (auto simp: fs_step_defs list_ex_iff last_comps intro!: arg_cong [where f = "tryS _"] ext)

lemma create_directory_entry: "create_directory fs path = create_entry Directory fs path"
  unfolding create_directory_def create_entry_def
  by (auto simp: fs_step_defs find_None_iff last_comps intro!: arg_cong [where f = "tryS _"] ext)

lemma create_entry_refines:
  assumes ok: "fs_ok fs" and path: "path_ok path"
  shows "refines fs 0 (butlast (comps path)) (create_entry k fs path)
    (spec_create (case k of File \<Rightarrow> FileN [] | Directory \<Rightarrow> DirN []) (comps path) (fs_tree fs))"
proof -
  let ?cs = "comps path"
  consider "?cs = []" | "?cs \<noteq> []" "NAME_LEN < length (last ?cs)"
    | (go) "?cs \<noteq> []" "length (last ?cs) \<le> NAME_LEN" by linarith
  then show ?thesis
  proof cases
    case go
    have nm: "name_ok (last ?cs)" using comps_name_ok [OF path] go by simp
    show ?thesis
    proof (rule load_cases [OF ok butlast_comps [of path]])
      fix e assume "load_directory_chain fs (butlast ?cs) = Err e" "tree_dir (fs_tree fs) (butlast ?cs) = Err e"
      then show ?thesis using go ok by (simp add: create_entry_def spec_create_def refines_ErrI)
    next
      fix r es sub assume ld: "load_directory_chain fs (butlast ?cs) = Ok (root_dir fs # r)"
        and loc: "located fs (butlast ?cs) r es sub"
      note look = located_lookup [OF loc, of "last ?cs"] and len = located_length [OF loc]
        and root = located_root [OF loc]
      let ?x = "\<lparr>e_name = last ?cs, e_start_block = 0, e_length = 0, e_kind = k\<rparr>"
      have run: "create_entry k fs path =
          (if position (\<lambda>e. e_name e = last ?cs) es \<noteq> None then (Err AlreadyExists, fs)
           else if butlast ?cs = [] \<and> MAX_FILES \<le> length es then (Err DirectoryFull, fs)
           else persist_directory_chain fs (set_last_entries (root_dir fs # r) (es @ [?x])))"
        unfolding create_entry_def Let_def ld tryS.simps locatedD(1) [OF loc] root using go by simp
      have spec: "spec_create v ?cs (fs_tree fs) =
          (if map_of sub (last ?cs) \<noteq> None then Err AlreadyExists
           else if butlast ?cs = [] \<and> MAX_FILES \<le> length es then Err DirectoryFull
           else Ok (tree_update (butlast ?cs) (\<lambda>s. s @ [(last ?cs, v)]) (fs_tree fs)))" for v
        unfolding spec_create_def locatedD(2) [OF loc] and_then.simps len using go by simp
      show ?thesis
      proof (cases "position (\<lambda>e. e_name e = last ?cs) es \<noteq> None \<or> butlast ?cs = [] \<and> MAX_FILES \<le> length es")
        case True
        then show ?thesis
          unfolding run spec look by (auto simp: refines_ErrI [OF ok] simp del: position_None)
      next
        case False
        have "node_of (device fs) ?x = (case k of File \<Rightarrow> FileN [] | Directory \<Rightarrow> DirN [])"
          by (cases k) (simp_all add: node_of_def)
        with new_entry [OF ok loc ext_refl, of ?x] ok False nm
        show ?thesis
          unfolding run spec look
          by (auto simp: extent_ok_def fs_ok_def refines_Ok simp del: position_None)
      qed
    qed
  qed (auto simp: create_entry_def spec_create_def intro: refines_ErrI [OF ok])
qed

end
