(* ===== verification/FsOps.thy ===== *)
theory FsOps
  imports FsRefine
begin

text \<open>
  The remaining operations of TinyFS against the tree specification (writing, removing, reading,
  listing), formatting, and remounting.
\<close>

section \<open>Writing a file\<close>

text \<open>The allocation in front of a write; nothing is allocated for an empty file.\<close>

lemma allocate_contents:
  assumes base: "fs_base fs" and len: "length contents < 4294967296"
  shows "(\<exists>s l fs'. allocate_and_write fs contents = (Ok (s, l), fs') \<and> ext fs fs' \<and>
           (\<forall>e. extent_ok (nfree fs') (e\<lparr>e_start_block := s, e_length := l\<rparr>)) \<and>
           vb.run (device fs') (unat s) (unat l) = contents \<and>
           nfree fs' = nfree fs + div_ceil (length contents) BLOCK_SIZE) \<or>
         allocate_and_write fs contents = (Err NoSpace, fs) \<and>
           ntotal fs < nfree fs + div_ceil (length contents) BLOCK_SIZE"
proof (cases "contents = []")
  case True
  then show ?thesis
    using base by (auto simp: allocate_and_write_def ext_refl extent_ok_def)
next
  case False
  have l: "unat (word_of_nat (length contents) :: u32) = length contents"
    using len by (rule unat_word_of_nat_u32)
  have s: "2 \<le> nfree fs" using base by (simp add: fs_base_def)
  from allocate_and_write_cases [OF base len False] show ?thesis
    using l s by (fastforce simp: extent_ok_def)
qed

lemma write_file_unfold:
  assumes "comps path \<noteq> []" and "length (last (comps path)) \<le> NAME_LEN"
    and "load_directory_chain fs (butlast (comps path)) = Ok (root_dir fs # r)"
    and loc: "located fs (butlast (comps path)) r es sub"
  shows "write_file_contents fs path contents =
    (if position (\<lambda>e. e_name e = last (comps path)) es = None \<and> butlast (comps path) = [] \<and> MAX_FILES \<le> length es
     then (Err DirectoryFull, fs)
     else tryS (allocate_and_write fs contents) (\<lambda>(s, l) fs1.
       case position (\<lambda>e. e_name e = last (comps path)) es of
         Some k \<Rightarrow>
           if e_kind (es ! k) \<noteq> File then (Err NotADirectory, fs1)
           else persist_directory_chain fs1 (set_last_entries (root_dir fs # r)
                  (es[k := (es ! k)\<lparr>e_start_block := s, e_length := l\<rparr>]))
       | None \<Rightarrow> persist_directory_chain fs1 (set_last_entries (root_dir fs # r)
           (es @ [\<lparr>e_name = last (comps path), e_start_block = s, e_length = l, e_kind = File\<rparr>]))))"
  unfolding write_file_contents_def split_path_comps tryS.simps Let_def assms(3)
    locatedD(1) [OF loc] located_root [OF loc]
  using assms(1,2) last_comps [of path] by (simp del: position_None)

lemma overwrite_entry:
  assumes ok: "fs_ok fs" and loc: "located fs cs r es sub" and e1: "ext fs fs1"
    and k: "position (\<lambda>e. e_name e = c) es = Some k" and f: "e_kind (es ! k) = File"
    and x: "extent_ok (nfree fs1) ((es ! k)\<lparr>e_start_block := s, e_length := l\<rparr>)"
  shows "refines_to fs (nfree fs1 - nfree fs + path_blocks cs
      (tree_update cs (AList.update c (FileN (vb.run (device fs1) (unat s) (unat l)))) (fs_tree fs)))
    (persist_directory_chain fs1 (set_last_entries (root_dir fs # r)
      (es[k := (es ! k)\<lparr>e_start_block := s, e_length := l\<rparr>])))
    (tree_update cs (AList.update c (FileN (vb.run (device fs1) (unat s) (unat l)))) (fs_tree fs))"
proof -
  from ext_dir [OF e1 locatedD(3) [OF loc]] locatedD(4) [OF loc]
  have es1: "dir_ok (device fs1) (nfree fs1) es" "dir_tree (device fs1) (nfree fs1) es = sub" by auto
  from dir_ok_overwrite [OF es1(1) k f x] es1(2) show ?thesis
    using ok locatedD(5) [OF loc] by (intro change_refines [OF ok loc e1]) (auto simp: fs_ok_def)
qed

lemma spec_write_unfold:
  assumes "comps path \<noteq> []" and "length (last (comps path)) \<le> NAME_LEN"
    and loc: "located fs (butlast (comps path)) r es sub"
  shows "spec_write (comps path) contents (fs_tree fs) =
    (case position (\<lambda>e. e_name e = last (comps path)) es of
       None \<Rightarrow>
         if butlast (comps path) = [] \<and> MAX_FILES \<le> length es then Err DirectoryFull
         else Ok (tree_update (butlast (comps path)) (\<lambda>s. s @ [(last (comps path), FileN contents)]) (fs_tree fs))
     | Some k \<Rightarrow>
         if e_kind (es ! k) = File
         then Ok (tree_update (butlast (comps path)) (AList.update (last (comps path)) (FileN contents)) (fs_tree fs))
         else Err NotADirectory)"
  unfolding spec_write_def locatedD(2) [OF loc] and_then.simps located_lookup [OF loc] located_length [OF loc]
  using assms(1,2) by (auto simp: node_of_def split: option.split simp del: position_None)

text \<open>The change once the directory is found and the contents are on disk.\<close>

lemma write_allocated:
  assumes ok: "fs_ok fs" and path: "path_ok path"
    and go: "comps path \<noteq> []" "length (last (comps path)) \<le> NAME_LEN"
    and ld: "load_directory_chain fs (butlast (comps path)) = Ok (root_dir fs # r)"
    and loc: "located fs (butlast (comps path)) r es sub"
    and room: "\<not> (position (\<lambda>e. e_name e = last (comps path)) es = None \<and> butlast (comps path) = [] \<and> MAX_FILES \<le> length es)"
    and a: "allocate_and_write fs contents = (Ok (s, l), fs1)" "ext fs fs1"
      "\<And>e. extent_ok (nfree fs1) (e\<lparr>e_start_block := s, e_length := l\<rparr>)"
      "vb.run (device fs1) (unat s) (unat l) = contents"
      "nfree fs1 - nfree fs = div_ceil (length contents) BLOCK_SIZE"
  shows "refines fs (div_ceil (length contents) BLOCK_SIZE) (butlast (comps path))
    (write_file_contents fs path contents) (spec_write (comps path) contents (fs_tree fs))"
proof -
  let ?cs = "comps path"
  note run = write_file_unfold [OF go ld loc] and spec = spec_write_unfold [OF go loc]
  show ?thesis
  proof (cases "position (\<lambda>e. e_name e = last ?cs) es")
    case None
    let ?x = "\<lparr>e_name = last ?cs, e_start_block = s, e_length = l, e_kind = File\<rparr>"
    have "name_ok (last ?cs)" using comps_name_ok [OF path] go by simp
    moreover have "extent_ok (nfree fs1) ?x" using a(3) [of ?x] by simp
    moreover have "node_of (device fs1) ?x = FileN contents" using a(4) by (simp add: node_of_def)
    ultimately show ?thesis
      unfolding run spec using new_entry [OF ok loc a(2), of ?x] None room a(1,5)
      by (auto simp: refines_Ok simp del: position_None)
  next
    case (Some k)
    show ?thesis
    proof (cases "e_kind (es ! k) = File")
      case True
      show ?thesis
        unfolding run spec using overwrite_entry [OF ok loc a(2) Some True a(3)] Some True a(1,4,5)
        by (simp add: refines_Ok)
    next
      case False
      then show ?thesis unfolding run spec using Some a(1,2) by (auto simp: refines_def)
    qed
  qed
qed

lemma write_file_refines:
  assumes ok: "fs_ok fs" and path: "path_ok path" and len: "length contents < 4294967296"
  shows "refines fs (div_ceil (length contents) BLOCK_SIZE) (butlast (comps path))
    (write_file_contents fs path contents) (spec_write (comps path) contents (fs_tree fs))"
proof -
  let ?cs = "comps path"
  have base: "fs_base fs" using ok by (simp add: fs_ok_def)
  consider "?cs = []" | "?cs \<noteq> []" "NAME_LEN < length (last ?cs)"
    | (go) "?cs \<noteq> []" "length (last ?cs) \<le> NAME_LEN" by linarith
  then show ?thesis
  proof cases
    case go
    show ?thesis
    proof (rule load_cases [OF ok butlast_comps [of path]])
      fix e assume "load_directory_chain fs (butlast ?cs) = Err e" "tree_dir (fs_tree fs) (butlast ?cs) = Err e"
      then show ?thesis
        using go ok last_comps [of path]
        by (simp add: write_file_contents_def fs_step_defs spec_write_def refines_ErrI)
    next
      fix r es sub assume ld: "load_directory_chain fs (butlast ?cs) = Ok (root_dir fs # r)"
        and loc: "located fs (butlast ?cs) r es sub"
      note run = write_file_unfold [OF go ld loc] and spec = spec_write_unfold [OF go loc]
      let ?pos = "position (\<lambda>e. e_name e = last ?cs) es"
      show ?thesis
      proof (cases "?pos = None \<and> butlast ?cs = [] \<and> MAX_FILES \<le> length es")
        case True
        then show ?thesis unfolding run spec by (simp add: refines_ErrI [OF ok] del: position_None)
      next
        case room: False
        from allocate_contents [OF base len]
        consider (ok) s l fs1 where "allocate_and_write fs contents = (Ok (s, l), fs1)" "ext fs fs1"
            "\<And>e. extent_ok (nfree fs1) (e\<lparr>e_start_block := s, e_length := l\<rparr>)"
            "vb.run (device fs1) (unat s) (unat l) = contents"
            "nfree fs1 - nfree fs = div_ceil (length contents) BLOCK_SIZE"
          | (full) "allocate_and_write fs contents = (Err NoSpace, fs)"
            "ntotal fs < nfree fs + div_ceil (length contents) BLOCK_SIZE"
          by (metis add_diff_cancel_left')
        then show ?thesis
        proof cases
          case a: ok
          show ?thesis by (rule write_allocated [OF ok path go ld loc room a])
        next
          case full
          have "(\<exists>t. spec_write ?cs contents (fs_tree fs) = Ok t) \<or> (\<exists>e. spec_write ?cs contents (fs_tree fs) = Err e)"
            unfolding spec by (auto split: option.split)
          then show ?thesis
            unfolding run using room full ext_refl [OF base]
            by (auto simp: refines_def refines_to_def simp del: position_None)
        qed
      qed
    qed
  qed (auto simp: write_file_contents_def fs_step_defs spec_write_def intro: refines_ErrI [OF ok])
qed

section \<open>Removing\<close>

lemma remove_entry:
  assumes ok: "fs_ok fs" and loc: "located fs cs r es sub"
    and k: "position (\<lambda>e. e_name e = c) es = Some k"
  shows "refines_to fs (path_blocks cs (tree_update cs (AList.delete c) (fs_tree fs)))
    (persist_directory_chain fs (set_last_entries (root_dir fs # r)
      (take k es @ drop (Suc k) es)))
    (tree_update cs (AList.delete c) (fs_tree fs))"
proof -
  have "fs_base fs" using ok by (simp add: fs_ok_def)
  moreover have "k < length es" using position_SomeD [OF k] by simp
  ultimately show ?thesis
    using dir_ok_remove [OF locatedD(3) [OF loc] k] locatedD(4,5) [OF loc] ok
    by (intro change_refines [OF ok loc ext_refl, where f = "AList.delete c", simplified]) (auto simp: fs_ok_def)
qed

lemma remove_file_refines:
  assumes ok: "fs_ok fs"
  shows "refines fs 0 (butlast (comps path)) (remove_file fs path) (spec_remove_file (comps path) (fs_tree fs))"
proof (cases "comps path = []")
  case True
  then show ?thesis by (simp add: remove_file_def fs_step_defs spec_remove_file_def refines_ErrI [OF ok])
next
  case False
  let ?cs = "comps path"
  show ?thesis
  proof (rule load_cases [OF ok butlast_comps [of path]])
    fix e assume "load_directory_chain fs (butlast ?cs) = Err e" "tree_dir (fs_tree fs) (butlast ?cs) = Err e"
    then show ?thesis
      using False by (simp add: remove_file_def fs_step_defs spec_remove_file_def refines_ErrI [OF ok])
  next
    fix r es sub assume ld: "load_directory_chain fs (butlast ?cs) = Ok (root_dir fs # r)"
      and loc: "located fs (butlast ?cs) r es sub"
    have run: "remove_file fs path =
        (case position (\<lambda>e. e_name e = last ?cs) es of
           None \<Rightarrow> (Err NotFound, fs)
         | Some k \<Rightarrow>
             if e_kind (es ! k) \<noteq> File then (Err IsDirectory, fs)
             else persist_directory_chain fs (set_last_entries (root_dir fs # r) (take k es @ drop (Suc k) es)))"
      unfolding remove_file_def split_path_comps tryS.simps Let_def ld locatedD(1) [OF loc] using False by simp
    have spec: "spec_remove_file ?cs (fs_tree fs) =
        (case position (\<lambda>e. e_name e = last ?cs) es of
           None \<Rightarrow> Err NotFound
         | Some k \<Rightarrow>
             if e_kind (es ! k) \<noteq> File then Err IsDirectory
             else Ok (tree_update (butlast ?cs) (AList.delete (last ?cs)) (fs_tree fs)))"
      unfolding spec_remove_file_def locatedD(2) [OF loc] and_then.simps located_lookup [OF loc]
      using False by (auto simp: node_of_def split: option.split simp del: position_None)
    show ?thesis
      unfolding run spec using remove_entry [OF ok loc]
      by (auto simp: refines_Ok refines_ErrI [OF ok] split: option.split simp del: position_None)
  qed
qed

lemma remove_directory_refines:
  assumes ok: "fs_ok fs"
  shows "refines fs 0 (butlast (comps path)) (remove_directory fs path) (spec_remove_directory (comps path) (fs_tree fs))"
proof (cases "comps path = []")
  case True
  then show ?thesis
    by (simp add: remove_directory_def fs_step_defs spec_remove_directory_def refines_ErrI [OF ok])
next
  case False
  let ?cs = "comps path"
  have base: "fs_base fs" using ok by (simp add: fs_ok_def)
  show ?thesis
  proof (rule load_cases [OF ok butlast_comps [of path]])
    fix e assume "load_directory_chain fs (butlast ?cs) = Err e" "tree_dir (fs_tree fs) (butlast ?cs) = Err e"
    then show ?thesis
      using False by (simp add: remove_directory_def fs_step_defs spec_remove_directory_def refines_ErrI [OF ok])
  next
    fix r es sub assume ld: "load_directory_chain fs (butlast ?cs) = Ok (root_dir fs # r)"
      and loc: "located fs (butlast ?cs) r es sub"
    note dok = locatedD(3) [OF loc]
    have child: "read_directory_entries fs (es ! k) = Ok (dir_entries (device fs) (es ! k))"
      if "position (\<lambda>e. e_name e = last ?cs) es = Some k" "e_kind (es ! k) = Directory" for k
      using read_directory_entries_eq [OF base dir_okD(3) [OF dok] that(2)] position_SomeD [OF that(1)] by simp
    have empty: "dir_tree (device fs) (unat (e_start_block (es ! k))) (dir_entries (device fs) (es ! k)) = [] \<longleftrightarrow>
        dir_entries (device fs) (es ! k) = []"
      if "position (\<lambda>e. e_name e = last ?cs) es = Some k" "e_kind (es ! k) = Directory" for k
      using dir_okD(4) [OF dok _ that(2)] position_SomeD [OF that(1)] by (simp add: dir_tree_eq)
    have run: "remove_directory fs path =
        (case position (\<lambda>e. e_name e = last ?cs) es of
           None \<Rightarrow> (Err NotFound, fs)
         | Some k \<Rightarrow>
             if e_kind (es ! k) \<noteq> Directory then (Err IsFile, fs)
             else if dir_entries (device fs) (es ! k) \<noteq> [] then (Err DirectoryNotEmpty, fs)
             else persist_directory_chain fs (set_last_entries (root_dir fs # r) (take k es @ drop (Suc k) es)))"
      unfolding remove_directory_def split_path_comps tryS.simps Let_def ld locatedD(1) [OF loc]
      using False child by (auto split: option.split simp del: position_None)
    have spec: "spec_remove_directory ?cs (fs_tree fs) =
        (case position (\<lambda>e. e_name e = last ?cs) es of
           None \<Rightarrow> Err NotFound
         | Some k \<Rightarrow>
             if e_kind (es ! k) \<noteq> Directory then Err IsFile
             else if dir_entries (device fs) (es ! k) \<noteq> [] then Err DirectoryNotEmpty
             else Ok (tree_update (butlast ?cs) (AList.delete (last ?cs)) (fs_tree fs)))"
      unfolding spec_remove_directory_def locatedD(2) [OF loc] and_then.simps located_lookup [OF loc]
      using False empty EntryType.exhaust
      by (auto simp: node_of_def split: option.split simp del: position_None)
    show ?thesis
      unfolding run spec using remove_entry [OF ok loc]
      by (auto simp: refines_Ok refines_ErrI [OF ok] split: option.split simp del: position_None)
  qed
qed

section \<open>Reading\<close>

lemma read_file_spec:
  assumes ok: "fs_ok fs"
  shows "read_file_contents fs path = spec_read (comps path) (fs_tree fs)"
proof (cases "comps path = []")
  case True
  then show ?thesis by (simp add: read_file_contents_def split_path_comps spec_read_def)
next
  case False
  let ?cs = "comps path"
  have base: "fs_base fs" using ok by (simp add: fs_ok_def)
  show ?thesis
  proof (rule load_cases [OF ok butlast_comps [of path]])
    fix e assume "load_directory_chain fs (butlast ?cs) = Err e" "tree_dir (fs_tree fs) (butlast ?cs) = Err e"
    then show ?thesis using False by (simp add: read_file_contents_def split_path_comps spec_read_def)
  next
    fix r es sub assume ld: "load_directory_chain fs (butlast ?cs) = Ok (root_dir fs # r)"
      and loc: "located fs (butlast ?cs) r es sub"
    have rd: "read_data fs (e_start_block (es ! k)) (e_length (es ! k)) =
        Ok (vb.run (device fs) (unat (e_start_block (es ! k))) (unat (e_length (es ! k))))"
      if "position (\<lambda>e. e_name e = last ?cs) es = Some k" for k
      using read_data_run [OF base dir_okD(3) [OF locatedD(3) [OF loc]]] position_SomeD [OF that] by simp
    have fd: "find (\<lambda>e. e_name e = last ?cs) es =
        map_option (\<lambda>i. es ! i) (position (\<lambda>e. e_name e = last ?cs) es)"
      by (simp add: position_find)
    show ?thesis
      unfolding read_file_contents_def split_path_comps and_then.simps ld locatedD(1) [OF loc] fd
        spec_read_def locatedD(2) [OF loc] located_lookup [OF loc]
      using False rd EntryType.exhaust
      by (auto simp: node_of_def split: option.split simp del: position_None)
  qed
qed

lemma label_node_of: "label (e_name e, node_of d e) = display_name e"
  by (cases "e_kind e") (simp_all add: node_of_def display_name_def)

lemma list_directory_spec:
  assumes ok: "fs_ok fs"
  shows "list_directory fs path = spec_list (comps path) (fs_tree fs)"
proof (rule load_cases [OF ok comps_not_empty [of path]])
  fix e assume "load_directory_chain fs (comps path) = Err e" "tree_dir (fs_tree fs) (comps path) = Err e"
  then show ?thesis by (simp add: list_directory_def split_path_comps spec_list_def)
next
  fix r es sub assume ld: "load_directory_chain fs (comps path) = Ok (root_dir fs # r)"
    and loc: "located fs (comps path) r es sub"
  have "map label sub = map display_name es"
    using dir_tree_eq [OF locatedD(3) [OF loc]] locatedD(4) [OF loc] by (auto simp: label_node_of)
  then show ?thesis
    unfolding list_directory_def split_path_comps and_then.simps ld locatedD(1) [OF loc]
      spec_list_def locatedD(2) [OF loc] by simp
qed

lemma ensure_directory_spec:
  assumes ok: "fs_ok fs"
  shows "ensure_directory_exists fs path = and_then (tree_dir (fs_tree fs) (comps path)) (\<lambda>_. Ok ())"
  by (rule load_cases [OF ok comps_not_empty [of path]])
     (simp_all add: ensure_directory_exists_def split_path_comps locatedD(2))

section \<open>Formatting and mounting\<close>

lemma format_disk_ok:
  assumes d: "dev_ok (device fs)" and n: "2 \<le> ntotal fs" "ntotal fs \<le> 4194304"
  shows "\<exists>fs'. format_disk fs = (Ok (), fs') \<and> fs_ok fs' \<and> fs_tree fs' = [] \<and> synced fs' \<and>
    nfree fs' = 2 \<and> ntotal fs' = ntotal fs"
proof -
  let ?z = "replicate 512 0 :: bytes"
  from vb.write_ok [OF d, of 0 ?z] n obtain d1
    where d1: "write_block (device fs) 0 ?z = (Ok () :: (unit, FsError) outcome, d1)" "dev_ok d1"
      "total_blocks d1 = total_blocks (device fs)"
    by (auto simp: word_less_nat_alt)
  from vb.write_ok [OF d1(2), of 1 ?z] n d1(3) obtain d2
    where d2: "write_block d1 1 ?z = (Ok () :: (unit, FsError) outcome, d2)" "dev_ok d2"
      "total_blocks d2 = total_blocks (device fs)"
    by (auto simp: word_less_nat_alt)
  let ?fs = "fs\<lparr>device := d2, superblock := \<lparr>magic = MAGIC, version = VERSION,
      next_free_block = DATA_START_BLOCK, file_count = 0\<rparr>, root_entries := []\<rparr>"
  have "fs_ok ?fs" using d2 n by (simp add: fs_ok_def fs_base_def)
  from flush_ok [OF this] obtain fs' where fs': "tryS (flush_root_directory ?fs) (\<lambda>_. flush_superblock) = (Ok (), fs')"
      "fs_ok fs'" "fs_tree fs' = fs_tree ?fs" "synced fs'" by blast
  have "superblock fs' = superblock ?fs" "ntotal fs' = ntotal ?fs"
    using fs'(1) by (auto simp: flush_root_directory_def flush_superblock_def dev_write_def write_block_def
        total_blocks_def split: if_splits)
  moreover have "format_disk fs = tryS (flush_root_directory ?fs) (\<lambda>_. flush_superblock)"
    using d1(1) d2(1) by (simp add: format_disk_def dev_write_def Let_def)
  ultimately show ?thesis using fs' d2(3) by (auto simp: fs_tree_def)
qed

lemma mount_synced:
  assumes ok: "fs_ok fs" and syn: "synced fs"
  shows "mount (device fs) = (Ok (), fs)"
proof -
  from ok have b: "dev_ok (device fs)" "2 \<le> ntotal fs" "length (root_entries fs) \<le> 11"
      "magic (superblock fs) = MAGIC" "version (superblock fs) = VERSION"
      "dir_ok (device fs) (nfree fs) (root_entries fs)"
    by (simp_all add: fs_ok_def fs_base_def)
  have r0: "read_block (device fs) 0 (replicate 512 0) =
      (Ok (superblock_bytes (superblock fs)) :: (bytes, FsError) outcome)"
    and r1: "read_block (device fs) 1 (replicate 512 0) =
      (Ok (write_entries 0 (replicate 512 0) (root_entries fs)) :: (bytes, FsError) outcome)"
    using b(2) syn by (simp_all add: vb.read_ok [OF b(1)] word_less_nat_alt synced_def)
  have "List.map_filter deserialize_entry
      (take 11 (chunks 44 (write_entries 0 (replicate 512 0) (root_entries fs)))) = root_entries fs"
    using dir_okD(2) [OF b(6)] b(3) by (intro decode_root_block) auto
  with b(4,5) r0 r1 show ?thesis
    by (simp add: mount_def load_or_format_def load_root_directory_def Let_def parse_superblock_bytes)
qed

text \<open>
  A change that fails leaves a disk that mounts to the tree from before.
\<close>

lemma mount_after_ext:
  assumes ok: "fs_ok fs" and syn: "synced fs" and e: "ext fs fs'"
  shows "\<exists>fs''. mount (device fs') = (Ok (), fs'') \<and> fs_ok fs'' \<and> fs_tree fs'' = fs_tree fs"
proof -
  let ?fs = "fs\<lparr>device := device fs'\<rparr>"
  have b: "2 \<le> nfree fs" "dir_ok (device fs) (nfree fs) (root_entries fs)"
    using ok by (simp_all add: fs_ok_def fs_base_def)
  from frame [OF b(2) ext_agree [OF e]] ok e have "fs_ok ?fs" "fs_tree ?fs = fs_tree fs"
    by (simp_all add: fs_ok_def fs_base_def fs_tree_def ext_def)
  moreover have "synced ?fs" using syn e b(1) by (simp add: synced_def ext_def)
  ultimately show ?thesis using mount_synced [of ?fs] by auto
qed

end
