(* ===== verification/FsProps.thy ===== *)
theory FsProps
  imports FsOps "HOL-Library.Sublist"
begin

text \<open>
  What the public functions of \<^verbatim>\<open>src/fs.rs\<close> promise, over the abstract tree: each change does
  what its specification says exactly when the disk has room for it and otherwise leaves the tree
  alone, reading and listing return what the tree holds, a written file reads back and disturbs no
  other path, the disk mounts to the state it was left in, and whole sequences of operations keep
  all of this.
\<close>

section \<open>The contract of a change\<close>

definition fits :: "TinyFs \<Rightarrow> nat \<Rightarrow> bool" where
  "fits fs n \<longleftrightarrow> nfree fs + n \<le> ntotal fs"

text \<open>The tree is as before, in memory and on the disk.\<close>

definition unchanged :: "TinyFs \<Rightarrow> TinyFs \<Rightarrow> bool" where
  "unchanged fs fs' \<longleftrightarrow> fs_ok fs' \<and> fs_tree fs' = fs_tree fs \<and> root_entries fs' = root_entries fs \<and>
     (synced fs \<longrightarrow> (\<exists>fs''. mount (device fs') = (Ok (), fs'') \<and> fs_ok fs'' \<and> fs_tree fs'' = fs_tree fs))"

text \<open>
  A change of the directory at \<open>cs\<close> that stores \<open>n\<close> blocks of data, run on the
  global instance.
\<close>

definition carries_out ::
  "TinyFs \<Rightarrow> nat \<Rightarrow> bytes list \<Rightarrow> (unit, FsError) outcome \<times> fs_instance \<Rightarrow> (tree, FsError) outcome \<Rightarrow> bool"
where
  "carries_out fs n cs res spec \<longleftrightarrow>
     (case spec of
        Ok t \<Rightarrow>
          if fits fs (n + path_blocks cs t)
          then \<exists>fs'. res = (Ok (), Some fs') \<and> fs_ok fs' \<and> fs_tree fs' = t \<and>
                 nfree fs' = nfree fs + n + path_blocks cs t \<and> mount (device fs') = (Ok (), fs')
          else \<exists>fs'. res = (Err NoSpace, Some fs') \<and> unchanged fs fs'
      | Err e \<Rightarrow> \<exists>e' fs'. res = (Err e', Some fs') \<and> (e' = e \<or> e' = NoSpace \<and> \<not> fits fs n) \<and> unchanged fs fs'
      | Panic \<Rightarrow> False
      | Hang \<Rightarrow> False)"

lemma ext_unchanged: "fs_ok fs \<Longrightarrow> ext fs fs' \<Longrightarrow> unchanged fs fs'"
  using ext_fs_ok [of fs fs'] mount_after_ext [of fs fs'] by (auto simp: unchanged_def ext_def)

lemma refines_carries_out:
  assumes ok: "fs_ok fs" and r: "refines fs n cs (f fs) spec"
  shows "carries_out fs n cs (with_fs (Some fs) f) spec"
proof (cases spec)
  case (Ok t)
  from r [unfolded Ok refines_Ok refines_to_def] consider
      (good) fs' where "f fs = (Ok (), fs')" "fs_ok fs'" "fs_tree fs' = t" "synced fs'"
        "nfree fs' = nfree fs + (n + path_blocks cs t)" "ntotal fs' = ntotal fs"
    | (full) fs' where "f fs = (Err NoSpace, fs')" "ext fs fs'" "ntotal fs < nfree fs + (n + path_blocks cs t)"
    by auto
  then show ?thesis
  proof cases
    case good
    moreover have "fits fs (n + path_blocks cs t)"
      using good(2,5,6) by (simp add: fits_def fs_ok_def fs_base_def)
    ultimately show ?thesis
      using mount_synced [OF good(2,4)] Ok by (simp add: carries_out_def with_fs_def)
  next
    case full
    then show ?thesis
      using ext_unchanged [OF ok full(2)] Ok by (simp add: carries_out_def with_fs_def fits_def)
  qed
next
  case (Err e)
  with r obtain fs' e' where "f fs = (Err e', fs')" "ext fs fs'" "e' = e \<or> e' = NoSpace \<and> ntotal fs < nfree fs + n"
    by (auto simp: refines_def)
  then show ?thesis
    using ext_unchanged [OF ok] Err by (auto simp: carries_out_def with_fs_def fits_def)
qed (use r in \<open>simp_all add: refines_def\<close>)

section \<open>A concrete disk\<close>

text \<open>A blank disk of 64 blocks, and the file system that mounting it creates.\<close>

definition blank_disk :: VirtIoBlock where
  "blank_disk = \<lparr>capacity_sectors = 64, sectors = \<lambda>_. replicate 512 0\<rparr>"

definition blank_fs :: TinyFs where
  "blank_fs = snd (mount blank_disk)"

lemma mount_unformatted:
  assumes d: "dev_ok d" and n: "2 \<le> unat (total_blocks d)" "unat (total_blocks d) \<le> 4194304"
    and sb: "magic (parse_superblock (sectors d 0)) \<noteq> MAGIC \<or> version (parse_superblock (sectors d 0)) \<noteq> VERSION"
  shows "\<exists>fs. mount d = (Ok (), fs) \<and> fs_ok fs \<and> fs_tree fs = [] \<and> synced fs \<and>
    nfree fs = 2 \<and> ntotal fs = unat (total_blocks d)"
proof -
  have r0: "read_block d 0 (replicate 512 0) = (Ok (sectors d 0) :: (bytes, FsError) outcome)"
    using n by (simp add: vb.read_ok [OF d] word_less_nat_alt)
  let ?fs = "\<lparr>device = d, superblock = \<lparr>magic = 0, version = 0, next_free_block = 0, file_count = 0\<rparr>,
    root_entries = []\<rparr>"
  have "mount d = format_disk ?fs"
    using sb r0 by (auto simp: mount_def load_or_format_def Let_def)
  with format_disk_ok [of ?fs] d n show ?thesis by auto
qed

lemma blank_disk_ok:
  "dev_ok blank_disk" "total_blocks blank_disk = 64"
  "magic (parse_superblock (sectors blank_disk 0)) = 0"
  by (simp_all add: blank_disk_def dev_ok_def total_blocks_def parse_superblock_def slice_def)

lemma blank_mount: "mount blank_disk = (Ok (), blank_fs)"
  and blank_fs_ok: "fs_ok blank_fs" "fs_tree blank_fs = []" "synced blank_fs" "nfree blank_fs = 2" "ntotal blank_fs = 64"
  using mount_unformatted [OF blank_disk_ok(1)] blank_disk_ok(2,3) by (auto simp: blank_fs_def)


section \<open>Reading in an updated tree\<close>

lemma spec_read_step:
  "spec_read (c # cs) t =
     (case map_of t c of
        None \<Rightarrow> Err NotFound
      | Some (FileN b) \<Rightarrow> if cs = [] then Ok b else Err NotADirectory
      | Some (DirN s) \<Rightarrow> if cs = [] then Err NotADirectory else spec_read cs s)"
  by (auto simp: spec_read_def split: option.split node.split)

lemma map_of_tree_update_other:
  "x \<noteq> c \<Longrightarrow> map_of (tree_update (c # cs) f t) x = map_of t x"
  by (induction t) auto

lemma spec_read_other:
  assumes f: "\<And>s x. x \<noteq> nm \<Longrightarrow> map_of (f s) x = map_of s x"
  shows "\<not> prefix (pre @ [nm]) qs \<Longrightarrow> spec_read qs (tree_update pre f t) = spec_read qs t"
proof (induction pre arbitrary: qs t)
  case Nil
  show ?case
  proof (cases qs)
    case (Cons x cs)
    with Nil have "x \<noteq> nm" by simp
    with Cons show ?thesis by (simp add: spec_read_step f)
  qed (simp add: spec_read_def)
next
  case (Cons c pre)
  show ?case
  proof (cases qs)
    case q: (Cons x cs)
    show ?thesis
    proof (cases "x = c")
      case True
      with Cons.IH [of cs] Cons.prems q show ?thesis
        by (auto simp: spec_read_step map_of_tree_update simp del: tree_update.simps
            split: option.split node.split)
    next
      case False
      then show ?thesis by (simp add: q spec_read_step map_of_tree_update_other del: tree_update.simps)
    qed
  qed (simp add: spec_read_def)
qed

lemma tree_dir_update: "tree_dir t cs = Ok s \<Longrightarrow> tree_dir (tree_update cs f t) cs = Ok (f s)"
proof (induction cs arbitrary: t)
  case (Cons c cs)
  then show ?case
    by (auto simp: map_of_tree_update simp del: tree_update.simps split: option.splits node.splits)
qed simp

lemma spec_write_Ok:
  assumes "spec_write cs contents t = Ok t'"
  obtains s f where "cs \<noteq> []" "tree_dir t (butlast cs) = Ok s" "t' = tree_update (butlast cs) f t"
    "map_of (f s) (last cs) = Some (FileN contents)" "\<And>s x. x \<noteq> last cs \<Longrightarrow> map_of (f s) x = map_of s x"
proof -
  from assms obtain s where s: "cs \<noteq> []" "tree_dir t (butlast cs) = Ok s"
    by (auto simp: spec_write_def outcome_simps split: if_splits)
  show ?thesis
  proof (cases "map_of s (last cs)")
    case None
    show ?thesis
    proof (rule that [OF s])
      show "t' = tree_update (butlast cs) (\<lambda>s. s @ [(last cs, FileN contents)]) t"
        using s assms None by (auto simp: spec_write_def split: if_splits)
    qed (use None in \<open>auto simp: map_add_def split: option.split\<close>)
  next
    case (Some x)
    with s assms that [of s "AList.update (last cs) (FileN contents)"] show ?thesis
      by (auto simp: spec_write_def AList.update_conv' split: if_splits node.splits)
  qed
qed

lemma spec_write_read:
  assumes "spec_write cs contents t = Ok t'"
  shows "spec_read cs t' = Ok contents" and "\<not> prefix cs qs \<Longrightarrow> spec_read qs t' = spec_read qs t"
proof -
  from assms obtain s f where w: "cs \<noteq> []" "tree_dir t (butlast cs) = Ok s" "t' = tree_update (butlast cs) f t"
    "map_of (f s) (last cs) = Some (FileN contents)" "\<And>s x. x \<noteq> last cs \<Longrightarrow> map_of (f s) x = map_of s x"
    by (rule spec_write_Ok) blast
  show "spec_read cs t' = Ok contents"
    using w(1,3,4) tree_dir_update [OF w(2), of f] by (simp add: spec_read_def)
  show "spec_read qs t' = spec_read qs t" if "\<not> prefix cs qs"
    using spec_read_other [of "last cs" f "butlast cs" qs t] w(1,3,5) that by simp
qed


section \<open>Sequences of operations\<close>

datatype fs_op =
  WriteOp bytes bytes | CreateOp bytes | MkdirOp bytes | RemoveOp bytes | RmdirOp bytes

fun op_ok :: "fs_op \<Rightarrow> bool" where
  "op_ok (WriteOp p b) \<longleftrightarrow> path_ok p \<and> length b < 4294967296"
| "op_ok (CreateOp p) \<longleftrightarrow> path_ok p"
| "op_ok (MkdirOp p) \<longleftrightarrow> path_ok p"
| "op_ok _ \<longleftrightarrow> True"

fun exec_op :: "fs_op \<Rightarrow> fs_instance \<Rightarrow> (unit, FsError) outcome \<times> fs_instance" where
  "exec_op (WriteOp p b) g = fs_write_file g p b"
| "exec_op (CreateOp p) g = fs_create_file g p"
| "exec_op (MkdirOp p) g = fs_mkdir g p"
| "exec_op (RemoveOp p) g = fs_remove_file g p"
| "exec_op (RmdirOp p) g = fs_remove_directory g p"

fun spec_op :: "fs_op \<Rightarrow> tree \<Rightarrow> (tree, FsError) outcome" where
  "spec_op (WriteOp p b) t = spec_write (comps p) b t"
| "spec_op (CreateOp p) t = spec_create (FileN []) (comps p) t"
| "spec_op (MkdirOp p) t = spec_create (DirN []) (comps p) t"
| "spec_op (RemoveOp p) t = spec_remove_file (comps p) t"
| "spec_op (RmdirOp p) t = spec_remove_directory (comps p) t"

fun exec_ops :: "fs_op list \<Rightarrow> fs_instance \<Rightarrow> (unit, FsError) outcome list \<times> fs_instance" where
  "exec_ops [] g = ([], g)"
| "exec_ops (p # ps) g =
     (case exec_op p g of (r, g') \<Rightarrow> case exec_ops ps g' of (rs, g'') \<Rightarrow> (r # rs, g''))"

text \<open>The same operations on the tree, given which of them succeeded.\<close>

fun replay :: "fs_op list \<Rightarrow> (unit, FsError) outcome list \<Rightarrow> tree \<Rightarrow> (tree, FsError) outcome" where
  "replay [] [] t = Ok t"
| "replay (p # ps) (Ok _ # rs) t = and_then (spec_op p t) (replay ps rs)"
| "replay (p # ps) (Err e # rs) t = replay ps rs t"
| "replay _ _ _ = Panic"

fun op_path :: "fs_op \<Rightarrow> bytes" where
  "op_path (WriteOp p _) = p"
| "op_path (CreateOp p) = p"
| "op_path (MkdirOp p) = p"
| "op_path (RemoveOp p) = p"
| "op_path (RmdirOp p) = p"

fun op_data :: "fs_op \<Rightarrow> nat" where
  "op_data (WriteOp _ b) = div_ceil (length b) BLOCK_SIZE"
| "op_data _ = 0"

lemma exec_op_carries_out:
  assumes ok: "fs_ok fs" and p: "op_ok p"
  shows "carries_out fs (op_data p) (butlast (comps (op_path p))) (exec_op p (Some fs)) (spec_op p (fs_tree fs))"
  using p write_file_refines [OF ok] create_entry_refines [OF ok, of _ File]
    create_entry_refines [OF ok, of _ Directory] remove_file_refines [OF ok] remove_directory_refines [OF ok]
  by (cases p) (auto intro!: refines_carries_out [OF ok] simp: fs_write_file_def fs_create_file_def
      fs_mkdir_def fs_remove_file_def fs_remove_directory_def create_file_entry create_directory_entry)

lemma exec_op_step:
  assumes ok: "fs_ok fs" and p: "op_ok p"
  obtains (success) fs' where "exec_op p (Some fs) = (Ok (), Some fs')" "fs_ok fs'"
      "spec_op p (fs_tree fs) = Ok (fs_tree fs')" "mount (device fs') = (Ok (), fs')"
    | (failure) e fs' where "exec_op p (Some fs) = (Err e, Some fs')" "unchanged fs fs'"
proof (cases "spec_op p (fs_tree fs)")
  case (Ok t)
  with exec_op_carries_out [OF ok p] that show ?thesis by (auto simp: carries_out_def split: if_splits)
next
  case (Err e)
  with exec_op_carries_out [OF ok p] that show ?thesis by (auto simp: carries_out_def)
qed (use exec_op_carries_out [OF ok p] in \<open>simp_all add: carries_out_def\<close>)

lemma exec_ops_replay:
  assumes "fs_ok fs" and "\<forall>p \<in> set ps. op_ok p"
  shows "\<exists>rs fs'. exec_ops ps (Some fs) = (rs, Some fs') \<and> fs_ok fs' \<and> replay ps rs (fs_tree fs) = Ok (fs_tree fs')"
  using assms
proof (induction ps arbitrary: fs)
  case (Cons p ps)
  have p: "op_ok p" and ps: "\<forall>q \<in> set ps. op_ok q" using Cons.prems(2) by auto
  from Cons.prems(1) p show ?case
  proof (cases rule: exec_op_step)
    case (success fs1)
    with Cons.IH [OF success(2) ps] show ?thesis by auto
  next
    case (failure e fs1)
    then have "fs_ok fs1" "fs_tree fs1 = fs_tree fs" by (simp_all add: unchanged_def)
    with Cons.IH [OF this(1) ps] failure show ?thesis by auto
  qed
qed simp


section \<open>The file store\<close>

text \<open>
  What the descriptor layer relies on: reading changes nothing, a write that succeeds is what is
  read afterwards, and one that fails leaves every file as it was.
\<close>

locale file_store =
  fixes inv :: "'g \<Rightarrow> bool"
    and rd :: "'g \<Rightarrow> bytes \<Rightarrow> (bytes, 'e) outcome \<times> 'g"
    and wr :: "'g \<Rightarrow> bytes \<Rightarrow> bytes \<Rightarrow> (unit, 'e) outcome \<times> 'g"
    and good :: "bytes \<Rightarrow> bytes \<Rightarrow> bool"
  assumes rd_pure: "inv g \<Longrightarrow> \<exists>r. rd g p = (r, g) \<and> r \<noteq> Panic \<and> r \<noteq> Hang"
    and wr_law: "inv g \<Longrightarrow> good p b \<Longrightarrow>
      (\<exists>g'. wr g p b = (Ok (), g') \<and> inv g' \<and> fst (rd g' p) = Ok b) \<or>
      (\<exists>e g'. wr g p b = (Err e, g') \<and> inv g' \<and> (\<forall>q. fst (rd g' q) = fst (rd g q)))"
begin

lemma rd_cases:
  assumes "inv g"
  obtains b where "rd g p = (Ok b, g)" | e where "rd g p = (Err e, g)"
proof -
  from rd_pure [OF assms, of p] obtain r where "rd g p = (r, g)" "r \<noteq> Panic" "r \<noteq> Hang" by blast
  with that show ?thesis by (cases r) auto
qed

text \<open>A log file: reading it whole and writing it back with a new piece at the end.\<close>

definition append_once :: "bytes \<Rightarrow> bytes \<Rightarrow> 'g \<Rightarrow> (unit, 'e) outcome \<times> 'g" where
  "append_once p b g = (case rd g p of (Ok c, g) \<Rightarrow> wr g p (c @ b) | (_, g) \<Rightarrow> wr g p b)"

fun append_all :: "bytes \<Rightarrow> bytes list \<Rightarrow> 'g \<Rightarrow> bool \<times> 'g" where
  "append_all p [] g = (True, g)"
| "append_all p (b # bs) g =
     (case append_once p b g of (r, g) \<Rightarrow> case append_all p bs g of (all_ok, g) \<Rightarrow> (r = Ok () \<and> all_ok, g))"

lemma append_all_ok:
  assumes good: "\<And>b'. length b' \<le> length c + length (concat bs) \<Longrightarrow> good p b'"
  shows "inv g \<Longrightarrow> fst (rd g p) = Ok c \<Longrightarrow> append_all p bs g = (True, g') \<Longrightarrow>
    inv g' \<and> fst (rd g' p) = Ok (c @ concat bs)"
  using good
proof (induction bs arbitrary: c g)
  case (Cons b bs)
  from Cons.prems(1,2) have rd: "rd g p = (Ok c, g)" by (cases rule: rd_cases [of g p]) auto
  have "append_once p b g = wr g p (c @ b)" by (simp add: append_once_def rd)
  with Cons.prems(3) obtain g1 where g1: "wr g p (c @ b) = (Ok (), g1)" "append_all p bs g1 = (True, g')"
    by (auto split: prod.splits)
  from wr_law [OF Cons.prems(1), of p "c @ b"] Cons.prems(4) g1(1) have "inv g1" "fst (rd g1 p) = Ok (c @ b)" by auto
  with Cons.IH [OF this g1(2)] Cons.prems(4) show ?case by simp
qed simp

end

definition mounted :: "fs_instance \<Rightarrow> bool" where
  "mounted g \<longleftrightarrow> (\<exists>fs. g = Some fs \<and> fs_ok fs)"

definition storable :: "bytes \<Rightarrow> bytes \<Rightarrow> bool" where
  "storable path data \<longleftrightarrow> path_ok path \<and> length data < 4294967296"

lemma spec_read_total: "spec_read cs t \<noteq> Panic \<and> spec_read cs t \<noteq> Hang"
proof -
  have "tree_dir t cs \<noteq> Panic \<and> tree_dir t cs \<noteq> Hang" for cs t
    by (induction t cs rule: tree_dir.induct) (auto split: option.split node.split)
  then show ?thesis
    by (cases "tree_dir t (butlast cs)") (auto simp: spec_read_def split: option.split node.split)
qed

lemma fs_read_mounted: "fs_ok fs \<Longrightarrow> fs_read_file (Some fs) p = (spec_read (comps p) (fs_tree fs), Some fs)"
  by (simp add: fs_read_file_def with_fs_def read_file_spec)

interpretation store: file_store mounted fs_read_file fs_write_file storable
proof unfold_locales
  fix g p and b :: bytes assume "mounted g"
  then obtain fs where g: "g = Some fs" and ok: "fs_ok fs" by (auto simp: mounted_def)
  show "\<exists>r. fs_read_file g p = (r, g) \<and> r \<noteq> Panic \<and> r \<noteq> Hang"
    using spec_read_total by (simp add: g fs_read_mounted [OF ok])
  assume "storable p b"
  then have "op_ok (WriteOp p b)" by (simp add: storable_def)
  from ok this show "(\<exists>g'. fs_write_file g p b = (Ok (), g') \<and> mounted g' \<and> fst (fs_read_file g' p) = Ok b) \<or>
      (\<exists>e g'. fs_write_file g p b = (Err e, g') \<and> mounted g' \<and> (\<forall>q. fst (fs_read_file g' q) = fst (fs_read_file g q)))"
  proof (cases rule: exec_op_step)
    case (success fs')
    then show ?thesis
      using spec_write_read(1) [of "comps p" b "fs_tree fs" "fs_tree fs'"]
      by (auto simp: g mounted_def fs_read_mounted)
  next
    case (failure e fs')
    then show ?thesis by (auto simp: g mounted_def unchanged_def fs_read_mounted [OF ok] fs_read_mounted)
  qed
qed

section \<open>Properties\<close>

text \<open>
  C1. \<^verbatim>\<open>fs::write_file\<close> refines the tree. When the specification accepts the write and the blocks it
  takes (the data, and every directory on the path below the root, written anew) fit on the disk,
  it succeeds with exactly that tree, which is also what the disk mounts to; when they do not fit it
  fails with \<^verbatim>\<open>NoSpace\<close>, and when the specification rejects it, it fails with the same error (or with
  \<^verbatim>\<open>NoSpace\<close>, if the data does not fit either), both times leaving the tree as it was. It never panics.
\<close>

theorem write_file_correct:
  assumes "fs_ok fs" and "path_ok path" and "length data < 4294967296"
  shows "carries_out fs (div_ceil (length data) BLOCK_SIZE) (butlast (comps path))
    (fs_write_file (Some fs) path data) (spec_write (comps path) data (fs_tree fs))"
  using exec_op_carries_out [of fs "WriteOp path data"] assms by simp

theorem write_file_correct_witness:
  "carries_out blank_fs (div_ceil 600 512) [] (fs_write_file (Some blank_fs) (ascii ''/a'') (replicate 600 7))
     (Ok [(ascii ''a'', FileN (replicate 600 7))])"
  using write_file_correct [OF blank_fs_ok(1), of "ascii ''/a''" "replicate 600 7"] blank_fs_ok(2)
  by (simp add: path_ok_def ascii_def comps_def SLASH_def spec_write_def)

text \<open>
  C4. \<^verbatim>\<open>fs::create_file\<close> adds an empty file to the directory its path names, under the same contract as
  writing a file: it fails with \<^verbatim>\<open>AlreadyExists\<close>, \<^verbatim>\<open>DirectoryFull\<close>, \<^verbatim>\<open>NameTooLong\<close>, \<^verbatim>\<open>InvalidPath\<close>, or the
  error of looking the directory up, and then changes nothing.
\<close>

theorem create_file_correct:
  assumes "fs_ok fs" and "path_ok path"
  shows "carries_out fs 0 (butlast (comps path)) (fs_create_file (Some fs) path)
    (spec_create (FileN []) (comps path) (fs_tree fs))"
  using exec_op_carries_out [of fs "CreateOp path"] assms by simp

theorem create_file_correct_witness:
  "carries_out blank_fs 0 [] (fs_create_file (Some blank_fs) (ascii ''/a'')) (Ok [(ascii ''a'', FileN [])])"
  using create_file_correct [OF blank_fs_ok(1), of "ascii ''/a''"] blank_fs_ok(2)
  by (simp add: path_ok_def ascii_def comps_def SLASH_def spec_create_def)

text \<open>
  C5. \<^verbatim>\<open>fs::mkdir\<close> adds an empty directory to the directory its path names, under the same contract.
\<close>

theorem mkdir_correct:
  assumes "fs_ok fs" and "path_ok path"
  shows "carries_out fs 0 (butlast (comps path)) (fs_mkdir (Some fs) path)
    (spec_create (DirN []) (comps path) (fs_tree fs))"
  using exec_op_carries_out [of fs "MkdirOp path"] assms by simp

theorem mkdir_correct_witness:
  "carries_out blank_fs 0 [ascii ''d''] (fs_mkdir (Some blank_fs) (ascii ''/d/e'')) (Err NotFound)"
  using mkdir_correct [OF blank_fs_ok(1), of "ascii ''/d/e''"] blank_fs_ok(2)
  by (simp add: path_ok_def ascii_def comps_def SLASH_def spec_create_def)

text \<open>
  C6. \<^verbatim>\<open>fs::remove_file\<close> removes the named file and nothing else, rejects a directory with \<^verbatim>\<open>IsDirectory\<close> and a
  missing name with \<^verbatim>\<open>NotFound\<close>. Removing still writes the directories on the path anew, so it may
  fail with \<^verbatim>\<open>NoSpace\<close> on a full disk, exactly when they do not fit.
\<close>

theorem remove_file_correct:
  assumes "fs_ok fs"
  shows "carries_out fs 0 (butlast (comps path)) (fs_remove_file (Some fs) path)
    (spec_remove_file (comps path) (fs_tree fs))"
  using exec_op_carries_out [of fs "RemoveOp path"] assms by simp

theorem remove_file_correct_witness:
  "carries_out blank_fs 0 [] (fs_remove_file (Some blank_fs) (ascii ''a'')) (Err NotFound)"
  using remove_file_correct [OF blank_fs_ok(1), of "ascii ''a''"] blank_fs_ok(2)
  by (simp add: ascii_def comps_def SLASH_def spec_remove_file_def)

text \<open>
  C7. \<^verbatim>\<open>fs::remove_directory\<close> removes the named directory only when it is empty: otherwise it fails with
  \<^verbatim>\<open>DirectoryNotEmpty\<close>, and with \<^verbatim>\<open>IsFile\<close> on a file, leaving the tree as it was.
\<close>

theorem remove_directory_correct:
  assumes "fs_ok fs"
  shows "carries_out fs 0 (butlast (comps path)) (fs_remove_directory (Some fs) path)
    (spec_remove_directory (comps path) (fs_tree fs))"
  using exec_op_carries_out [of fs "RmdirOp path"] assms by simp

theorem remove_directory_correct_witness:
  "carries_out blank_fs 0 [] (fs_remove_directory (Some blank_fs) (ascii ''/'')) (Err InvalidPath)"
  using remove_directory_correct [OF blank_fs_ok(1), of "ascii ''/''"]
  by (simp add: ascii_def comps_def SLASH_def spec_remove_directory_def)

text \<open>
  C8. \<^verbatim>\<open>fs::read_file\<close>, \<^verbatim>\<open>fs::list_files\<close> and \<^verbatim>\<open>fs::ensure_directory\<close> return, for every path, what the tree
  holds there (with the error of the first component that is missing or not a directory) and change
  nothing.
\<close>

theorem queries_correct:
  assumes "fs_ok fs"
  shows "fs_read_file (Some fs) path = (spec_read (comps path) (fs_tree fs), Some fs) \<and>
    fs_list_files (Some fs) (Some path) = (spec_list (comps path) (fs_tree fs), Some fs) \<and>
    fs_list_files (Some fs) None = (Ok (map label (fs_tree fs)), Some fs) \<and>
    fs_ensure_directory (Some fs) path = (and_then (tree_dir (fs_tree fs) (comps path)) (\<lambda>_. Ok ()), Some fs)"
  using list_directory_spec [OF assms, of "[]"] comps_not_empty [of "[]"]
  by (simp add: fs_read_file_def fs_list_files_def fs_ensure_directory_def with_fs_def read_file_spec [OF assms]
      list_directory_spec [OF assms] ensure_directory_spec [OF assms] spec_list_def comps_def)

theorem queries_correct_witness:
  "fs_read_file (Some blank_fs) (ascii ''/x/y'') = (Err NotFound, Some blank_fs) \<and>
   fs_list_files (Some blank_fs) None = (Ok [], Some blank_fs)"
  using queries_correct [OF blank_fs_ok(1), of "ascii ''/x/y''"] blank_fs_ok(2)
  by (simp add: ascii_def comps_def SLASH_def spec_read_def)


text \<open>
  C2. Round trip through the disk: after \<^verbatim>\<open>fs::write_file\<close> has succeeded, the file reads back as the bytes
  written, every path that does not lead through it reads as before, and remounting the disk gives
  the very same file system.
\<close>

theorem write_then_read:
  assumes "fs_ok fs" and "path_ok path" and "length data < 4294967296"
    and "fs_write_file (Some fs) path data = (Ok (), g)"
  shows "fs_read_file g path = (Ok data, g) \<and>
    (\<forall>q. \<not> prefix (comps path) (comps q) \<longrightarrow> fst (fs_read_file g q) = fst (fs_read_file (Some fs) q)) \<and>
    (\<exists>fs'. g = Some fs' \<and> mount (device fs') = (Ok (), fs'))"
proof -
  have "op_ok (WriteOp path data)" using assms(2,3) by simp
  from assms(1) this show ?thesis
  proof (cases rule: exec_op_step)
    case (success fs')
    with assms(4) have g: "g = Some fs'" and t: "spec_write (comps path) data (fs_tree fs) = Ok (fs_tree fs')"
      by simp_all
    from spec_write_read [OF t] success(2,4) assms(1) show ?thesis
      by (simp add: g fs_read_file_def with_fs_def read_file_spec)
  next
    case (failure e fs')
    then show ?thesis using assms(4) by simp
  qed
qed

theorem write_then_read_witness:
  "fs_read_file (snd (fs_write_file (Some blank_fs) (ascii ''/a'') [1, 2, 3])) (ascii ''/a'') =
     (Ok [1, 2, 3], snd (fs_write_file (Some blank_fs) (ascii ''/a'') [1, 2, 3]))"
proof -
  have p: "path_ok (ascii ''/a'')" "comps (ascii ''/a'') = [ascii ''a'']"
    by (simp_all add: path_ok_def ascii_def comps_def SLASH_def)
  have "carries_out blank_fs 1 [] (fs_write_file (Some blank_fs) (ascii ''/a'') [1, 2, 3])
      (Ok [(ascii ''a'', FileN [1, 2, 3])])"
    using exec_op_carries_out [OF blank_fs_ok(1), of "WriteOp (ascii ''/a'') [1, 2, 3]"] p blank_fs_ok(2)
    by (simp add: spec_write_def div_ceil_def ascii_def)
  then obtain g where "fs_write_file (Some blank_fs) (ascii ''/a'') [1, 2, 3] = (Ok (), g)"
    using blank_fs_ok(4,5) by (auto simp: carries_out_def fits_def)
  with write_then_read [OF blank_fs_ok(1) p(1) _ this] show ?thesis by simp
qed

text \<open>
  C3. Sequences: any sequence of writes, creations and removals started on a well-formed file system
  ends, without a panic, in a well-formed one whose tree is the one obtained by running the
  specifications of those operations that reported success; reading every path then returns what
  that tree holds.
\<close>

theorem operations_replay:
  assumes "fs_ok fs" and "\<forall>p \<in> set ps. op_ok p"
  shows "\<exists>rs fs' t. exec_ops ps (Some fs) = (rs, Some fs') \<and> fs_ok fs' \<and>
    replay ps rs (fs_tree fs) = Ok t \<and> (\<forall>q. fst (fs_read_file (Some fs') q) = spec_read (comps q) t)"
  using exec_ops_replay [OF assms] by (auto simp: fs_read_file_def with_fs_def read_file_spec)

theorem operations_replay_witness:
  "\<exists>rs fs' t. exec_ops [MkdirOp (ascii ''d''), WriteOp (ascii ''d/f'') [1], RmdirOp (ascii ''d'')] (Some blank_fs) =
       (rs, Some fs') \<and> fs_ok fs' \<and>
     replay [MkdirOp (ascii ''d''), WriteOp (ascii ''d/f'') [1], RmdirOp (ascii ''d'')] rs [] = Ok t"
proof -
  have "\<forall>p \<in> set [MkdirOp (ascii ''d''), WriteOp (ascii ''d/f'') [1], RmdirOp (ascii ''d'')]. op_ok p"
    by (simp add: path_ok_def ascii_def)
  from operations_replay [OF blank_fs_ok(1) this] show ?thesis unfolding blank_fs_ok(2) by blast
qed

text \<open>
  C9. Mounting: a disk whose first sector does not hold the magic number and version is formatted to an
  empty file system, in which two blocks are in use; \<^verbatim>\<open>fs::format\<close> does the same to a mounted disk. Both
  leave a disk that mounts to that state again.
\<close>

theorem fresh_disk_empty:
  assumes "dev_ok d" and "2 \<le> unat (total_blocks d)" and "unat (total_blocks d) \<le> 4194304"
    and "magic (parse_superblock (sectors d 0)) \<noteq> MAGIC \<or> version (parse_superblock (sectors d 0)) \<noteq> VERSION"
  shows "\<exists>fs. fs_init (Ok d) None = (Ok (), Some fs) \<and> fs_ok fs \<and> fs_tree fs = [] \<and> nfree fs = 2 \<and>
    mount (device fs) = (Ok (), fs) \<and>
    (\<exists>fs'. fs_format (Some fs) = (Ok (), Some fs') \<and> fs_ok fs' \<and> fs_tree fs' = [] \<and> mount (device fs') = (Ok (), fs'))"
proof -
  from mount_unformatted [OF assms] obtain fs where fs: "mount d = (Ok (), fs)" "fs_ok fs" "fs_tree fs = []"
      "synced fs" "nfree fs = 2" "ntotal fs = unat (total_blocks d)" by blast
  then have "dev_ok (device fs)" by (simp add: fs_ok_def fs_base_def)
  from format_disk_ok [OF this] fs(6) assms(2,3) obtain fs' where
    "format_disk fs = (Ok (), fs')" "fs_ok fs'" "fs_tree fs' = []" "synced fs'" by auto
  with fs mount_synced [OF fs(2,4)] mount_synced [of fs'] show ?thesis
    by (simp add: fs_init_def fs_format_def with_fs_def)
qed

theorem fresh_disk_empty_witness:
  "\<exists>fs. fs_init (Ok blank_disk) None = (Ok (), Some fs) \<and> fs_ok fs \<and> fs_tree fs = []"
  using fresh_disk_empty [OF blank_disk_ok(1)] blank_disk_ok(2,3) by auto


text \<open>
  C10. Disk formats: the superblock, a directory file and the root directory block decode to what was
  encoded, for every superblock and every list of entries with well-formed names (for the root
  block, of at most eleven).
\<close>

theorem disk_format_roundtrip:
  assumes "\<forall>e \<in> set es. name_ok (e_name e)"
  shows "parse_superblock (superblock_bytes sb) = sb \<and>
    collect_entries (chunks DIR_ENTRY_SIZE (write_entries 0 (replicate (length es * DIR_ENTRY_SIZE) 0) es)) = es \<and>
    (length es \<le> MAX_FILES \<longrightarrow>
       List.map_filter deserialize_entry
         (take MAX_FILES (chunks DIR_ENTRY_SIZE (write_entries 0 (replicate BLOCK_SIZE 0) es))) = es)"
  using decode_directory [OF assms] decode_root_block [OF assms] by (simp add: parse_superblock_bytes)

theorem disk_format_roundtrip_witness:
  "collect_entries (chunks 44 (write_entries 0 (replicate 44 0)
     [\<lparr>e_name = ascii ''a'', e_start_block = 2, e_length = 513, e_kind = File\<rparr>])) =
   [\<lparr>e_name = ascii ''a'', e_start_block = 2, e_length = 513, e_kind = File\<rparr>]"
  using disk_format_roundtrip [of "[\<lparr>e_name = ascii ''a'', e_start_block = 2, e_length = 513, e_kind = File\<rparr>]"]
  by (simp add: name_ok_def ascii_def SLASH_def)

text \<open>
  A name is stored up to its first NUL byte only: an entry of at most 32 bytes, which every creating
  operation accepts, decodes to the entry with the shortened name, and disappears when the name
  starts with NUL. (A path the kernel accepts may contain NUL; the name checks only look at the
  length.)
\<close>

theorem nul_in_name_cuts_it:
  assumes "length buf = DIR_ENTRY_SIZE" and "e_name e = a @ 0 # b" and "0 \<notin> set a" and "valid_utf8 a"
    and "length (e_name e) \<le> NAME_LEN"
  shows "deserialize_entry (write_entry buf e) = (if a = [] then None else Some (e\<lparr>e_name := a\<rparr>))"
proof -
  have "takeWhile (\<lambda>b. b \<noteq> 0) (e_name e) = a" using assms(2,3) by (auto simp: takeWhile_append)
  with deserialize_enc_cut [of e] assms show ?thesis by (simp add: write_entry_enc)
qed

theorem nul_in_name_cuts_it_witness:
  "deserialize_entry (write_entry (replicate 44 0)
     \<lparr>e_name = [97, 0, 98], e_start_block = 0, e_length = 0, e_kind = File\<rparr>) =
   Some \<lparr>e_name = [97], e_start_block = 0, e_length = 0, e_kind = File\<rparr>"
  using nul_in_name_cuts_it [of "replicate 44 0"
      "\<lparr>e_name = [97, 0, 98], e_start_block = 0, e_length = 0, e_kind = File\<rparr>" "[97]" "[98]"]
  by simp

end
