(* ===== verification/Pipe.thy ===== *)
theory Pipe
  imports Fs
begin

text \<open>
  The ring buffer of a pipe, struct \<^verbatim>\<open>Pipe\<close> of \<^verbatim>\<open>src/fd.rs\<close>: its positions, the two copy
  loops, and the lists of waiting processes. A ring buffer refines a bounded queue of bytes; the
  queue is stated as a locale, and what holds of every interleaving of reads and writes is proved
  there.
\<close>

section \<open>Bounded queues\<close>

datatype 'b queue_op = Put "'b list" | Get nat

text \<open>A run collects what was accepted and what was delivered.\<close>

fun run_ops ::
  "('s \<Rightarrow> 'b list \<Rightarrow> nat \<times> 's) \<Rightarrow> ('s \<Rightarrow> nat \<Rightarrow> 'b list \<times> 's) \<Rightarrow> 'b queue_op list \<Rightarrow> 's \<Rightarrow>
    'b list \<times> 'b list \<times> 's" where
  "run_ops put get [] s = ([], [], s)"
| "run_ops put get (Put xs # ops) s =
     (case put s xs of (n, s1) \<Rightarrow> case run_ops put get ops s1 of (acc, del, s2) \<Rightarrow> (take n xs @ acc, del, s2))"
| "run_ops put get (Get n # ops) s =
     (case get s n of (ys, s1) \<Rightarrow> case run_ops put get ops s1 of (acc, del, s2) \<Rightarrow> (acc, ys @ del, s2))"

locale bounded_queue =
  fixes inv :: "'s \<Rightarrow> bool"
    and contents :: "'s \<Rightarrow> 'b list"
    and capacity :: nat
    and put :: "'s \<Rightarrow> 'b list \<Rightarrow> nat \<times> 's"
    and get :: "'s \<Rightarrow> nat \<Rightarrow> 'b list \<times> 's"
  assumes bounded: "inv s \<Longrightarrow> length (contents s) \<le> capacity"
    and put_law: "inv s \<Longrightarrow> \<exists>s'. put s xs = (min (length xs) (capacity - length (contents s)), s') \<and> inv s' \<and>
      contents s' = contents s @ take (capacity - length (contents s)) xs"
    and get_law: "inv s \<Longrightarrow> \<exists>s'. get s n = (take n (contents s), s') \<and> inv s' \<and>
      contents s' = drop n (contents s)"
begin

lemma fifo:
  "inv s \<Longrightarrow> run_ops put get ops s = (acc, del, s') \<Longrightarrow>
   inv s' \<and> contents s @ acc = del @ contents s' \<and> length (contents s') \<le> capacity"
proof (induction ops arbitrary: s acc del s')
  case Nil
  then show ?case using bounded by simp
next
  case (Cons op ops)
  show ?case
  proof (cases op)
    case (Put xs)
    from put_law [OF Cons.prems(1), of xs] obtain s1 where s1:
      "put s xs = (min (length xs) (capacity - length (contents s)), s1)" "inv s1"
      "contents s1 = contents s @ take (capacity - length (contents s)) xs" by blast
    obtain acc1 del1 s2 where r: "run_ops put get ops s1 = (acc1, del1, s2)" by (metis prod_cases3)
    have t: "take (min (length xs) (capacity - length (contents s))) xs = take (capacity - length (contents s)) xs"
      by (simp add: min_def)
    from Cons.IH [OF s1(2) r] Cons.prems(2) Put s1(1,3) r t show ?thesis by auto
  next
    case (Get n)
    from get_law [OF Cons.prems(1), of n] obtain s1 where s1:
      "get s n = (take n (contents s), s1)" "inv s1" "contents s1 = drop n (contents s)" by blast
    obtain acc1 del1 s2 where r: "run_ops put get ops s1 = (acc1, del1, s2)" by (metis prod_cases3)
    from Cons.prems(2) Get s1(1) r have acc: "acc = acc1" "del = take n (contents s) @ del1" "s' = s2" by auto
    have "contents s @ acc1 = take n (contents s) @ (contents s1 @ acc1)" unfolding s1(3) by simp
    with Cons.IH [OF s1(2) r] show ?thesis unfolding acc by simp
  qed
qed

text \<open>Writing a message and then reading that much from an empty queue gives the message back.\<close>

lemma put_then_get:
  assumes "inv s" and "contents s = []" and "length xs \<le> capacity" and "put s xs = (n, s1)"
  shows "n = length xs \<and> fst (get s1 (length xs)) = xs"
  using put_law [OF assms(1), of xs] get_law [of s1 "length xs"] assms by auto

end

section \<open>The ring buffer\<close>

type_synonym Pid = nat

datatype FdError = BadFd | TooManyOpen | FdNotFound | NotImplemented | WouldBlock | BrokenPipe | FdFs FsError

definition PIPE_BUF_SIZE :: nat where "PIPE_BUF_SIZE = 4096"

record Pipe =
  buffer :: bytes
  read_pos :: nat
  write_pos :: nat
  read_end_open :: bool
  write_end_open :: bool
  read_refcount :: nat
  write_refcount :: nat
  waiting_readers :: "Pid list"
  waiting_writers :: "Pid list"

definition pipe_new :: Pipe where
  "pipe_new = \<lparr>buffer = replicate PIPE_BUF_SIZE 0, read_pos = 0, write_pos = 0,
     read_end_open = True, write_end_open = True, read_refcount = 1, write_refcount = 1,
     waiting_readers = [], waiting_writers = []\<rparr>"

definition available :: "Pipe \<Rightarrow> nat" where
  "available p =
     (if read_pos p \<le> write_pos p then write_pos p - read_pos p
      else PIPE_BUF_SIZE - read_pos p + write_pos p)"

definition space_available :: "Pipe \<Rightarrow> nat" where
  "space_available p = PIPE_BUF_SIZE - available p - 1"

text \<open>The copy loops; \<open>i\<close> is \<^verbatim>\<open>bytes_read\<close> or \<^verbatim>\<open>bytes_written\<close>.\<close>

function read_bytes :: "nat \<Rightarrow> nat \<Rightarrow> Pipe \<Rightarrow> bytes \<Rightarrow> Pipe \<times> bytes" where
  "read_bytes to_read i p buf =
     (if i < to_read
      then read_bytes to_read (Suc i) (p\<lparr>read_pos := (read_pos p + 1) mod PIPE_BUF_SIZE\<rparr>)
             (buf[i := buffer p ! read_pos p])
      else (p, buf))"
  by pat_completeness auto
termination
  by (relation "measure (\<lambda>(n, i, _). n - i)") auto

function write_bytes :: "nat \<Rightarrow> nat \<Rightarrow> Pipe \<Rightarrow> bytes \<Rightarrow> Pipe" where
  "write_bytes to_write i p buf =
     (if i < to_write
      then write_bytes to_write (Suc i)
             (p\<lparr>buffer := (buffer p)[write_pos p := buf ! i],
                write_pos := (write_pos p + 1) mod PIPE_BUF_SIZE\<rparr>) buf
      else p)"
  by pat_completeness auto
termination
  by (relation "measure (\<lambda>(n, i, _). n - i)") auto

declare read_bytes.simps [simp del] write_bytes.simps [simp del]

text \<open>\<^verbatim>\<open>Pipe::read\<close> fills the caller's buffer, which is part of the state it returns.\<close>

definition pipe_read :: "Pipe \<Rightarrow> bytes \<Rightarrow> (nat, FdError) outcome \<times> Pipe \<times> bytes" where
  "pipe_read p buf =
     (if available p = 0
      then (if write_end_open p then (Err WouldBlock, p, buf) else (Ok 0, p, buf))
      else let to_read = min (length buf) (available p) in (Ok to_read, read_bytes to_read 0 p buf))"

definition pipe_write :: "Pipe \<Rightarrow> bytes \<Rightarrow> (nat, FdError) outcome \<times> Pipe" where
  "pipe_write p buf =
     (if \<not> read_end_open p then (Err BrokenPipe, p)
      else if space_available p = 0 then (Err WouldBlock, p)
      else let to_write = min (length buf) (space_available p) in (Ok to_write, write_bytes to_write 0 p buf))"

definition pipe_mark_reader_waiting :: "Pid \<Rightarrow> Pipe \<Rightarrow> Pipe" where
  "pipe_mark_reader_waiting pid p =
     (if pid \<notin> set (waiting_readers p) then p\<lparr>waiting_readers := waiting_readers p @ [pid]\<rparr> else p)"

definition pipe_mark_writer_waiting :: "Pid \<Rightarrow> Pipe \<Rightarrow> Pipe" where
  "pipe_mark_writer_waiting pid p =
     (if pid \<notin> set (waiting_writers p) then p\<lparr>waiting_writers := waiting_writers p @ [pid]\<rparr> else p)"


section \<open>Refinement\<close>

lemmas pipe_consts [simp] = PIPE_BUF_SIZE_def

text \<open>
  Both positions stay below the size of the buffer, which never changes, so no access of the loops
  is out of bounds and no subtraction underflows.
\<close>

definition pipe_wf :: "Pipe \<Rightarrow> bool" where
  "pipe_wf p \<longleftrightarrow> length (buffer p) = PIPE_BUF_SIZE \<and> read_pos p < PIPE_BUF_SIZE \<and> write_pos p < PIPE_BUF_SIZE"

definition pipe_contents :: "Pipe \<Rightarrow> bytes" where
  "pipe_contents p = map (\<lambda>j. buffer p ! ((read_pos p + j) mod PIPE_BUF_SIZE)) [0..<available p]"

lemma pipe_new_wf: "pipe_wf pipe_new" "pipe_contents pipe_new = []"
  by (simp_all add: pipe_new_def pipe_wf_def pipe_contents_def available_def)

lemma length_pipe_contents [simp]: "length (pipe_contents p) = available p"
  by (simp add: pipe_contents_def)

lemma available_less: "pipe_wf p \<Longrightarrow> available p < 4096"
  by (auto simp: pipe_wf_def available_def)

lemma space_available_eq: "pipe_wf p \<Longrightarrow> space_available p = 4095 - available p"
  using available_less [of p] by (simp add: space_available_def)

lemma write_pos_eq: "pipe_wf p \<Longrightarrow> write_pos p = (read_pos p + available p) mod 4096"
  by (auto simp: pipe_wf_def available_def mod_if)

text \<open>One step of each loop.\<close>

lemma take_one:
  assumes wf: "pipe_wf p" and av: "0 < available p"
  shows "pipe_wf (p\<lparr>read_pos := Suc (read_pos p) mod 4096\<rparr>)"
    and "available (p\<lparr>read_pos := Suc (read_pos p) mod 4096\<rparr>) = available p - 1"
    and "pipe_contents p = buffer p ! read_pos p # pipe_contents (p\<lparr>read_pos := Suc (read_pos p) mod 4096\<rparr>)"
proof -
  let ?q = "p\<lparr>read_pos := Suc (read_pos p) mod 4096\<rparr>"
  show w: "pipe_wf ?q" using wf by (simp add: pipe_wf_def)
  show a: "available ?q = available p - 1"
    using wf av by (auto simp: pipe_wf_def available_def mod_if)
  have r: "read_pos p < 4096" using wf by (simp add: pipe_wf_def)
  have "[0..<available p] = 0 # map Suc [0..<available p - 1]"
    using av by (simp add: map_Suc_upt upt_conv_Cons)
  then show "pipe_contents p = buffer p ! read_pos p # pipe_contents ?q"
    unfolding pipe_contents_def a using r by (simp add: mod_add_left_eq comp_def)
qed

lemma put_one:
  assumes wf: "pipe_wf p" and av: "available p < 4095"
  shows "pipe_wf (p\<lparr>buffer := (buffer p)[write_pos p := b], write_pos := Suc (write_pos p) mod 4096\<rparr>)"
    and "available (p\<lparr>buffer := (buffer p)[write_pos p := b], write_pos := Suc (write_pos p) mod 4096\<rparr>) = available p + 1"
    and "pipe_contents (p\<lparr>buffer := (buffer p)[write_pos p := b], write_pos := Suc (write_pos p) mod 4096\<rparr>) =
      pipe_contents p @ [b]"
proof -
  let ?q = "p\<lparr>buffer := (buffer p)[write_pos p := b], write_pos := Suc (write_pos p) mod 4096\<rparr>"
  show "pipe_wf ?q" using wf by (simp add: pipe_wf_def)
  show a: "available ?q = available p + 1"
    using wf av by (auto simp: pipe_wf_def available_def mod_if split: if_splits)
  have wp: "write_pos p < 4096" "length (buffer p) = 4096" and rp: "read_pos p < 4096"
    using wf by (simp_all add: pipe_wf_def)
  have other: "(read_pos p + j) mod 4096 \<noteq> write_pos p" if "j < available p" for j
    using that wf rp wp av unfolding pipe_wf_def available_def by (auto simp: mod_if split: if_splits)
  show "pipe_contents ?q = pipe_contents p @ [b]"
    unfolding pipe_contents_def a using other [THEN not_sym] wp by (auto simp: write_pos_eq [OF wf, symmetric] nth_list_update_neq)
qed

text \<open>What the loops leave alone.\<close>

definition same_ends :: "Pipe \<Rightarrow> Pipe \<Rightarrow> bool" where
  "same_ends p q \<longleftrightarrow> read_end_open q = read_end_open p \<and> write_end_open q = write_end_open p \<and>
     read_refcount q = read_refcount p \<and> write_refcount q = write_refcount p \<and>
     waiting_readers q = waiting_readers p \<and> waiting_writers q = waiting_writers p"

lemma read_bytes_spec:
  "pipe_wf p \<Longrightarrow> i \<le> n \<Longrightarrow> n \<le> length buf \<Longrightarrow> n - i \<le> available p \<Longrightarrow>
   \<exists>q. read_bytes n i p buf = (q, take i buf @ take (n - i) (pipe_contents p) @ drop n buf) \<and> pipe_wf q \<and>
     pipe_contents q = drop (n - i) (pipe_contents p) \<and> same_ends p q"
proof (induction n i p buf rule: read_bytes.induct)
  case (1 n i p buf)
  show ?case
  proof (cases "i < n")
    case False
    then show ?thesis using 1 by (auto simp: read_bytes.simps [of n] same_ends_def)
  next
    case True
    have av: "0 < available p" using 1 True by simp
    let ?p = "p\<lparr>read_pos := Suc (read_pos p) mod 4096\<rparr>" and ?b = "buf[i := buffer p ! read_pos p]"
    note t = take_one [OF "1.prems"(1) av]
    obtain k where k: "n - i = Suc k" "n - Suc i = k" using True by (metis Suc_diff_Suc)
    have "\<exists>q. read_bytes n (Suc i) ?p ?b = (q, take (Suc i) ?b @ take (n - Suc i) (pipe_contents ?p) @ drop n ?b) \<and>
        pipe_wf q \<and> pipe_contents q = drop (n - Suc i) (pipe_contents ?p) \<and> same_ends ?p q"
      using "1.IH" [OF True] t(1,2) "1.prems" True k by simp
    then obtain q where q:
      "read_bytes n (Suc i) ?p ?b = (q, take (Suc i) ?b @ take k (pipe_contents ?p) @ drop n ?b)"
      "pipe_wf q" "pipe_contents q = drop k (pipe_contents ?p)" "same_ends ?p q"
      unfolding k(2) by blast
    have "take (Suc i) ?b = take i buf @ [buffer p ! read_pos p]"
      using True "1.prems" by (simp add: take_Suc_conv_app_nth)
    with q k t(3) True show ?thesis
      by (simp add: read_bytes.simps [of n i] same_ends_def)
  qed
qed

lemma write_bytes_spec:
  "pipe_wf p \<Longrightarrow> i \<le> n \<Longrightarrow> n \<le> length buf \<Longrightarrow> available p + (n - i) \<le> 4095 \<Longrightarrow>
   pipe_wf (write_bytes n i p buf) \<and>
   pipe_contents (write_bytes n i p buf) = pipe_contents p @ drop i (take n buf) \<and>
   same_ends p (write_bytes n i p buf)"
proof (induction n i p buf rule: write_bytes.induct)
  case (1 n i p buf)
  show ?case
  proof (cases "i < n")
    case False
    then show ?thesis using 1 by (simp add: write_bytes.simps [of n] same_ends_def)
  next
    case True
    have av: "available p < 4095" using 1 True by simp
    note t = put_one [OF "1.prems"(1) av, of "buf ! i"]
    have "drop i (take n buf) = buf ! i # drop (Suc i) (take n buf)"
      using True "1.prems" by (simp add: Cons_nth_drop_Suc [symmetric])
    with "1.IH" [OF True] t "1.prems" True show ?thesis
      by (simp add: write_bytes.simps [of n i] same_ends_def)
  qed
qed


lemma pipe_read_spec:
  assumes wf: "pipe_wf p"
  shows "pipe_contents p = [] \<Longrightarrow> write_end_open p \<Longrightarrow> pipe_read p buf = (Err WouldBlock, p, buf)"
    and "pipe_contents p = [] \<Longrightarrow> \<not> write_end_open p \<Longrightarrow> pipe_read p buf = (Ok 0, p, buf)"
    and "pipe_contents p \<noteq> [] \<Longrightarrow> \<exists>q. pipe_read p buf =
      (Ok (min (length buf) (length (pipe_contents p))), q,
       take (length buf) (pipe_contents p) @ drop (length (pipe_contents p)) buf) \<and>
      pipe_wf q \<and> pipe_contents q = drop (length buf) (pipe_contents p) \<and> same_ends p q"
proof -
  have e: "pipe_contents p = [] \<longleftrightarrow> available p = 0" by (simp flip: length_0_conv)
  show "pipe_contents p = [] \<Longrightarrow> write_end_open p \<Longrightarrow> pipe_read p buf = (Err WouldBlock, p, buf)"
    and "pipe_contents p = [] \<Longrightarrow> \<not> write_end_open p \<Longrightarrow> pipe_read p buf = (Ok 0, p, buf)"
    by (simp_all add: e pipe_read_def)
  let ?n = "min (length buf) (available p)"
  assume "pipe_contents p \<noteq> []"
  then have "pipe_read p buf = (Ok ?n, read_bytes ?n 0 p buf)" by (simp add: e pipe_read_def Let_def)
  moreover from read_bytes_spec [OF wf, of 0 ?n buf] obtain q where q:
    "read_bytes ?n 0 p buf = (q, take ?n (pipe_contents p) @ drop ?n buf)" "pipe_wf q"
    "pipe_contents q = drop ?n (pipe_contents p)" "same_ends p q" by auto
  moreover have "take ?n (pipe_contents p) = take (length buf) (pipe_contents p)"
    "drop ?n (pipe_contents p) = drop (length buf) (pipe_contents p)" "drop ?n buf = drop (available p) buf"
    by (simp_all add: min_def)
  ultimately show "\<exists>q. pipe_read p buf = (Ok (min (length buf) (length (pipe_contents p))), q,
      take (length buf) (pipe_contents p) @ drop (length (pipe_contents p)) buf) \<and> pipe_wf q \<and>
      pipe_contents q = drop (length buf) (pipe_contents p) \<and> same_ends p q"
    by simp
qed

lemma pipe_write_spec:
  assumes wf: "pipe_wf p" and room: "length (pipe_contents p) < 4095" and op: "read_end_open p"
  shows "\<exists>q. pipe_write p buf = (Ok (min (length buf) (4095 - length (pipe_contents p))), q) \<and> pipe_wf q \<and>
    pipe_contents q = pipe_contents p @ take (4095 - length (pipe_contents p)) buf \<and> same_ends p q"
proof -
  let ?n = "min (length buf) (4095 - available p)"
  have "pipe_write p buf = (Ok ?n, write_bytes ?n 0 p buf)"
    using room op by (simp add: pipe_write_def Let_def space_available_eq [OF wf])
  moreover have "take ?n buf = take (4095 - available p) buf" by (simp add: min_def)
  ultimately show ?thesis
    using write_bytes_spec [OF wf, of 0 ?n buf] room by (auto simp: min_def)
qed

lemma pipe_write_refused:
  assumes "pipe_wf p"
  shows "\<not> read_end_open p \<Longrightarrow> pipe_write p buf = (Err BrokenPipe, p)"
    and "read_end_open p \<Longrightarrow> length (pipe_contents p) = 4095 \<Longrightarrow> pipe_write p buf = (Err WouldBlock, p)"
  by (simp_all add: pipe_write_def space_available_eq [OF assms])

text \<open>The pipe as a queue: a refused write accepts nothing, an empty pipe delivers nothing.\<close>

definition pipe_put :: "Pipe \<Rightarrow> bytes \<Rightarrow> nat \<times> Pipe" where
  "pipe_put p xs = (case pipe_write p xs of (Ok n, q) \<Rightarrow> (n, q) | (_, q) \<Rightarrow> (0, q))"

definition pipe_get :: "Pipe \<Rightarrow> nat \<Rightarrow> bytes \<times> Pipe" where
  "pipe_get p n = (case pipe_read p (replicate n 0) of (Ok k, q, buf) \<Rightarrow> (take k buf, q) | (_, q, _) \<Rightarrow> ([], q))"

interpretation ring: bounded_queue "\<lambda>p. pipe_wf p \<and> read_end_open p" pipe_contents 4095 pipe_put pipe_get
proof unfold_locales
  fix p :: Pipe and xs :: bytes and n
  assume i: "pipe_wf p \<and> read_end_open p"
  show bound: "length (pipe_contents p) \<le> 4095" using available_less [of p] i by simp
  show "\<exists>q. pipe_put p xs = (min (length xs) (4095 - length (pipe_contents p)), q) \<and>
      (pipe_wf q \<and> read_end_open q) \<and> pipe_contents q = pipe_contents p @ take (4095 - length (pipe_contents p)) xs"
  proof (cases "length (pipe_contents p) = 4095")
    case True
    then show ?thesis using i pipe_write_refused(2) [of p xs] by (simp add: pipe_put_def)
  next
    case False
    then show ?thesis
      using i bound pipe_write_spec [of p xs] by (auto simp: pipe_put_def same_ends_def)
  qed
  show "\<exists>q. pipe_get p n = (take n (pipe_contents p), q) \<and> (pipe_wf q \<and> read_end_open q) \<and>
      pipe_contents q = drop n (pipe_contents p)"
  proof (cases "pipe_contents p = []")
    case True
    then show ?thesis using i pipe_read_spec(1,2) [of p "replicate n 0"] by (cases "write_end_open p") (auto simp: pipe_get_def)
  next
    case False
    then show ?thesis
      using i pipe_read_spec(3) [of p "replicate n 0"] by (auto simp: pipe_get_def same_ends_def min_def)
  qed
qed

section \<open>Properties\<close>

text \<open>
  C16. \<^verbatim>\<open>Pipe::read\<close> and \<^verbatim>\<open>Pipe::write\<close>, on every branch. Reading an empty pipe would block while the write end is
  open and is the end of file otherwise; otherwise it moves the oldest bytes, as many as fit, to the
  front of the caller's buffer. Writing fails when the read end is closed, would block when 4095
  bytes are pending, and otherwise appends as many bytes as there is room for. The ring never loses
  its shape, and the reference counts and waiting lists are not touched.
\<close>

theorem pipe_operations:
  assumes "pipe_wf p"
  shows "(case pipe_read p buf of (r, q, buf') \<Rightarrow>
      pipe_wf q \<and> same_ends p q \<and>
      (if pipe_contents p = []
       then q = p \<and> buf' = buf \<and> r = (if write_end_open p then Err WouldBlock else Ok 0)
       else r = Ok (min (length buf) (length (pipe_contents p))) \<and>
         buf' = take (length buf) (pipe_contents p) @ drop (length (pipe_contents p)) buf \<and>
         pipe_contents q = drop (length buf) (pipe_contents p))) \<and>
    (case pipe_write p data of (r, q) \<Rightarrow>
      pipe_wf q \<and> same_ends p q \<and>
      (if \<not> read_end_open p then r = Err BrokenPipe \<and> q = p
       else if length (pipe_contents p) = 4095 then r = Err WouldBlock \<and> q = p
       else r = Ok (min (length data) (4095 - length (pipe_contents p))) \<and>
         pipe_contents q = pipe_contents p @ take (4095 - length (pipe_contents p)) data))"
    (is "?R \<and> ?W")
proof
  show ?R
    using pipe_read_spec [OF assms, of buf] assms
    by (cases "pipe_contents p = []"; cases "write_end_open p") (auto simp: same_ends_def)
  have "length (pipe_contents p) < 4095" if "length (pipe_contents p) \<noteq> 4095"
    using that available_less [OF assms] by simp
  then show ?W
    using pipe_write_spec [OF assms, of data] pipe_write_refused [OF assms, of data] assms
    by (cases "read_end_open p"; cases "length (pipe_contents p) = 4095") (auto simp: same_ends_def)
qed

theorem pipe_operations_witness:
  "fst (pipe_read pipe_new [0, 0]) = Err WouldBlock \<and> fst (pipe_write pipe_new [1, 2, 3]) = Ok 3"
  using pipe_operations [OF pipe_new_wf(1), where buf = "[0, 0]" and data = "[1, 2, 3]"] pipe_new_wf(2)
    available_less [OF pipe_new_wf(1)]
  by (auto simp: pipe_new_def available_def split: prod.splits)

text \<open>
  C15. A pipe is a queue: over any sequence of writes and reads, of any sizes, the bytes delivered followed
  by the bytes still in the ring are the bytes accepted, in order; none is lost, duplicated or
  reordered, and at most 4095 are pending.
\<close>

theorem pipe_fifo:
  assumes "run_ops pipe_put pipe_get ops pipe_new = (accepted, delivered, p)"
  shows "accepted = delivered @ pipe_contents p \<and> length (pipe_contents p) \<le> 4095"
  using ring.fifo [OF _ assms] pipe_new_wf by (simp add: pipe_new_def)

theorem pipe_fifo_witness:
  "\<exists>accepted delivered p. run_ops pipe_put pipe_get [Put [1, 2, 3], Get 2, Put [4], Get 9] pipe_new =
     (accepted, delivered, p) \<and> accepted = delivered @ pipe_contents p"
proof -
  obtain accepted delivered p where
    r: "run_ops pipe_put pipe_get [Put [1, 2, 3], Get 2, Put [4], Get 9] pipe_new = (accepted, delivered, p)"
    by (metis prod_cases3)
  from pipe_fifo [OF this] r show ?thesis by blast
qed

end
