(* ===== verification/Elf.thy ===== *)
theory Elf
  imports Prelude
begin

text \<open>
  The ELF reader, \<^verbatim>\<open>src/elf.rs\<close>: the file header and the program headers as the code decodes them
  from bytes, and \<^verbatim>\<open>ElfFile::parse\<close>. Offsets are \<^verbatim>\<open>usize\<close>; the one addition of untrusted values panics
  when it overflows. The writer at the end is the specification the reader is compared with.
\<close>

section \<open>Data\<close>

definition ELF_MAGIC :: bytes where "ELF_MAGIC = [0x7F, 0x45, 0x4C, 0x46]"
definition ELF_CLASS_64 :: u8 where "ELF_CLASS_64 = 2"
definition ELF_DATA_LSB :: u8 where "ELF_DATA_LSB = 1"
definition ELF_VERSION :: u8 where "ELF_VERSION = 1"
definition PT_LOAD :: u32 where "PT_LOAD = 1"

lemmas elf_consts [simp] = ELF_MAGIC_def ELF_CLASS_64_def ELF_DATA_LSB_def ELF_VERSION_def PT_LOAD_def

datatype ElfError =
  BadMagic | UnsupportedClass | UnsupportedEncoding | UnsupportedVersion | Truncated | UnsupportedType

record Segment =
  sg_vaddr :: u64
  sg_mem_size :: u64
  sg_file_size :: u64
  sg_file_offset :: u64
  sg_align :: u64
  sg_flags :: u32

record ElfFile =
  ef_entry :: u64
  ef_segments :: "Segment list"
  ef_data :: bytes

record Elf64Header =
  eh_ident :: bytes
  eh_type :: u16
  eh_machine :: u16
  eh_version :: u32
  eh_entry :: u64
  eh_phoff :: u64
  eh_shoff :: u64
  eh_flags :: u32
  eh_ehsize :: u16
  eh_phentsize :: u16
  eh_phnum :: u16
  eh_shentsize :: u16
  eh_shnum :: u16
  eh_shstrndx :: u16

record Elf64ProgramHeader =
  ph_type :: u32
  ph_flags :: u32
  ph_offset :: u64
  ph_vaddr :: u64
  ph_paddr :: u64
  ph_filesz :: u64
  ph_memsz :: u64
  ph_align :: u64

section \<open>Reading\<close>

definition header_try_from :: "bytes \<Rightarrow> (Elf64Header, ElfError) outcome" where
  "header_try_from value =
     (let ident = slice 0 16 value in
      if slice 0 4 ident \<noteq> ELF_MAGIC then Err BadMagic
      else if ident ! 4 \<noteq> ELF_CLASS_64 then Err UnsupportedClass
      else if ident ! 5 \<noteq> ELF_DATA_LSB then Err UnsupportedEncoding
      else if ident ! 6 \<noteq> ELF_VERSION then Err UnsupportedVersion
      else Ok \<lparr>eh_ident = ident,
        eh_type = from_le_bytes (slice 16 2 value),
        eh_machine = from_le_bytes (slice 18 2 value),
        eh_version = from_le_bytes (slice 20 4 value),
        eh_entry = from_le_bytes (slice 24 8 value),
        eh_phoff = from_le_bytes (slice 32 8 value),
        eh_shoff = from_le_bytes (slice 40 8 value),
        eh_flags = from_le_bytes (slice 48 4 value),
        eh_ehsize = from_le_bytes (slice 52 2 value),
        eh_phentsize = from_le_bytes (slice 54 2 value),
        eh_phnum = from_le_bytes (slice 56 2 value),
        eh_shentsize = from_le_bytes (slice 58 2 value),
        eh_shnum = from_le_bytes (slice 60 2 value),
        eh_shstrndx = from_le_bytes (slice 62 2 value)\<rparr>)"

definition program_header_from :: "bytes \<Rightarrow> Elf64ProgramHeader" where
  "program_header_from value =
     \<lparr>ph_type = from_le_bytes (slice 0 4 value),
      ph_flags = from_le_bytes (slice 4 4 value),
      ph_offset = from_le_bytes (slice 8 8 value),
      ph_vaddr = from_le_bytes (slice 16 8 value),
      ph_paddr = from_le_bytes (slice 24 8 value),
      ph_filesz = from_le_bytes (slice 32 8 value),
      ph_memsz = from_le_bytes (slice 40 8 value),
      ph_align = from_le_bytes (slice 48 8 value)\<rparr>"

definition segment_of :: "Elf64ProgramHeader \<Rightarrow> Segment" where
  "segment_of ph =
     \<lparr>sg_vaddr = ph_vaddr ph, sg_mem_size = ph_memsz ph, sg_file_size = ph_filesz ph,
      sg_file_offset = ph_offset ph, sg_align = ph_align ph, sg_flags = ph_flags ph\<rparr>"

text \<open>The loop \<^verbatim>\<open>for idx in 0..phcount\<close>; slicing past the end of the file panics.\<close>

fun collect_segments :: "bytes \<Rightarrow> nat \<Rightarrow> nat \<Rightarrow> nat list \<Rightarrow> (Segment list, ElfError) outcome" where
  "collect_segments data phoff phentsize [] = Ok []"
| "collect_segments data phoff phentsize (idx # idxs) =
     (let start = phoff + idx * phentsize; stop = start + phentsize in
      if length data < stop then Panic
      else
        let ph = program_header_from (slice start phentsize data) in
        and_then (collect_segments data phoff phentsize idxs) (\<lambda>segments.
          Ok (if ph_type ph = PT_LOAD then segment_of ph # segments else segments)))"

definition elf_parse :: "bytes \<Rightarrow> (ElfFile, ElfError) outcome" where
  "elf_parse data =
     (if length data < 64 then Err Truncated
      else and_then (header_try_from (take 64 data)) (\<lambda>header.
        if unat (eh_phentsize header) \<noteq> 56 then Err UnsupportedVersion
        else
          let phoff = unat (eh_phoff header);
              phentsize = unat (eh_phentsize header);
              phcount = unat (eh_phnum header)
          in
          if 2 ^ 64 \<le> phoff + phcount * phentsize then Panic
          else if length data < phoff + phcount * phentsize then Err Truncated
          else and_then (collect_segments data phoff phentsize [0..<phcount]) (\<lambda>segments.
            Ok \<lparr>ef_entry = eh_entry header, ef_segments = segments, ef_data = data\<rparr>)))"

section \<open>What is read\<close>

definition program_header_at :: "bytes \<Rightarrow> nat \<Rightarrow> nat \<Rightarrow> Elf64ProgramHeader" where
  "program_header_at data phoff idx = program_header_from (slice (phoff + idx * 56) 56 data)"

lemma collect_segments_eq:
  assumes "\<forall>idx \<in> set idxs. phoff + (idx + 1) * 56 \<le> length data"
  shows "collect_segments data phoff 56 idxs =
    Ok (map segment_of (filter (\<lambda>ph. ph_type ph = PT_LOAD) (map (program_header_at data phoff) idxs)))"
  using assms by (induction idxs) (auto simp: program_header_at_def Let_def)

lemma table_bound:
  assumes "idx < phnum" and "phoff + phnum * 56 \<le> (n::nat)"
  shows "phoff + (idx + 1) * 56 \<le> n"
proof -
  have "(idx + 1) * 56 \<le> phnum * 56" using assms(1) by (intro mult_le_mono1) simp
  with assms(2) show ?thesis by linarith
qed

section \<open>Writing\<close>

definition header_bytes :: "u64 \<Rightarrow> u16 \<Rightarrow> bytes" where
  "header_bytes entry phnum =
     ELF_MAGIC @ [ELF_CLASS_64, ELF_DATA_LSB, ELF_VERSION] @ replicate 9 0
     @ to_le_bytes 2 (2 :: u16) @ to_le_bytes 2 (243 :: u16) @ to_le_bytes 4 (1 :: u32)
     @ to_le_bytes 8 entry @ to_le_bytes 8 (64 :: u64) @ to_le_bytes 8 (0 :: u64) @ to_le_bytes 4 (0 :: u32)
     @ to_le_bytes 2 (64 :: u16) @ to_le_bytes 2 (56 :: u16) @ to_le_bytes 2 phnum
     @ to_le_bytes 2 (64 :: u16) @ to_le_bytes 2 (0 :: u16) @ to_le_bytes 2 (0 :: u16)"

definition program_header_bytes :: "Elf64ProgramHeader \<Rightarrow> bytes" where
  "program_header_bytes ph =
     to_le_bytes 4 (ph_type ph) @ to_le_bytes 4 (ph_flags ph) @ to_le_bytes 8 (ph_offset ph)
     @ to_le_bytes 8 (ph_vaddr ph) @ to_le_bytes 8 (ph_paddr ph) @ to_le_bytes 8 (ph_filesz ph)
     @ to_le_bytes 8 (ph_memsz ph) @ to_le_bytes 8 (ph_align ph)"

definition elf_image :: "u64 \<Rightarrow> Elf64ProgramHeader list \<Rightarrow> bytes \<Rightarrow> bytes" where
  "elf_image entry phs payload =
     header_bytes entry (word_of_nat (length phs)) @ concat (map program_header_bytes phs) @ payload"

lemma length_header_bytes [simp]: "length (header_bytes e n) = 64"
  by (simp add: header_bytes_def)

lemma length_program_header_bytes [simp]: "length (program_header_bytes ph) = 56"
  by (simp add: program_header_bytes_def)

lemma length_program_header_table: "length (concat (map program_header_bytes phs)) = length phs * 56"
  by (induction phs) simp_all

lemma program_header_roundtrip: "program_header_from (program_header_bytes ph) = ph"
  by (simp add: program_header_from_def program_header_bytes_def slice_def from_to_le_bytes)

lemma header_roundtrip:
  "\<exists>h. header_try_from (header_bytes e n) = Ok h \<and> eh_entry h = e \<and> eh_phoff h = 64 \<and>
     eh_phentsize h = 56 \<and> eh_phnum h = n"
  by (simp add: header_try_from_def header_bytes_def slice_def from_to_le_bytes Let_def nth_append)

lemma slice_table:
  assumes "i < length phs"
  shows "slice (i * 56) 56 (concat (map program_header_bytes phs) @ ys) = program_header_bytes (phs ! i)"
  using assms
proof (induction phs arbitrary: i)
  case (Cons ph phs)
  then show ?case by (cases i) (simp_all add: slice_def)
qed simp

lemma program_header_at_image:
  assumes "i < length phs"
  shows "program_header_at (elf_image e phs payload) 64 i = phs ! i"
proof -
  have "slice (64 + i * 56) 56 (elf_image e phs payload) =
      slice (i * 56) 56 (concat (map program_header_bytes phs) @ payload)"
    by (simp add: elf_image_def slice_def)
  with slice_table [OF assms, of payload] program_header_roundtrip show ?thesis
    by (simp add: program_header_at_def)
qed

section \<open>Properties\<close>

text \<open>
  The format, over the bytes of a file: the identification of a 64-bit little-endian file, with program
  headers of the size the kernel knows; where the table of program headers starts, how many it has,
  and where it ends.
\<close>

definition elf_ident_ok :: "bytes \<Rightarrow> bool" where
  "elf_ident_ok data \<longleftrightarrow> take 4 data = [0x7F, 0x45, 0x4C, 0x46] \<and> data ! 4 = 2 \<and> data ! 5 = 1 \<and> data ! 6 = 1 \<and>
     from_le_bytes (slice 54 2 data) = (56 :: u16)"

definition elf_table_start :: "bytes \<Rightarrow> nat" where
  "elf_table_start data = unat (from_le_bytes (slice 32 8 data) :: u64)"

definition elf_table_count :: "bytes \<Rightarrow> nat" where
  "elf_table_count data = unat (from_le_bytes (slice 56 2 data) :: u16)"

definition elf_table_end :: "bytes \<Rightarrow> nat" where
  "elf_table_end data = elf_table_start data + elf_table_count data * 56"

lemma slice_take: "a + n \<le> m \<Longrightarrow> slice a n (take m xs) = slice a n xs"
  by (simp add: slice_def drop_take min_def)

lemma header_try_from_eq:
  assumes "64 \<le> length data"
  shows "take 4 data \<noteq> [0x7F, 0x45, 0x4C, 0x46] \<Longrightarrow> header_try_from (take 64 data) = Err BadMagic"
    and "take 4 data = [0x7F, 0x45, 0x4C, 0x46] \<Longrightarrow> header_try_from (take 64 data) =
      (if data ! 4 \<noteq> 2 then Err UnsupportedClass else if data ! 5 \<noteq> 1 then Err UnsupportedEncoding
       else if data ! 6 \<noteq> 1 then Err UnsupportedVersion else header_try_from (take 64 data))"
    and "take 4 data = [0x7F, 0x45, 0x4C, 0x46] \<Longrightarrow> data ! 4 = 2 \<Longrightarrow> data ! 5 = 1 \<Longrightarrow> data ! 6 = 1 \<Longrightarrow>
      \<exists>h. header_try_from (take 64 data) = Ok h \<and> eh_entry h = from_le_bytes (slice 24 8 data) \<and>
        eh_phoff h = from_le_bytes (slice 32 8 data) \<and> eh_phentsize h = from_le_bytes (slice 54 2 data) \<and>
        eh_phnum h = from_le_bytes (slice 56 2 data)"
proof -
  have s: "slice 0 4 (slice 0 16 (take 64 data)) = take 4 data" by (simp add: slice_def)
  have n: "slice 0 16 (take 64 data) ! i = data ! i" if "i < 16" for i using that assms by (simp add: slice_def)
  note eq = header_try_from_def [of "take 64 data", unfolded Let_def s n [of 4, simplified] n [of 5, simplified] n [of 6, simplified]
    elf_consts]
  show "take 4 data \<noteq> [0x7F, 0x45, 0x4C, 0x46] \<Longrightarrow> header_try_from (take 64 data) = Err BadMagic"
    by (simp add: eq)
  show "take 4 data = [0x7F, 0x45, 0x4C, 0x46] \<Longrightarrow> header_try_from (take 64 data) =
      (if data ! 4 \<noteq> 2 then Err UnsupportedClass else if data ! 5 \<noteq> 1 then Err UnsupportedEncoding
       else if data ! 6 \<noteq> 1 then Err UnsupportedVersion else header_try_from (take 64 data))"
    by (simp add: eq)
  show "\<exists>h. header_try_from (take 64 data) = Ok h \<and> eh_entry h = from_le_bytes (slice 24 8 data) \<and>
        eh_phoff h = from_le_bytes (slice 32 8 data) \<and> eh_phentsize h = from_le_bytes (slice 54 2 data) \<and>
        eh_phnum h = from_le_bytes (slice 56 2 data)"
    if "take 4 data = [0x7F, 0x45, 0x4C, 0x46]" "data ! 4 = 2" "data ! 5 = 1" "data ! 6 = 1"
    using that by (simp add: eq slice_take)
qed

lemma elf_parse_ident:
  assumes len: "64 \<le> length data" and id: "elf_ident_ok data"
  shows "elf_parse data =
    (if 2 ^ 64 \<le> elf_table_end data then Panic
     else if length data < elf_table_end data then Err Truncated
     else Ok \<lparr>ef_entry = from_le_bytes (slice 24 8 data),
       ef_segments = map segment_of (filter (\<lambda>ph. ph_type ph = 1)
         (map (program_header_at data (elf_table_start data)) [0..<elf_table_count data])),
       ef_data = data\<rparr>)"
proof -
  obtain h where h: "header_try_from (take 64 data) = Ok h" "eh_entry h = from_le_bytes (slice 24 8 data)"
    "unat (eh_phoff h) = elf_table_start data" "unat (eh_phentsize h) = 56" "unat (eh_phnum h) = elf_table_count data"
    using header_try_from_eq(3) [OF len] id by (auto simp: elf_ident_ok_def elf_table_start_def elf_table_count_def)
  have "collect_segments data (elf_table_start data) 56 [0..<elf_table_count data] =
        Ok (map segment_of (filter (\<lambda>ph. ph_type ph = 1)
          (map (program_header_at data (elf_table_start data)) [0..<elf_table_count data])))"
    if "elf_table_end data \<le> length data"
    using that collect_segments_eq [of "[0..<elf_table_count data]" "elf_table_start data" data]
    by (auto simp: elf_table_end_def dest: table_bound)
  with h len show ?thesis by (simp add: elf_parse_def Let_def elf_table_end_def)
qed

text \<open>
  C25. \<^verbatim>\<open>ElfFile::parse\<close> on an arbitrary file: each of its results, and exactly when it is the result. Five
  errors, in the order of the checks; a panic exactly when the end of the program header table does
  not fit in 64 bits; and otherwise the entry point of the header and the loadable segments among
  the program headers, in their order. It returns nothing else, in particular it never reads past
  the end of the file.
\<close>

theorem elf_parse_total:
  "(elf_parse data = Err BadMagic \<longleftrightarrow> 64 \<le> length data \<and> take 4 data \<noteq> [0x7F, 0x45, 0x4C, 0x46]) \<and>
   (elf_parse data = Err UnsupportedClass \<longleftrightarrow>
      64 \<le> length data \<and> take 4 data = [0x7F, 0x45, 0x4C, 0x46] \<and> data ! 4 \<noteq> 2) \<and>
   (elf_parse data = Err UnsupportedEncoding \<longleftrightarrow>
      64 \<le> length data \<and> take 4 data = [0x7F, 0x45, 0x4C, 0x46] \<and> data ! 4 = 2 \<and> data ! 5 \<noteq> 1) \<and>
   (elf_parse data = Err UnsupportedVersion \<longleftrightarrow>
      64 \<le> length data \<and> take 4 data = [0x7F, 0x45, 0x4C, 0x46] \<and> data ! 4 = 2 \<and> data ! 5 = 1 \<and>
      \<not> (data ! 6 = 1 \<and> from_le_bytes (slice 54 2 data) = (56 :: u16))) \<and>
   (elf_parse data = Err Truncated \<longleftrightarrow>
      length data < 64 \<or> elf_ident_ok data \<and> length data < elf_table_end data \<and> elf_table_end data < 2 ^ 64) \<and>
   (elf_parse data = Panic \<longleftrightarrow> 64 \<le> length data \<and> elf_ident_ok data \<and> 2 ^ 64 \<le> elf_table_end data) \<and>
   (\<forall>elf. elf_parse data = Ok elf \<longleftrightarrow>
      64 \<le> length data \<and> elf_ident_ok data \<and> elf_table_end data \<le> length data \<and> elf_table_end data < 2 ^ 64 \<and>
      elf = \<lparr>ef_entry = from_le_bytes (slice 24 8 data),
        ef_segments = map segment_of (filter (\<lambda>ph. ph_type ph = 1)
          (map (program_header_at data (elf_table_start data)) [0..<elf_table_count data])),
        ef_data = data\<rparr>) \<and>
   elf_parse data \<noteq> Err UnsupportedType \<and> elf_parse data \<noteq> Hang"
proof (cases "64 \<le> length data \<and> elf_ident_ok data")
  case True
  then have id: "take 4 data = [0x7F, 0x45, 0x4C, 0x46]" "data ! 4 = 2" "data ! 5 = 1" "data ! 6 = 1"
    "from_le_bytes (slice 54 2 data) = (56 :: u16)" by (simp_all add: elf_ident_ok_def)
  show ?thesis unfolding elf_parse_ident [OF conjunct1 [OF True] conjunct2 [OF True]]
    using True id by (auto simp: not_less)
next
  case bad: False
  show ?thesis
  proof (cases "64 \<le> length data")
    case False
    then show ?thesis using bad by (simp add: elf_parse_def)
  next
    case len: True
    with bad have no: "\<not> elf_ident_ok data" by simp
    note p = elf_parse_def [of data] header_try_from_eq(1,2) [OF len]
    consider "take 4 data \<noteq> [0x7F, 0x45, 0x4C, 0x46]"
      | "take 4 data = [0x7F, 0x45, 0x4C, 0x46]" "data ! 4 \<noteq> 2 \<or> data ! 5 \<noteq> 1 \<or> data ! 6 \<noteq> 1"
      | "take 4 data = [0x7F, 0x45, 0x4C, 0x46]" "data ! 4 = 2" "data ! 5 = 1" "data ! 6 = 1"
        "from_le_bytes (slice 54 2 data) \<noteq> (56 :: u16)" using no unfolding elf_ident_ok_def by blast
    then show ?thesis
    proof cases
      case 1
      then have "elf_parse data = Err BadMagic" using len p by simp
      with 1 len no show ?thesis by simp
    next
      case 2
      then have "elf_parse data = (if data ! 4 \<noteq> 2 then Err UnsupportedClass
          else if data ! 5 \<noteq> 1 then Err UnsupportedEncoding else Err UnsupportedVersion)"
        using len p(1,3) by (auto split: if_splits)
      with 2 len no show ?thesis by auto
    next
      case 3
      then obtain h where "header_try_from (take 64 data) = Ok h" "unat (eh_phentsize h) \<noteq> 56"
        using header_try_from_eq(3) [OF len] by (auto simp: word_unat_eq_iff)
      then have "elf_parse data = Err UnsupportedVersion" using len p(1) by simp
      with 3 len no show ?thesis by simp
    qed
  qed
qed

lemma elf_parse_image:
  assumes "length phs < 65536"
  shows "elf_parse (elf_image entry phs payload) =
    Ok \<lparr>ef_entry = entry, ef_segments = map segment_of (filter (\<lambda>ph. ph_type ph = PT_LOAD) phs),
        ef_data = elf_image entry phs payload\<rparr>"
proof -
  let ?img = "elf_image entry phs payload" and ?n = "word_of_nat (length phs) :: u16"
  have n: "unat ?n = length phs" using assms by (simp add: unat_of_nat take_bit_eq_mod)
  have len: "length ?img = 64 + length phs * 56 + length payload"
    by (simp add: elf_image_def length_program_header_table)
  have "take 64 ?img = header_bytes entry ?n" by (simp add: elf_image_def)
  with header_roundtrip [of entry ?n] obtain h where h: "header_try_from (take 64 ?img) = Ok h"
    "eh_entry h = entry" "eh_phoff h = 64" "eh_phentsize h = 56" "eh_phnum h = ?n" by auto
  have "map (program_header_at ?img 64) [0..<length phs] = phs"
    by (rule nth_equalityI) (simp_all add: program_header_at_image)
  with collect_segments_eq [of "[0..<length phs]" 64 ?img] len
  have "collect_segments ?img 64 56 [0..<length phs] =
      Ok (map segment_of (filter (\<lambda>ph. ph_type ph = PT_LOAD) phs))"
    by (auto dest: table_bound [of _ "length phs" 64 "64 + length phs * 56 + length payload"])
  with h n len assms show ?thesis by (simp add: elf_parse_def Let_def)
qed

text \<open>
  C26. Round trip: the executable written for an entry point, a table of fewer than 65536 program headers
  and any payload parses to that entry point and the loadable ones among those headers.
\<close>

theorem elf_roundtrip:
  assumes "length phs < 65536"
  shows "elf_parse (elf_image entry phs payload) =
    Ok \<lparr>ef_entry = entry, ef_segments = map segment_of (filter (\<lambda>ph. ph_type ph = PT_LOAD) phs),
        ef_data = elf_image entry phs payload\<rparr>"
  using assms by (rule elf_parse_image)

theorem elf_roundtrip_witness:
  "elf_parse (elf_image 0x10000
     [\<lparr>ph_type = 1, ph_flags = 5, ph_offset = 120, ph_vaddr = 0x10000, ph_paddr = 0, ph_filesz = 2, ph_memsz = 4, ph_align = 1\<rparr>,
      \<lparr>ph_type = 2, ph_flags = 0, ph_offset = 0, ph_vaddr = 0, ph_paddr = 0, ph_filesz = 0, ph_memsz = 0, ph_align = 0\<rparr>]
     [7, 8]) =
   Ok \<lparr>ef_entry = 0x10000,
     ef_segments = [\<lparr>sg_vaddr = 0x10000, sg_mem_size = 4, sg_file_size = 2, sg_file_offset = 120, sg_align = 1, sg_flags = 5\<rparr>],
     ef_data = elf_image 0x10000
       [\<lparr>ph_type = 1, ph_flags = 5, ph_offset = 120, ph_vaddr = 0x10000, ph_paddr = 0, ph_filesz = 2, ph_memsz = 4, ph_align = 1\<rparr>,
        \<lparr>ph_type = 2, ph_flags = 0, ph_offset = 0, ph_vaddr = 0, ph_paddr = 0, ph_filesz = 0, ph_memsz = 0, ph_align = 0\<rparr>]
       [7, 8]\<rparr>"
  by (subst elf_roundtrip) (simp_all add: segment_of_def)

end
