(* ===== verification/RustStr.thy ===== *)
theory RustStr
  imports Utf8 "HOL-Library.Sublist"
begin

text \<open>
  The string functions of Rust's standard library that the kernel's own shell and the user shell
  call, on the UTF-8 bytes of a string: trimming, splitting at white space, joining, prefixes, and
  the decimal and hexadecimal forms of \<^verbatim>\<open>format!\<close>.
\<close>

section \<open>White space\<close>

text \<open>
  \<^verbatim>\<open>str::trim\<close>: the encodings of the characters with the property \<^verbatim>\<open>White_Space\<close> are taken off both ends.
\<close>

definition white_space :: "bytes list" where
  "white_space = [[9], [10], [11], [12], [13], [32], [0xC2, 0x85], [0xC2, 0xA0], [0xE1, 0x9A, 0x80]] @
     map (\<lambda>b. [0xE2, 0x80, b]) [0x80, 0x81, 0x82, 0x83, 0x84, 0x85, 0x86, 0x87, 0x88, 0x89, 0x8A, 0xA8, 0xA9, 0xAF] @
     [[0xE2, 0x81, 0x9F], [0xE3, 0x80, 0x80]]"

function strip :: "bytes list \<Rightarrow> bytes \<Rightarrow> bytes" where
  "strip ws bs = (case find (\<lambda>w. w \<noteq> [] \<and> prefix w bs) ws of Some w \<Rightarrow> strip ws (drop (length w) bs) | None \<Rightarrow> bs)"
  by pat_completeness auto
termination
proof (relation "measure (\<lambda>(_, bs). length bs)", goal_cases)
  case (2 ws bs w)
  then have "w \<noteq> []" "prefix w bs" by (auto simp: find_Some_iff)
  then show ?case by (cases w) (auto simp: prefix_def)
qed simp

declare strip.simps [simp del]

definition trim_start :: "bytes \<Rightarrow> bytes" where
  "trim_start bs = strip white_space bs"

definition trim :: "bytes \<Rightarrow> bytes" where
  "trim bs = rev (strip (map rev white_space) (rev (strip white_space bs)))"

text \<open>\<^verbatim>\<open>char::is_ascii_whitespace\<close>, and the nonempty pieces \<^verbatim>\<open>split_ascii_whitespace\<close> yields.\<close>

definition is_ascii_whitespace :: "u8 \<Rightarrow> bool" where
  "is_ascii_whitespace b \<longleftrightarrow> b = 32 \<or> b = 9 \<or> b = 10 \<or> b = 12 \<or> b = 13"

fun split_ws :: "bytes \<Rightarrow> bytes \<Rightarrow> bytes list" where
  "split_ws [] cur = (if cur = [] then [] else [cur])"
| "split_ws (b # bs) cur =
     (if is_ascii_whitespace b then (if cur = [] then split_ws bs [] else cur # split_ws bs [])
      else split_ws bs (cur @ [b]))"

definition split_ascii_whitespace :: "bytes \<Rightarrow> bytes list" where
  "split_ascii_whitespace bs = split_ws bs []"

section \<open>Joining and prefixes\<close>

fun join :: "bytes \<Rightarrow> bytes list \<Rightarrow> bytes" where
  "join sep [] = []"
| "join sep [x] = x"
| "join sep (x # y # ys) = x @ sep @ join sep (y # ys)"

definition starts_with :: "bytes \<Rightarrow> bytes \<Rightarrow> bool" where
  "starts_with p s \<longleftrightarrow> prefix p s"

definition strip_prefix :: "bytes \<Rightarrow> bytes \<Rightarrow> bytes option" where
  "strip_prefix p s = (if prefix p s then Some (drop (length p) s) else None)"

section \<open>Numbers\<close>

text \<open>\<^verbatim>\<open>{}\<close> and \<^verbatim>\<open>{:x}\<close>.\<close>

definition numeral_digit :: "nat \<Rightarrow> u8" where
  "numeral_digit d = (if d < 10 then 48 + word_of_nat d else 87 + word_of_nat d)"

function show_base :: "nat \<Rightarrow> nat \<Rightarrow> bytes" where
  "show_base b n =
     (if b < 2 \<or> n < b then [numeral_digit n] else show_base b (n div b) @ [numeral_digit (n mod b)])"
  by pat_completeness auto
termination
  by (relation "measure snd") (auto intro: div_less_dividend)

declare show_base.simps [simp del]

definition show_nat :: "nat \<Rightarrow> bytes" where "show_nat n = show_base 10 n"
definition show_hex :: "nat \<Rightarrow> bytes" where "show_hex n = show_base 16 n"

definition show_int :: "int \<Rightarrow> bytes" where
  "show_int i = (if i < 0 then 45 # show_nat (nat (- i)) else show_nat (nat i))"

section \<open>Splitting undoes joining\<close>

lemma split_on_join:
  assumes "\<And>x. x \<in> set xs \<Longrightarrow> c \<notin> set x" and "xs \<noteq> []"
  shows "split_on c (join [c] xs) = xs"
  using assms
proof (induction "[c]" xs rule: join.induct)
  case (3 x y ys)
  then show ?case by (simp add: split_on_append_sep)
qed (simp_all add: split_on_id)

lemma split_ws_word:
  "\<forall>b \<in> set w. \<not> is_ascii_whitespace b \<Longrightarrow> split_ws (w @ bs) cur = split_ws bs (cur @ w)"
  by (induction w arbitrary: cur) simp_all

text \<open>Words joined by blanks are split into the same words.\<close>

lemma split_ascii_whitespace_join:
  assumes "\<And>w. w \<in> set ws \<Longrightarrow> w \<noteq> [] \<and> (\<forall>b \<in> set w. \<not> is_ascii_whitespace b)"
  shows "split_ascii_whitespace (join [32] ws) = ws"
  using assms
proof (induction "[32] :: bytes" ws rule: join.induct)
  case (2 x)
  then show ?case using split_ws_word [of x "[]" "[]"] by (simp add: split_ascii_whitespace_def)
next
  case (3 x y ys)
  have "split_ws (join [32] (y # ys)) [] = y # ys"
    using "3.hyps" "3.prems" unfolding split_ascii_whitespace_def by (meson list.set_intros(2))
  moreover have "x \<noteq> []" "split_ws (x @ 32 # join [32] (y # ys)) [] = split_ws (32 # join [32] (y # ys)) x"
    using "3.prems" [of x] split_ws_word [of x _ "[]"] by simp_all
  moreover have "is_ascii_whitespace 32" by (simp add: is_ascii_whitespace_def)
  ultimately show ?case by (simp add: split_ascii_whitespace_def)
qed (simp add: split_ascii_whitespace_def)

end
