(* ===== verification/Loader.thy ===== *)
theory Loader
  imports Elf Fs RustStr
begin

text \<open>
  The program loader, \<^verbatim>\<open>src/process.rs\<close>: laying the segments of an executable out in the 128 KiB user
  window, copying them there, building the initial user stack, and saving and restoring the window.
  Memory is a function from addresses to bytes. What \<^verbatim>\<open>build_user_stack\<close> prints on its way is
  \<open>stack_notes\<close>; its callers send it to the console.
\<close>

section \<open>Memory\<close>

type_synonym mem = "nat \<Rightarrow> u8"

definition mem_write :: "nat \<Rightarrow> bytes \<Rightarrow> mem \<Rightarrow> mem" where
  "mem_write a bs m = (\<lambda>x. if a \<le> x \<and> x < a + length bs then bs ! (x - a) else m x)"

definition mem_read :: "nat \<Rightarrow> nat \<Rightarrow> mem \<Rightarrow> bytes" where
  "mem_read a n m = map m [a..<a + n]"

definition write_usize :: "nat \<Rightarrow> nat \<Rightarrow> mem \<Rightarrow> mem" where
  "write_usize a v m = mem_write a (to_le_bytes 8 (word_of_nat v :: u64)) m"

definition read_usize :: "nat \<Rightarrow> mem \<Rightarrow> nat" where
  "read_usize a m = unat (from_le_bytes (mem_read a 8 m) :: u64)"

lemma length_mem_read [simp]: "length (mem_read a n m) = n"
  by (simp add: mem_read_def)

lemma mem_read_0 [simp]: "mem_read a 0 m = []"
  by (simp add: mem_read_def)

lemma mem_read_add: "mem_read a (n + k) m = mem_read a n m @ mem_read (a + n) k m"
  using upt_add_eq_append [of a "a + n" k] by (simp add: mem_read_def add.assoc)

lemma mem_read_write_same [simp]: "mem_read a (length bs) (mem_write a bs m) = bs"
  by (rule nth_equalityI) (simp_all add: mem_read_def mem_write_def)

lemma mem_read_write_prefix: "n \<le> length bs \<Longrightarrow> mem_read a n (mem_write a bs m) = take n bs"
  by (rule nth_equalityI) (simp_all add: mem_read_def mem_write_def)

lemma mem_read_cong: "(\<And>x. a \<le> x \<Longrightarrow> x < a + n \<Longrightarrow> m x = m' x) \<Longrightarrow> mem_read a n m = mem_read a n m'"
  by (simp add: mem_read_def)

lemma mem_write_outside: "x < a \<or> a + length bs \<le> x \<Longrightarrow> mem_write a bs m x = m x"
  by (auto simp: mem_write_def)

lemma mem_write_Nil [simp]: "mem_write a [] m = m"
  by (auto simp: mem_write_def fun_eq_iff)

text \<open>A stack that grows downwards: writing just below a block puts the new bytes in front of it.\<close>

lemma mem_push:
  assumes "length bs \<le> sp"
  shows "mem_read (sp - length bs) (length bs + n) (mem_write (sp - length bs) bs m) = bs @ mem_read sp n m"
proof -
  have "mem_read sp n (mem_write (sp - length bs) bs m) = mem_read sp n m"
    by (rule mem_read_cong) (use assms in \<open>simp add: mem_write_outside\<close>)
  then show ?thesis using assms by (simp add: mem_read_add)
qed

lemma mem_read_slice: "i + k \<le> n \<Longrightarrow> mem_read (a + i) k m = slice i k (mem_read a n m)"
  by (simp add: mem_read_def slice_def drop_map take_map add.assoc)

lemma read_usize_le: "v < 2 ^ 64 \<Longrightarrow> mem_read a 8 m = to_le_bytes 8 (word_of_nat v :: u64) \<Longrightarrow> read_usize a m = v"
  by (simp add: read_usize_def from_to_le_bytes unat_of_nat take_bit_eq_mod)

section \<open>Constants and data\<close>

definition USER_IMAGE_BASE :: nat where "USER_IMAGE_BASE = 0x80400000"
definition USER_IMAGE_LIMIT :: nat where "USER_IMAGE_LIMIT = USER_IMAGE_BASE + 0x00020000"
definition USER_WINDOW_SIZE :: nat where "USER_WINDOW_SIZE = USER_IMAGE_LIMIT - USER_IMAGE_BASE"

lemmas window_consts = USER_IMAGE_BASE_def USER_IMAGE_LIMIT_def USER_WINDOW_SIZE_def

datatype LoadError = LoadFs FsError | LoadElf ElfError | OutOfMemory

record SegmentImage =
  si_dest :: nat
  si_data :: bytes
  si_flags :: u32

record LoadedProgram =
  lp_entry :: nat
  lp_stack_top :: nat
  lp_segments :: "SegmentImage list"

section \<open>Loading\<close>

text \<open>
  \<open>alloc_ok n\<close> tells whether the kernel's allocator, a library, can provide \<open>n\<close> bytes; when it
  cannot, the allocation panics.
\<close>

definition segment_data :: "(nat \<Rightarrow> bool) \<Rightarrow> bytes \<Rightarrow> Segment \<Rightarrow> (bytes, LoadError) outcome" where
  "segment_data alloc_ok file_data seg =
     (let mem_size = unat (sg_mem_size seg); file_size = unat (sg_file_size seg) in
      if \<not> alloc_ok mem_size then Panic
      else if 0 < file_size then
        let start = unat (sg_file_offset seg); stop = start + file_size in
        if 2 ^ 64 \<le> stop \<or> mem_size < file_size \<or> length file_data < stop then Panic
        else Ok (put_slice 0 (slice start file_size file_data) (replicate mem_size 0))
      else Ok (replicate mem_size 0))"

fun load_segments ::
  "(nat \<Rightarrow> bool) \<Rightarrow> bytes \<Rightarrow> nat \<Rightarrow> Segment list \<Rightarrow> (SegmentImage list, LoadError) outcome" where
  "load_segments alloc_ok file_data base_vaddr [] = Ok []"
| "load_segments alloc_ok file_data base_vaddr (seg # segs) =
     and_then (segment_data alloc_ok file_data seg) (\<lambda>data.
       let offset = unat (sg_vaddr seg) - base_vaddr;
           dest_addr = USER_IMAGE_BASE + offset;
           dest_end = dest_addr + length data
       in
       if 2 ^ 64 \<le> dest_addr \<or> 2 ^ 64 \<le> dest_end then Panic
       else if USER_IMAGE_LIMIT < dest_end then Err OutOfMemory
       else and_then (load_segments alloc_ok file_data base_vaddr segs) (\<lambda>images.
         Ok (\<lparr>si_dest = dest_addr, si_data = data, si_flags = sg_flags seg\<rparr> # images)))"

definition base_vaddr :: "ElfFile \<Rightarrow> nat" where
  "base_vaddr elf =
     (case ef_segments elf of
        [] \<Rightarrow> unat (ef_entry elf)
      | s # ss \<Rightarrow> min_list (map (\<lambda>seg. unat (sg_vaddr seg)) (s # ss)))"

definition load_elf :: "(nat \<Rightarrow> bool) \<Rightarrow> ElfFile \<Rightarrow> (LoadedProgram, LoadError) outcome" where
  "load_elf alloc_ok elf =
     and_then (load_segments alloc_ok (ef_data elf) (base_vaddr elf) (ef_segments elf)) (\<lambda>segments.
       let entry = USER_IMAGE_BASE + (unat (ef_entry elf) - base_vaddr elf) in
       if 2 ^ 64 \<le> entry then Panic
       else Ok \<lparr>lp_entry = entry, lp_stack_top = USER_IMAGE_LIMIT, lp_segments = segments\<rparr>)"

definition load :: "(nat \<Rightarrow> bool) \<Rightarrow> fs_instance \<Rightarrow> bytes \<Rightarrow> (LoadedProgram, LoadError) outcome \<times> fs_instance" where
  "load alloc_ok g path =
     (case fs_read_file g path of (r, g') \<Rightarrow>
        (and_then (map_err LoadFs r) (\<lambda>bytes.
         and_then (map_err LoadElf (elf_parse bytes)) (\<lambda>elf. load_elf alloc_ok elf)), g'))"

section \<open>The user window\<close>

fun copy_segments :: "SegmentImage list \<Rightarrow> mem \<Rightarrow> (unit, LoadError) outcome \<times> mem" where
  "copy_segments [] m = (Ok (), m)"
| "copy_segments (seg # segs) m =
     (let offset = si_dest seg - USER_IMAGE_BASE; stop = offset + length (si_data seg) in
      if 2 ^ 64 \<le> stop then (Panic, m)
      else if USER_WINDOW_SIZE < stop then (Err OutOfMemory, m)
      else copy_segments segs (mem_write (USER_IMAGE_BASE + offset) (si_data seg) m))"

definition load_into_user_window :: "LoadedProgram \<Rightarrow> mem \<Rightarrow> (unit, LoadError) outcome \<times> mem" where
  "load_into_user_window program m = copy_segments (lp_segments program) m"

text \<open>The first loop of \<^verbatim>\<open>build_user_stack\<close>, over the arguments from the last to the first.\<close>

fun push_args :: "(nat \<times> bytes) list \<Rightarrow> nat \<Rightarrow> nat list \<Rightarrow> mem \<Rightarrow> (nat \<times> nat list, LoadError) outcome \<times> mem" where
  "push_args [] sp arg_ptrs m = (Ok (sp, arg_ptrs), m)"
| "push_args ((index, arg) # rest) sp arg_ptrs m =
     (let sp = sp - (length arg + 1) in
      if sp < USER_IMAGE_BASE then (Err OutOfMemory, m)
      else push_args rest sp (arg_ptrs[index := sp])
             (mem_write (sp + length arg) [0] (mem_write sp arg m)))"

text \<open>The second loop, over the collected pointers from the last to the first.\<close>

fun push_ptrs :: "nat list \<Rightarrow> nat \<Rightarrow> mem \<Rightarrow> nat \<times> mem" where
  "push_ptrs [] sp m = (sp, m)"
| "push_ptrs (p # ps) sp m = (let sp = sp - 8 in push_ptrs ps sp (write_usize sp p m))"

definition build_user_stack :: "bytes list \<Rightarrow> mem \<Rightarrow> (nat \<times> nat \<times> nat, LoadError) outcome \<times> mem" where
  "build_user_stack args m =
     (let argc = length args in
      if 16 < argc then (Panic, m)
      else tryS (push_args (rev (zip [0..<argc] args)) USER_IMAGE_LIMIT (replicate 16 0) m) (\<lambda>(sp, arg_ptrs) m.
        let sp = sp - sp mod 16;
            (sp, m) = (if odd (argc + 2) then (sp - 8, write_usize (sp - 8) 0 m) else (sp, m));
            sp = sp - 8;
            m = write_usize sp 0 m;
            (sp, m) = push_ptrs (rev (take argc arg_ptrs)) sp m;
            argv_ptr = sp;
            sp = sp - 8;
            m = write_usize sp argc m
        in (Ok (sp, argc, argv_ptr), m)))"

text \<open>
  The lines \<^verbatim>\<open>build_user_stack\<close> prints: for every argument it has placed, for every pointer it has
  written, and before and after these.
\<close>

definition stack_note :: "bytes \<Rightarrow> bytes" where
  "stack_note t = ascii ''[build_user_stack] '' @ t @ [10]"

fun arg_notes :: "(nat \<times> bytes) list \<Rightarrow> nat \<Rightarrow> bytes list" where
  "arg_notes [] sp = []"
| "arg_notes ((index, arg) # rest) sp =
     (let sp = sp - (length arg + 1) in
      if sp < USER_IMAGE_BASE then []
      else stack_note (ascii ''arg['' @ show_nat index @ ascii '']='' @ [39] @ arg @ [39] @ ascii '' at 0x'' @ show_hex sp)
        # arg_notes rest sp)"

fun ptr_notes :: "nat list \<Rightarrow> nat \<Rightarrow> bytes list" where
  "ptr_notes [] sp = []"
| "ptr_notes (p # ps) sp =
     (let sp = sp - 8 in
      stack_note (ascii ''argv['' @ show_nat (length ps) @ ascii '']=0x'' @ show_hex p @ ascii '' written at sp=0x'' @ show_hex sp)
        # ptr_notes ps sp)"

definition stack_notes :: "bytes list \<Rightarrow> mem \<Rightarrow> bytes list" where
  "stack_notes args m =
     (let argc = length args; strings = rev (zip [0..<argc] args) in
      if 16 < argc then []
      else stack_note (ascii ''argc='' @ show_nat argc) # arg_notes strings USER_IMAGE_LIMIT @
        (case push_args strings USER_IMAGE_LIMIT (replicate 16 0) m of
           (Ok (sp, arg_ptrs), _) \<Rightarrow>
             let sp = sp - sp mod 16;
                 sp = (if odd (argc + 2) then sp - 8 else sp) - 8;
                 argv_ptr = sp - 8 * argc
             in stack_note (ascii ''writing argv array at sp=0x'' @ show_hex sp) #
                  ptr_notes (rev (take argc arg_ptrs)) sp @
                  [stack_note (ascii ''returning sp=0x'' @ show_hex (argv_ptr - 8) @ ascii '', argc='' @ show_nat argc @
                     ascii '', argv_ptr=0x'' @ show_hex argv_ptr)]
         | _ \<Rightarrow> []))"

text \<open>
  The window as a whole. The kernel keeps only images of its full size, so restoring never reads past
  the end of one.
\<close>

definition snapshot_user_window :: "mem \<Rightarrow> bytes" where
  "snapshot_user_window m = mem_read USER_IMAGE_BASE USER_WINDOW_SIZE m"

definition restore_user_window :: "bytes \<Rightarrow> mem \<Rightarrow> mem" where
  "restore_user_window buf m = mem_write USER_IMAGE_BASE (take USER_WINDOW_SIZE buf) m"


section \<open>Segments\<close>

text \<open>A segment that fits its file and its own memory size.\<close>

definition segment_ok :: "bytes \<Rightarrow> Segment \<Rightarrow> bool" where
  "segment_ok data seg \<longleftrightarrow>
     unat (sg_file_size seg) \<le> unat (sg_mem_size seg) \<and>
     (0 < unat (sg_file_size seg) \<longrightarrow> unat (sg_file_offset seg) + unat (sg_file_size seg) \<le> length data)"

text \<open>Its image: the bytes of the file, then zeros.\<close>

definition segment_image :: "bytes \<Rightarrow> Segment \<Rightarrow> bytes" where
  "segment_image data seg =
     slice (unat (sg_file_offset seg)) (unat (sg_file_size seg)) data
     @ replicate (unat (sg_mem_size seg) - unat (sg_file_size seg)) 0"

lemma length_segment_image:
  "segment_ok data seg \<Longrightarrow> length (segment_image data seg) = unat (sg_mem_size seg)"
  by (cases "unat (sg_file_size seg) = 0") (auto simp: segment_ok_def segment_image_def slice_def)

lemma segment_data_eq:
  assumes "segment_ok data seg" and "alloc_ok (unat (sg_mem_size seg))" and "length data < 2 ^ 64"
  shows "segment_data alloc_ok data seg = Ok (segment_image data seg)"
proof (cases "unat (sg_file_size seg) = 0")
  case True
  then show ?thesis using assms by (simp add: segment_data_def segment_image_def slice_def)
next
  case False
  with assms have "segment_data alloc_ok data seg =
      Ok (put_slice 0 (slice (unat (sg_file_offset seg)) (unat (sg_file_size seg)) data)
        (replicate (unat (sg_mem_size seg)) 0))"
    by (auto simp: segment_data_def segment_ok_def Let_def)
  moreover have "length (slice (unat (sg_file_offset seg)) (unat (sg_file_size seg)) data) = unat (sg_file_size seg)"
    using False assms(1) by (auto simp: slice_def segment_ok_def)
  ultimately show ?thesis by (simp add: segment_image_def put_slice_def)
qed

definition in_window :: "nat \<Rightarrow> Segment \<Rightarrow> bool" where
  "in_window base seg \<longleftrightarrow> unat (sg_vaddr seg) - base + unat (sg_mem_size seg) \<le> USER_WINDOW_SIZE"

definition image_of :: "bytes \<Rightarrow> nat \<Rightarrow> Segment \<Rightarrow> SegmentImage" where
  "image_of data base seg =
     \<lparr>si_dest = USER_IMAGE_BASE + (unat (sg_vaddr seg) - base), si_data = segment_image data seg,
      si_flags = sg_flags seg\<rparr>"

lemma load_segments_eq:
  assumes "length data < 2 ^ 64"
    and "\<forall>seg \<in> set segs. segment_ok data seg \<and> alloc_ok (unat (sg_mem_size seg)) \<and> in_window base seg"
  shows "load_segments alloc_ok data base segs = Ok (map (image_of data base) segs)"
  using assms(2)
proof (induction segs)
  case (Cons seg segs)
  have "unat (sg_vaddr seg) - base + unat (sg_mem_size seg) \<le> 131072"
    using Cons.prems by (simp add: in_window_def window_consts)
  then show ?case
    using Cons assms(1)
    by (simp add: segment_data_eq length_segment_image image_of_def Let_def window_consts)
qed simp

text \<open>What a successful load promises of its images, whatever the file.\<close>

lemma load_segments_inside:
  "load_segments alloc_ok data base segs = Ok images \<Longrightarrow>
   \<forall>im \<in> set images. USER_IMAGE_BASE \<le> si_dest im \<and> si_dest im + length (si_data im) \<le> USER_IMAGE_LIMIT"
proof (induction segs arbitrary: images)
  case (Cons seg segs)
  from Cons.prems obtain d ims where
    "\<not> USER_IMAGE_LIMIT < USER_IMAGE_BASE + (unat (sg_vaddr seg) - base) + length d"
    "load_segments alloc_ok data base segs = Ok ims"
    "images = \<lparr>si_dest = USER_IMAGE_BASE + (unat (sg_vaddr seg) - base), si_data = d, si_flags = sg_flags seg\<rparr> # ims"
    by (auto simp: outcome_simps Let_def split: if_splits)
  then show ?case using Cons.IH by simp
qed simp

lemma copy_segments_ok:
  "\<forall>im \<in> set ims. USER_IMAGE_BASE \<le> si_dest im \<and> si_dest im + length (si_data im) \<le> USER_IMAGE_LIMIT \<Longrightarrow>
   \<exists>m'. copy_segments ims m = (Ok (), m') \<and>
     (\<forall>x. x < USER_IMAGE_BASE \<or> USER_IMAGE_LIMIT \<le> x \<longrightarrow> m' x = m x)"
proof (induction ims arbitrary: m)
  case (Cons im ims)
  let ?m = "mem_write (si_dest im) (si_data im) m"
  from Cons obtain m' where "copy_segments ims ?m = (Ok (), m')"
    "\<forall>x. x < USER_IMAGE_BASE \<or> USER_IMAGE_LIMIT \<le> x \<longrightarrow> m' x = ?m x" by force
  moreover have "copy_segments (im # ims) m = copy_segments ims ?m"
    using Cons.prems by (auto simp: Let_def window_consts)
  ultimately show ?case using Cons.prems by (auto simp: mem_write_outside)
qed simp

definition disjoint_images :: "SegmentImage \<Rightarrow> SegmentImage \<Rightarrow> bool" where
  "disjoint_images a b \<longleftrightarrow>
     si_dest a + length (si_data a) \<le> si_dest b \<or> si_dest b + length (si_data b) \<le> si_dest a"

text \<open>Copying touches only the places of the segments.\<close>

lemma copy_segments_frame:
  "copy_segments ims m = (r, m') \<Longrightarrow>
   \<forall>im \<in> set ims. USER_IMAGE_BASE \<le> si_dest im \<and> (x < si_dest im \<or> si_dest im + length (si_data im) \<le> x) \<Longrightarrow>
   m' x = m x"
proof (induction ims arbitrary: m)
  case (Cons im ims)
  then show ?case by (auto simp: Let_def mem_write_outside split: if_splits)
qed simp

lemma copy_segments_contents:
  "\<forall>im \<in> set ims. USER_IMAGE_BASE \<le> si_dest im \<and> si_dest im + length (si_data im) \<le> USER_IMAGE_LIMIT \<Longrightarrow>
   pairwise disjoint_images (set ims) \<Longrightarrow> distinct ims \<Longrightarrow> copy_segments ims m = (Ok (), m') \<Longrightarrow> im \<in> set ims \<Longrightarrow>
   mem_read (si_dest im) (length (si_data im)) m' = si_data im"
proof (induction ims arbitrary: m)
  case (Cons a ims)
  let ?m = "mem_write (si_dest a) (si_data a) m"
  have step: "copy_segments ims ?m = (Ok (), m')"
    using Cons.prems(1,4) by (auto simp: Let_def window_consts split: if_splits)
  show ?case
  proof (cases "im = a")
    case False
    with Cons step show ?thesis by (auto simp: pairwise_insert)
  next
    case True
    have "m' x = ?m x" if x: "si_dest a \<le> x" "x < si_dest a + length (si_data a)" for x
    proof (rule copy_segments_frame [OF step], rule ballI)
      fix b assume b: "b \<in> set ims"
      with Cons.prems(2,3) have "disjoint_images a b" by (auto simp: pairwise_def)
      with b x Cons.prems(1) show "USER_IMAGE_BASE \<le> si_dest b \<and> (x < si_dest b \<or> si_dest b + length (si_data b) \<le> x)"
        by (auto simp: disjoint_images_def)
    qed
    then have "mem_read (si_dest a) (length (si_data a)) m' = mem_read (si_dest a) (length (si_data a)) ?m"
      by (rule mem_read_cong)
    then show ?thesis using True by simp
  qed
qed simp


section \<open>The initial stack\<close>

text \<open>The NUL-terminated arguments one after the other, and where each of them starts.\<close>

definition arg_block :: "bytes list \<Rightarrow> bytes" where
  "arg_block args = concat (map (\<lambda>a. a @ [0]) args)"

definition arg_addr :: "bytes list \<Rightarrow> nat \<Rightarrow> nat" where
  "arg_addr args i = USER_IMAGE_LIMIT - length (arg_block (drop i args))"

lemma arg_block_simps [simp]:
  "arg_block [] = []" "arg_block (a # as) = a @ 0 # arg_block as" "arg_block (as @ bs) = arg_block as @ arg_block bs"
  by (simp_all add: arg_block_def)

lemma length_arg_block_rev [simp]: "length (arg_block (rev xs)) = length (arg_block xs)"
  by (induction xs) simp_all

lemma push_one_arg:
  assumes "length arg + 1 \<le> sp"
  shows "mem_write (sp - (length arg + 1) + length arg) [0] (mem_write (sp - (length arg + 1)) arg m) =
    mem_write (sp - (length arg + 1)) (arg @ [0]) m"
  using assms by (auto simp: mem_write_def fun_eq_iff nth_append)

definition pushed_args ::
  "(nat \<times> bytes) list \<Rightarrow> nat \<Rightarrow> nat list \<Rightarrow> mem \<Rightarrow> nat list \<Rightarrow> mem \<Rightarrow> bool" where
  "pushed_args rs sp ptrs m ptrs' m' \<longleftrightarrow>
     (let l = length (arg_block (map snd rs)) in
      length ptrs' = length ptrs \<and>
      (\<forall>k < length rs. ptrs' ! fst (rs ! k) = sp - length (arg_block (map snd (take (Suc k) rs)))) \<and>
      (\<forall>j. j \<notin> fst ` set rs \<longrightarrow> ptrs' ! j = ptrs ! j) \<and>
      (\<forall>n. mem_read (sp - l) (l + n) m' = arg_block (rev (map snd rs)) @ mem_read sp n m) \<and>
      (\<forall>x. x < sp - l \<or> sp \<le> x \<longrightarrow> m' x = m x))"

lemma push_args_ok:
  "distinct (map fst rs) \<Longrightarrow> \<forall>i \<in> fst ` set rs. i < length ptrs \<Longrightarrow>
   USER_IMAGE_BASE + length (arg_block (map snd rs)) \<le> sp \<Longrightarrow>
   \<exists>ptrs' m'. push_args rs sp ptrs m = (Ok (sp - length (arg_block (map snd rs)), ptrs'), m') \<and>
     pushed_args rs sp ptrs m ptrs' m'"
proof (induction rs arbitrary: sp ptrs m)
  case Nil
  then show ?case by (simp add: pushed_args_def)
next
  case (Cons r rs)
  obtain i arg where r: "r = (i, arg)" by (cases r)
  let ?a = "length arg + 1" and ?l = "length (arg_block (map snd rs))"
  let ?m = "mem_write (sp - ?a) (arg @ [0]) m"
  have a: "?a \<le> sp" using Cons.prems(3) r by simp
  have base: "USER_IMAGE_BASE + ?l \<le> sp - ?a" using Cons.prems(3) r by simp
  with Cons.IH [of "ptrs[i := sp - ?a]" "sp - ?a" ?m] Cons.prems(1,2) obtain ptrs' m' where
    p: "push_args rs (sp - ?a) (ptrs[i := sp - ?a]) ?m = (Ok (sp - ?a - ?l, ptrs'), m')"
      "pushed_args rs (sp - ?a) (ptrs[i := sp - ?a]) ?m ptrs' m'" by auto
  have run: "push_args (r # rs) sp ptrs m = push_args rs (sp - ?a) (ptrs[i := sp - ?a]) ?m"
    using push_one_arg [OF a, of m] base r by (simp add: Let_def)
  from p(2) have q: "length ptrs' = length ptrs"
      "\<And>k. k < length rs \<Longrightarrow> ptrs' ! fst (rs ! k) = sp - ?a - length (arg_block (map snd (take (Suc k) rs)))"
      "\<And>j. j \<notin> fst ` set rs \<Longrightarrow> ptrs' ! j = ptrs[i := sp - ?a] ! j"
      "\<And>n. mem_read (sp - ?a - ?l) (?l + n) m' = arg_block (rev (map snd rs)) @ mem_read (sp - ?a) n ?m"
      "\<And>x. x < sp - ?a - ?l \<or> sp - ?a \<le> x \<Longrightarrow> m' x = ?m x"
    unfolding pushed_args_def Let_def by (auto simp del: One_nat_def)
  have i: "i \<notin> fst ` set rs" "i < length ptrs" using Cons.prems(1,2) r by auto
  have "ptrs' ! fst ((r # rs) ! k) = sp - length (arg_block (map snd (take (Suc k) (r # rs))))"
    if "k < length (r # rs)" for k
    using that q(2) q(3) [OF i(1)] i(2) r by (cases k) simp_all
  moreover have "ptrs' ! j = ptrs ! j" if "j \<notin> fst ` set (r # rs)" for j
    using that q(3) [of j] r by auto
  moreover have "mem_read (sp - (?a + ?l)) ((?a + ?l) + n) m' = arg_block (rev (map snd (r # rs))) @ mem_read sp n m" for n
    using q(4) [of "?a + n"] mem_push [of "arg @ [0]" sp n m] a r by (simp add: ac_simps)
  moreover have "m' x = m x" if "x < sp - (?a + ?l) \<or> sp \<le> x" for x
  proof -
    have "x < sp - ?a \<or> sp - ?a + length (arg @ [0]) \<le> x" "x < sp - ?a - ?l \<or> sp - ?a \<le> x"
      using that a by auto
    with q(5) show ?thesis by (simp only: mem_write_outside)
  qed
  ultimately have "pushed_args (r # rs) sp ptrs m ptrs' m'"
    using q(1) r by (simp add: pushed_args_def Let_def add.commute add.left_commute)
  with run p(1) r show ?case by simp
qed

lemma push_args_full:
  "sp < USER_IMAGE_BASE + length (arg_block (map snd rs)) \<Longrightarrow> USER_IMAGE_BASE \<le> sp \<Longrightarrow>
   \<exists>m'. push_args rs sp ptrs m = (Err OutOfMemory, m')"
proof (induction rs arbitrary: sp ptrs m)
  case (Cons r rs)
  obtain i arg where r: "r = (i, arg)" by (cases r)
  show ?case
  proof (cases "sp - (length arg + 1) < USER_IMAGE_BASE")
    case True
    then show ?thesis by (simp add: r Let_def)
  next
    case False
    with Cons.prems(1) r have "sp - (length arg + 1) < USER_IMAGE_BASE + length (arg_block (map snd rs))"
      by (simp add: window_consts)
    from Cons.IH [OF this] False r show ?thesis by (simp add: Let_def)
  qed
qed simp

lemma push_ptrs_ok:
  "8 * length ps \<le> sp \<Longrightarrow>
   fst (push_ptrs ps sp m) = sp - 8 * length ps \<and>
   mem_read (sp - 8 * length ps) (8 * length ps + n) (snd (push_ptrs ps sp m)) =
     concat (map (\<lambda>v. to_le_bytes 8 (word_of_nat v :: u64)) (rev ps)) @ mem_read sp n m \<and>
   (\<forall>x. x < sp - 8 * length ps \<or> sp \<le> x \<longrightarrow> snd (push_ptrs ps sp m) x = m x)"
proof (induction ps arbitrary: sp m n)
  case (Cons p ps)
  let ?m = "write_usize (sp - 8) p m"
  have sp: "8 \<le> sp" "8 * length ps \<le> sp - 8" using Cons.prems by simp_all
  have push: "mem_read (sp - 8) (8 + n) ?m = to_le_bytes 8 (word_of_nat p :: u64) @ mem_read sp n m"
    using mem_push [of "to_le_bytes 8 (word_of_nat p :: u64)" sp n m] sp by (simp add: write_usize_def)
  have out: "?m x = m x" if "x < sp - 8 * length (p # ps) \<or> sp \<le> x" for x
    unfolding write_usize_def by (rule mem_write_outside) (use that sp in auto)
  note IH = Cons.IH [OF sp(2), of ?m "8 + n"]
  have e: "sp - 8 - 8 * length ps = sp - 8 * length (p # ps)" "8 * length ps + (8 + n) = 8 * length (p # ps) + n"
    by simp_all
  have f: "push_ptrs (p # ps) sp m = push_ptrs ps (sp - 8) ?m" by (simp add: Let_def)
  show ?case
    using IH out unfolding e f push by auto
qed simp


lemma rev_enum:
  assumes "i < length args"
  shows "rev (zip [0..<length args] args) ! (length args - Suc i) = (i, args ! i)"
    and "map snd (take (Suc (length args - Suc i)) (rev (zip [0..<length args] args))) = rev (drop i args)"
proof -
  let ?xs = "zip [0..<length args] args"
  show "rev ?xs ! (length args - Suc i) = (i, args ! i)" using assms by (simp add: rev_nth)
  have "take (length args - i) (rev ?xs) = rev (drop i ?xs)" using assms by (simp add: take_rev)
  then show "map snd (take (Suc (length args - Suc i)) (rev ?xs)) = rev (drop i args)"
    using assms by (simp add: Suc_diff_Suc rev_map [symmetric] drop_map [symmetric])
qed

text \<open>The strings, and the pointers to them.\<close>

lemma push_all_args:
  assumes argc: "length args \<le> 16" and fit: "length (arg_block args) \<le> USER_WINDOW_SIZE"
  shows "\<exists>ptrs m'. push_args (rev (zip [0..<length args] args)) USER_IMAGE_LIMIT (replicate 16 0) m =
      (Ok (USER_IMAGE_LIMIT - length (arg_block args), ptrs), m') \<and>
    take (length args) ptrs = map (arg_addr args) [0..<length args] \<and>
    (\<forall>n. mem_read (USER_IMAGE_LIMIT - length (arg_block args)) (length (arg_block args) + n) m' =
       arg_block args @ mem_read USER_IMAGE_LIMIT n m) \<and>
    (\<forall>x. x < USER_IMAGE_LIMIT - length (arg_block args) \<or> USER_IMAGE_LIMIT \<le> x \<longrightarrow> m' x = m x)"
proof -
  let ?rs = "rev (zip [0..<length args] args)" let ?n = "length args"
  have snd: "map snd ?rs = rev args" by (simp add: rev_map [symmetric])
  have l: "length (arg_block (map snd ?rs)) = length (arg_block args)" unfolding snd by simp
  have "distinct (map fst ?rs)" by (simp add: rev_map [symmetric])
  moreover have "\<forall>i \<in> fst ` set ?rs. i < length (replicate 16 (0::nat))"
    using argc by (auto dest: set_zip_leftD)
  moreover have "USER_IMAGE_BASE + length (arg_block (map snd ?rs)) \<le> USER_IMAGE_LIMIT"
    using fit unfolding l by (simp add: window_consts)
  ultimately obtain ptrs m' where p: "push_args ?rs USER_IMAGE_LIMIT (replicate 16 0) m =
        (Ok (USER_IMAGE_LIMIT - length (arg_block (map snd ?rs)), ptrs), m')"
      "pushed_args ?rs USER_IMAGE_LIMIT (replicate 16 0) m ptrs m'"
    using push_args_ok by blast
  have ptr: "ptrs ! i = arg_addr args i" if "i < ?n" for i
  proof -
    have "?n - Suc i < length ?rs" using that by simp
    with p(2) have "ptrs ! fst (?rs ! (?n - Suc i)) =
        USER_IMAGE_LIMIT - length (arg_block (map snd (take (Suc (?n - Suc i)) ?rs)))"
      unfolding pushed_args_def Let_def by blast
    then show ?thesis unfolding rev_enum [OF that] by (simp add: arg_addr_def)
  qed
  have "length ptrs = 16" using p(2) by (simp add: pushed_args_def Let_def)
  with ptr argc have "take ?n ptrs = map (arg_addr args) [0..<?n]" by (intro nth_equalityI) simp_all
  with p show ?thesis unfolding pushed_args_def Let_def l unfolding snd rev_rev_ident by blast
qed

lemma push_usize:
  assumes "8 \<le> sp"
  shows "mem_read (sp - 8) (8 + n) (write_usize (sp - 8) v m) =
      to_le_bytes 8 (word_of_nat v :: u64) @ mem_read sp n m"
    and "x < sp - 8 \<or> sp \<le> x \<Longrightarrow> write_usize (sp - 8) v m x = m x"
  using mem_push [of "to_le_bytes 8 (word_of_nat v :: u64)" sp n m] assms
  by (auto simp: write_usize_def intro!: mem_write_outside)

abbreviation usizes :: "nat list \<Rightarrow> bytes" where
  "usizes vs \<equiv> concat (map (\<lambda>v. to_le_bytes 8 (word_of_nat v :: u64)) vs)"

lemma length_usizes: "length (usizes vs) = 8 * length vs"
  by (induction vs) simp_all

lemma read_usizes:
  assumes "mem_read a (8 * length vs + k) m = usizes vs @ rest" and "i < length vs" and "vs ! i < 2 ^ 64"
  shows "read_usize (a + 8 * i) m = vs ! i"
proof (rule read_usize_le [OF assms(3)])
  have "usizes vs = usizes (take i vs @ vs ! i # drop (Suc i) vs)"
    by (rule arg_cong [where f = "\<lambda>vs. usizes vs", OF id_take_nth_drop [OF assms(2)]])
  then have "usizes vs = usizes (take i vs) @ to_le_bytes 8 (word_of_nat (vs ! i) :: u64) @ usizes (drop (Suc i) vs)"
    by simp
  moreover have "length (usizes (take i vs)) = 8 * i" using assms(2) by (simp add: length_usizes)
  moreover have "mem_read (a + 8 * i) 8 m = slice (8 * i) 8 (usizes vs @ rest)"
    using mem_read_slice [of "8 * i" 8 "8 * length vs + k" a m] assms(1,2) by simp
  ultimately show "mem_read (a + 8 * i) 8 m = to_le_bytes 8 (word_of_nat (vs ! i) :: u64)"
    by (simp add: slice_def)
qed

text \<open>
  The finished stack, from its top: the argument count, the argument vector and its terminator, one
  word of padding when their number is odd, the gap left by the alignment, and the strings.
\<close>

definition stack_words :: "bytes list \<Rightarrow> nat list" where
  "stack_words args =
     length args # map (arg_addr args) [0..<length args] @ [0] @ (if odd (length args) then [0] else [])"

definition initial_sp :: "bytes list \<Rightarrow> nat" where
  "initial_sp args =
     (USER_IMAGE_LIMIT - length (arg_block args)) div 16 * 16 - 8 * length (stack_words args)"

lemma push_ptrs_snoc: "push_ptrs (ps @ qs) sp m = (case push_ptrs ps sp m of (sp', m') \<Rightarrow> push_ptrs qs sp' m')"
  by (induction ps arbitrary: sp m) (simp_all add: Let_def)

lemma build_user_stack_words:
  assumes p: "push_args (rev (zip [0..<length args] args)) USER_IMAGE_LIMIT (replicate 16 0) m = (Ok (sp0, ptrs), m0)"
    and ptrs: "take (length args) ptrs = map (arg_addr args) [0..<length args]" and argc: "length args \<le> 16"
    and sp0: "160 \<le> sp0 - sp0 mod 16"
  shows "build_user_stack args m =
    (case push_ptrs (rev (stack_words args)) (sp0 - sp0 mod 16) m0 of (sp, m') \<Rightarrow> (Ok (sp, length args, sp + 8), m'))"
proof -
  let ?n = "length args" and ?sp = "sp0 - sp0 mod 16"
  let ?pre = "(if odd ?n then [0] else []) @ 0 # rev (map (arg_addr args) [0..<?n])"
  have rw: "rev (stack_words args) = ?pre @ [?n]" by (simp add: stack_words_def)
  obtain a m1 where pre: "push_ptrs ?pre ?sp m0 = (a, m1)" by (metis surj_pair)
  have len: "length ?pre \<le> 18" using argc by auto
  then have "8 * length ?pre \<le> ?sp" using sp0 by linarith
  with push_ptrs_ok [of ?pre ?sp m0] pre have "a = ?sp - 8 * length ?pre" by simp
  with len sp0 have a: "8 \<le> a" by linarith
  have "build_user_stack args m = (Ok (a - 8, ?n, a), write_usize (a - 8) ?n m1)"
    using p argc pre unfolding build_user_stack_def ptrs [symmetric]
    by (auto simp: Let_def push_ptrs_snoc split: if_splits prod.splits)
  then show ?thesis using a unfolding rw push_ptrs_snoc [of ?pre "[?n]"] pre by (simp add: Let_def)
qed

lemma build_user_stack_ok:
  assumes argc: "length args \<le> 16" and fit: "length (arg_block args) \<le> USER_WINDOW_SIZE"
  shows "\<exists>m'. build_user_stack args m = (Ok (initial_sp args, length args, initial_sp args + 8), m') \<and>
    (\<exists>gap. mem_read (initial_sp args) (USER_IMAGE_LIMIT - initial_sp args) m' =
       usizes (stack_words args) @ gap @ arg_block args) \<and>
    (\<forall>x. x < initial_sp args \<or> USER_IMAGE_LIMIT \<le> x \<longrightarrow> m' x = m x)"
proof -
  define ws where "ws = stack_words args"
  define l where "l = length (arg_block args)"
  define b where "b = USER_IMAGE_LIMIT - l"
  define g where "g = b mod 16"
  define sp where "sp = b - g"
  have len: "length ws \<le> 19" using argc by (simp add: ws_def stack_words_def)
  have b: "USER_IMAGE_BASE \<le> b" "b + l = USER_IMAGE_LIMIT" using fit by (simp_all add: b_def l_def window_consts)
  have g: "g < 16" "g \<le> b" by (simp_all add: g_def)
  have sp: "160 \<le> sp" "8 * length ws \<le> sp" "sp + g = b"
    using b(1) len g by (simp_all add: sp_def window_consts)
  have top: "initial_sp args = sp - 8 * length ws"
    by (simp add: initial_sp_def sp_def g_def b_def l_def ws_def minus_mod_eq_div_mult)
  from push_all_args [OF argc fit, of m] obtain ptrs m0 where
    p: "push_args (rev (zip [0..<length args] args)) USER_IMAGE_LIMIT (replicate 16 0) m = (Ok (b, ptrs), m0)"
      "take (length args) ptrs = map (arg_addr args) [0..<length args]"
      "\<And>n. mem_read b (l + n) m0 = arg_block args @ mem_read USER_IMAGE_LIMIT n m"
      "\<And>x. x < b \<or> USER_IMAGE_LIMIT \<le> x \<Longrightarrow> m0 x = m x"
    unfolding b_def l_def by blast
  let ?m = "snd (push_ptrs (rev ws) sp m0)"
  have q: "fst (push_ptrs (rev ws) sp m0) = sp - 8 * length ws"
      "mem_read (sp - 8 * length ws) (8 * length ws + (g + l)) ?m = usizes ws @ mem_read sp (g + l) m0"
      "\<And>x. x < sp - 8 * length ws \<or> sp \<le> x \<Longrightarrow> ?m x = m0 x"
    using push_ptrs_ok [of "rev ws" sp m0 "g + l"] sp(2) by auto
  have "mem_read sp (g + l) m0 = mem_read sp g m0 @ arg_block args"
    using p(3) [of 0] sp(3) by (simp add: mem_read_add)
  moreover have "USER_IMAGE_LIMIT - initial_sp args = 8 * length ws + (g + l)"
    using b(2) sp(2,3) top by linarith
  moreover have "build_user_stack args m = (Ok (initial_sp args, length args, initial_sp args + 8), ?m)"
    using build_user_stack_words [OF p(1,2) argc] sp(1) q(1) top
    by (simp add: case_prod_beta ws_def sp_def g_def)
  moreover have "?m x = m x" if "x < initial_sp args \<or> USER_IMAGE_LIMIT \<le> x" for x
  proof -
    have "x < sp - 8 * length ws \<or> sp \<le> x" "x < b \<or> USER_IMAGE_LIMIT \<le> x"
      using that top sp b by linarith+
    with q(3) p(4) show ?thesis by simp
  qed
  ultimately show ?thesis using q(2) top by (auto simp: ws_def)
qed


lemma arg_in_block:
  assumes "i < length args" and "length (arg_block args) \<le> USER_IMAGE_LIMIT"
    and "mem_read a n m = pre @ arg_block args" and "a + n = USER_IMAGE_LIMIT"
  shows "mem_read (arg_addr args i) (length (args ! i) + 1) m = args ! i @ [0]"
proof -
  let ?i = "length (pre @ arg_block (take i args))"
  have split: "arg_block args = arg_block (take i args) @ args ! i @ 0 # arg_block (drop (Suc i) args)"
    and drop: "arg_block (drop i args) = args ! i @ 0 # arg_block (drop (Suc i) args)"
    using id_take_nth_drop [OF assms(1)] arg_block_simps
    by (metis append_Cons append_assoc, metis Cons_nth_drop_Suc assms(1) arg_block_simps(2))
  have n: "n = length pre + length (arg_block args)" using arg_cong [OF assms(3), of length] by simp
  have "arg_addr args i = a + ?i"
    using assms(2,4) n unfolding arg_addr_def split drop by simp
  moreover have "mem_read (a + ?i) (length (args ! i) + 1) m = slice ?i (length (args ! i) + 1) (mem_read a n m)"
    by (rule mem_read_slice) (simp add: n split)
  ultimately show ?thesis unfolding assms(3) split by (simp add: slice_def)
qed

lemma arg_addr_bounds: "i < length args \<Longrightarrow> arg_addr args i < 2 ^ 64"
  by (simp add: arg_addr_def window_consts)

section \<open>Properties\<close>

text \<open>
  C23. Loading a program whose segments lie in its file and fit the user window gives their images (file
  contents followed by zeros) at their distance from the lowest address, and copying them there
  always succeeds: afterwards each segment is in memory, byte for byte, provided that no two of them
  overlap, and nothing outside the window has changed.
\<close>

theorem load_and_copy:
  assumes "length (ef_data elf) < 2 ^ 64" and "unat (ef_entry elf) - base_vaddr elf < USER_WINDOW_SIZE"
    and "\<forall>seg \<in> set (ef_segments elf). segment_ok (ef_data elf) seg \<and> alloc_ok (unat (sg_mem_size seg)) \<and>
      in_window (base_vaddr elf) seg"
  shows "\<exists>prog m'. load_elf alloc_ok elf = Ok prog \<and>
    lp_segments prog = map (image_of (ef_data elf) (base_vaddr elf)) (ef_segments elf) \<and>
    lp_entry prog = USER_IMAGE_BASE + (unat (ef_entry elf) - base_vaddr elf) \<and>
    load_into_user_window prog m = (Ok (), m') \<and>
    (\<forall>x. x < USER_IMAGE_BASE \<or> USER_IMAGE_LIMIT \<le> x \<longrightarrow> m' x = m x) \<and>
    (distinct (lp_segments prog) \<and> pairwise disjoint_images (set (lp_segments prog)) \<longrightarrow>
       (\<forall>im \<in> set (lp_segments prog). mem_read (si_dest im) (length (si_data im)) m' = si_data im))"
proof -
  let ?ims = "map (image_of (ef_data elf) (base_vaddr elf)) (ef_segments elf)"
  have load: "load_segments alloc_ok (ef_data elf) (base_vaddr elf) (ef_segments elf) = Ok ?ims"
    using load_segments_eq assms(1,3) by blast
  note inside = load_segments_inside [OF this]
  from copy_segments_ok [OF this, of m] obtain m' where m': "copy_segments ?ims m = (Ok (), m')"
    "\<forall>x. x < USER_IMAGE_BASE \<or> USER_IMAGE_LIMIT \<le> x \<longrightarrow> m' x = m x" by blast
  let ?p = "\<lparr>lp_entry = USER_IMAGE_BASE + (unat (ef_entry elf) - base_vaddr elf),
    lp_stack_top = USER_IMAGE_LIMIT, lp_segments = ?ims\<rparr>"
  have "load_elf alloc_ok elf = Ok ?p"
    using load assms(2) by (simp add: load_elf_def Let_def window_consts)
  moreover have "distinct ?ims \<and> pairwise disjoint_images (set ?ims) \<longrightarrow>
      (\<forall>im \<in> set ?ims. mem_read (si_dest im) (length (si_data im)) m' = si_data im)"
    using copy_segments_contents [OF inside _ _ m'(1)] by blast
  ultimately show ?thesis using m' by (intro exI [of _ ?p] exI [of _ m']) (simp add: load_into_user_window_def)
qed

theorem load_and_copy_witness:
  "\<exists>prog. load_elf (\<lambda>_. True) \<lparr>ef_entry = 0x1004,
     ef_segments = [\<lparr>sg_vaddr = 0x1000, sg_mem_size = 4, sg_file_size = 2, sg_file_offset = 1, sg_align = 1, sg_flags = 5\<rparr>],
     ef_data = [9, 7, 8]\<rparr> = Ok prog \<and> lp_entry prog = 0x80400004"
  using load_and_copy [of "\<lparr>ef_entry = 0x1004,
     ef_segments = [\<lparr>sg_vaddr = 0x1000, sg_mem_size = 4, sg_file_size = 2, sg_file_offset = 1, sg_align = 1, sg_flags = 5\<rparr>],
     ef_data = [9, 7, 8]\<rparr>" "\<lambda>_. True" "\<lambda>_. 0"]
  by (auto simp: base_vaddr_def segment_ok_def in_window_def window_consts)

text \<open>
  Whatever the executable, a load that succeeds yields only images inside the user window, so that
  copying a loaded program can neither fail nor write outside it.
\<close>

theorem loaded_images_inside_window:
  "case load alloc_ok g path of
     (Ok prog, g') \<Rightarrow> \<exists>m'. load_into_user_window prog m = (Ok (), m') \<and>
       (\<forall>x. m' x = m x \<or> USER_IMAGE_BASE \<le> x \<and> x < USER_IMAGE_LIMIT)
   | _ \<Rightarrow> True"
proof (cases "load alloc_ok g path")
  case (Pair r g')
  show ?thesis
  proof (cases r)
    case (Ok prog)
    with Pair obtain elf where "load_elf alloc_ok elf = Ok prog"
      by (auto simp: load_def outcome_simps split: prod.splits)
    then have "load_segments alloc_ok (ef_data elf) (base_vaddr elf) (ef_segments elf) = Ok (lp_segments prog)"
      by (auto simp: load_elf_def outcome_simps Let_def split: if_splits)
    from copy_segments_ok [OF load_segments_inside [OF this], of m] show ?thesis
      using Ok Pair by (auto simp: load_into_user_window_def) (meson not_less)+
  qed (use Pair in simp_all)
qed

text \<open>What the stack takes: the strings and the words, each rounded up to 16 bytes.\<close>

definition stack_size :: "bytes list \<Rightarrow> nat" where
  "stack_size args = 16 * ((length (arg_block args) + 15) div 16) + 16 * ((length args + 3) div 2)"

lemma initial_sp_size:
  assumes "length args \<le> 16" and "length (arg_block args) \<le> USER_WINDOW_SIZE"
  shows "initial_sp args + stack_size args = USER_IMAGE_LIMIT"
proof -
  have w: "8 * length (stack_words args) = 16 * ((length args + 3) div 2)"
    by (cases "even (length args)") (auto simp: stack_words_def elim!: evenE oddE)
  have limit: "USER_IMAGE_LIMIT = 16 * 134488064" "USER_WINDOW_SIZE = 131072" by (simp_all add: window_consts)
  have round: "(16 * n - b) div 16 * 16 + 16 * ((b + 15) div 16) = 16 * n" if "b \<le> 16 * n" for b n :: nat
  proof -
    define c where "c = (b + 15) div 16"
    then have c: "b \<le> 16 * c" "16 * c < b + 16" "c \<le> n" using that by linarith+
    then have "16 * n - b = 16 * (n - c) + (16 * c - b)" by (simp add: diff_mult_distrib2)
    moreover have "16 * c - b < 16" using c by linarith
    ultimately have "(16 * n - b) div 16 = n - c" by simp
    then show ?thesis using c(3) by (simp flip: c_def)
  qed
  have "(USER_IMAGE_LIMIT - length (arg_block args)) div 16 * 16 + 16 * ((length (arg_block args) + 15) div 16) = USER_IMAGE_LIMIT"
    unfolding limit(1) using assms(2) limit(2) by (intro round) simp
  moreover have "16 * ((length (arg_block args) + 15) div 16) \<le> 131072 + 15" "16 * ((length args + 3) div 2) \<le> 160"
    using assms limit(2) by linarith+
  ultimately show ?thesis unfolding initial_sp_def stack_size_def w using limit(1) by linarith
qed

text \<open>
  C24. The initial stack of a program with at most 16 arguments whose strings fit the window: the stack
  pointer is 16-byte aligned and holds the argument count, followed by the argument vector, whose
  entries point to the NUL-terminated arguments and which a null pointer ends; nothing below the
  stack pointer or above the window changes. The stack ends at the end of the window and takes
  \<open>stack_size\<close> bytes, so it lies inside the window exactly when strings and words together fit: this
  is not checked, and a stack pointer below the window is returned otherwise. Strings that alone do
  not fit are refused, and more than 16 arguments panic.
\<close>

theorem initial_stack:
  "(length args \<le> 16 \<and> length (arg_block args) \<le> USER_WINDOW_SIZE \<longrightarrow>
     (\<exists>sp m'. build_user_stack args m = (Ok (sp, length args, sp + 8), m') \<and> 16 dvd sp \<and>
        sp + stack_size args = USER_IMAGE_LIMIT \<and> (USER_IMAGE_BASE \<le> sp \<longleftrightarrow> stack_size args \<le> USER_WINDOW_SIZE) \<and>
        read_usize sp m' = length args \<and> read_usize (sp + 8 + 8 * length args) m' = 0 \<and>
        (\<forall>i < length args. read_usize (sp + 8 + 8 * i) m' = arg_addr args i \<and>
           mem_read (arg_addr args i) (length (args ! i) + 1) m' = args ! i @ [0]) \<and>
        (\<forall>x. x < sp \<or> USER_IMAGE_LIMIT \<le> x \<longrightarrow> m' x = m x))) \<and>
   (length args \<le> 16 \<and> USER_WINDOW_SIZE < length (arg_block args) \<longrightarrow>
     fst (build_user_stack args m) = Err OutOfMemory) \<and>
   (16 < length args \<longrightarrow> fst (build_user_stack args m) = Panic)"
proof (intro conjI impI)
  assume a: "length args \<le> 16 \<and> length (arg_block args) \<le> USER_WINDOW_SIZE"
  let ?sp = "initial_sp args" and ?ws = "stack_words args" let ?n = "USER_IMAGE_LIMIT - ?sp"
  from a build_user_stack_ok [of args m] obtain m' gap where
    m': "build_user_stack args m = (Ok (?sp, length args, ?sp + 8), m')"
      "mem_read ?sp ?n m' = usizes ?ws @ gap @ arg_block args"
      "\<forall>x. x < ?sp \<or> USER_IMAGE_LIMIT \<le> x \<longrightarrow> m' x = m x" by blast
  have initial_window: "USER_IMAGE_BASE \<le> ?sp \<longleftrightarrow> stack_size args \<le> USER_WINDOW_SIZE"
    using initial_sp_size [of args] a unfolding window_consts by linarith
  have n: "?n = 8 * length ?ws + length (gap @ arg_block args)"
    using arg_cong [OF m'(2), of length] by (simp add: length_usizes)
  have word: "read_usize (?sp + 8 * j) m' = ?ws ! j" if "j < length ?ws" "?ws ! j < 2 ^ 64" for j
    using read_usizes [OF m'(2) [unfolded n] that] .
  have ws: "?ws ! 0 = length args" "?ws ! Suc (length args) = 0" "\<And>i. i < length args \<Longrightarrow> ?ws ! Suc i = arg_addr args i"
    by (simp_all add: stack_words_def nth_append)
  have len: "Suc (length args) < length ?ws" "?ws \<noteq> []" by (simp_all add: stack_words_def)
  have "even (length ?ws)" by (simp add: stack_words_def)
  then have "16 dvd 8 * length ?ws" by (auto elim!: evenE)
  then have "16 dvd ?sp" unfolding initial_sp_def by (intro dvd_diff_nat) simp_all
  moreover have "?sp + ?n = USER_IMAGE_LIMIT" by (simp add: initial_sp_def window_consts)
  moreover have "mem_read (arg_addr args i) (length (args ! i) + 1) m' = args ! i @ [0]" if "i < length args" for i
    using arg_in_block [OF that, of ?sp ?n m' "usizes ?ws @ gap"] m'(2) calculation(2) a
    by (simp add: window_consts)
  moreover have "read_usize (?sp + 8 + 8 * i) m' = arg_addr args i" if "i < length args" for i
    using word [of "Suc i"] that ws(3) [OF that] len arg_addr_bounds [OF that] by (simp add: add.assoc)
  moreover have "read_usize ?sp m' = length args" "read_usize (?sp + 8 + 8 * length args) m' = 0"
    using word [of 0] word [of "Suc (length args)"] ws(1,2) len a by (auto simp: add.assoc)
  ultimately show "\<exists>sp m'. build_user_stack args m = (Ok (sp, length args, sp + 8), m') \<and> 16 dvd sp \<and>
        sp + stack_size args = USER_IMAGE_LIMIT \<and> (USER_IMAGE_BASE \<le> sp \<longleftrightarrow> stack_size args \<le> USER_WINDOW_SIZE) \<and>
        read_usize sp m' = length args \<and> read_usize (sp + 8 + 8 * length args) m' = 0 \<and>
        (\<forall>i < length args. read_usize (sp + 8 + 8 * i) m' = arg_addr args i \<and>
           mem_read (arg_addr args i) (length (args ! i) + 1) m' = args ! i @ [0]) \<and>
        (\<forall>x. x < sp \<or> USER_IMAGE_LIMIT \<le> x \<longrightarrow> m' x = m x)"
    using m'(1,3) initial_sp_size [of args] a initial_window by blast
next
  assume a: "length args \<le> 16 \<and> USER_WINDOW_SIZE < length (arg_block args)"
  have "map snd (rev (zip [0..<length args] args)) = rev args" by (simp add: rev_map [symmetric])
  then have "length (arg_block (map snd (rev (zip [0..<length args] args)))) = length (arg_block args)" by simp
  with push_args_full [of USER_IMAGE_LIMIT "rev (zip [0..<length args] args)" "replicate 16 0" m] a
  show "fst (build_user_stack args m) = Err OutOfMemory"
    by (auto simp: build_user_stack_def Let_def window_consts)
qed (simp add: build_user_stack_def)

theorem initial_stack_witness:
  "\<exists>sp m'. build_user_stack [[97], [98, 99]] (\<lambda>_. 0) = (Ok (sp, 2, sp + 8), m') \<and> 16 dvd sp \<and> read_usize sp m' = 2 \<and>
     sp = USER_IMAGE_LIMIT - 48 \<and> USER_IMAGE_BASE \<le> sp \<and> mem_read (arg_addr [[97], [98, 99]] 0) 2 m' = [97, 0]"
proof -
  have s: "stack_size [[97], [98, 99]] = 48" by (simp add: stack_size_def)
  from initial_stack [of "[[97], [98, 99]]" "\<lambda>_. 0", unfolded s] obtain sp m' where
    "build_user_stack [[97], [98, 99]] (\<lambda>_. 0) = (Ok (sp, 2, sp + 8), m')" "16 dvd sp" "read_usize sp m' = 2"
    "sp + 48 = USER_IMAGE_LIMIT" "USER_IMAGE_BASE \<le> sp"
    "\<forall>i < 2. mem_read (arg_addr [[97], [98, 99]] i) (length ([[97 :: u8], [98, 99]] ! i) + 1) m' = [[97], [98, 99]] ! i @ [0]"
    by (auto simp: window_consts numeral_2_eq_2)
  moreover from this(6) have "mem_read (arg_addr [[97], [98, 99]] 0) 2 m' = [97, 0]" by (auto simp: numeral_2_eq_2)
  moreover from \<open>sp + 48 = USER_IMAGE_LIMIT\<close> have "sp = USER_IMAGE_LIMIT - 48" by simp
  ultimately show ?thesis by blast
qed

text \<open>
  The check on the stack covers the strings only: when they fill the window almost completely, the
  call still succeeds, with a stack pointer below the window, and the words of the argument vector
  have been written to kernel memory.
\<close>

theorem initial_stack_leaves_window:
  assumes "length args \<le> 16" and "length (arg_block args) \<le> USER_WINDOW_SIZE"
    and "USER_WINDOW_SIZE < length (arg_block args) + 8 * length args"
  shows "\<exists>sp m'. build_user_stack args m = (Ok (sp, length args, sp + 8), m') \<and> sp < USER_IMAGE_BASE"
proof -
  have "(USER_IMAGE_LIMIT - length (arg_block args)) div 16 * 16 \<le> USER_IMAGE_LIMIT - length (arg_block args)"
    by simp
  moreover have "8 * length args \<le> 8 * length (stack_words args)" by (simp add: stack_words_def)
  ultimately have "initial_sp args < USER_IMAGE_BASE"
    using assms(2,3) unfolding initial_sp_def window_consts by linarith
  with build_user_stack_ok [OF assms(1,2)] show ?thesis by blast
qed

theorem initial_stack_leaves_window_witness:
  "\<exists>sp m'. build_user_stack [replicate 131071 65] (\<lambda>_. 0) = (Ok (sp, 1, sp + 8), m') \<and> sp < USER_IMAGE_BASE"
  using initial_stack_leaves_window [of "[replicate 131071 65]" "\<lambda>_. 0"] by (simp add: window_consts)

end
