(* ===== verification/Proc.thy ===== *)
theory Proc
  imports Pipe Loader
begin

text \<open>
  File descriptors as data (\<^verbatim>\<open>src/fd.rs\<close>: \<^verbatim>\<open>FdTable\<close>, \<^verbatim>\<open>FileDescriptor\<close> and their constructors) and the
  process table (\<^verbatim>\<open>src/proc.rs\<close>). A method that takes \<^verbatim>\<open>&mut Process\<close> out of the table becomes an update
  of the slot that holds the process. Process identifiers are \<^verbatim>\<open>usize\<close> values, kept as naturals;
  the one addition that could leave the range panics.
\<close>

section \<open>File descriptors\<close>

definition MAX_FDS :: nat where "MAX_FDS = 16"
definition STDIN_FD :: nat where "STDIN_FD = 0"
definition STDOUT_FD :: nat where "STDOUT_FD = 1"
definition STDERR_FD :: nat where "STDERR_FD = 2"

datatype UartMode = UartRead | UartWrite

record FileMode =
  m_read :: bool
  m_write :: bool
  m_append :: bool
  m_create :: bool

record FileFd =
  f_path :: bytes
  f_pos :: nat
  f_mode :: FileMode

record PipeFd =
  pipe_id :: nat
  is_read_end :: bool

datatype FileDescriptor = FdUart UartMode | FdFile FileFd | FdPipe PipeFd

type_synonym FdTable = "FileDescriptor option list"

definition fd_new :: FdTable where
  "fd_new = replicate MAX_FDS None"

definition with_standard :: FdTable where
  "with_standard = fd_new[STDIN_FD := Some (FdUart UartRead), STDOUT_FD := Some (FdUart UartWrite),
     STDERR_FD := Some (FdUart UartWrite)]"

definition fd_alloc :: "FdTable \<Rightarrow> FileDescriptor \<Rightarrow> (nat, FdError) outcome \<times> FdTable" where
  "fd_alloc t fd =
     (case position (\<lambda>slot. slot = None) t of
        Some i \<Rightarrow> (Ok i, t[i := Some fd])
      | None \<Rightarrow> (Err TooManyOpen, t))"

text \<open>\<^verbatim>\<open>FdTable::get\<close> and \<^verbatim>\<open>FdTable::get_mut\<close>.\<close>

definition fd_get :: "FdTable \<Rightarrow> nat \<Rightarrow> (FileDescriptor, FdError) outcome" where
  "fd_get t n = (if MAX_FDS \<le> n then Err BadFd else ok_or BadFd (t ! n))"

definition read_only :: FileMode where
  "read_only = \<lparr>m_read = True, m_write = False, m_append = False, m_create = False\<rparr>"

definition write_only :: FileMode where
  "write_only = \<lparr>m_read = False, m_write = True, m_append = False, m_create = True\<rparr>"

definition read_write :: FileMode where
  "read_write = \<lparr>m_read = True, m_write = True, m_append = False, m_create = True\<rparr>"

definition append_mode :: FileMode where
  "append_mode = \<lparr>m_read = False, m_write = True, m_append = True, m_create = True\<rparr>"

section \<open>Processes\<close>

definition MAX_PROCESSES :: nat where "MAX_PROCESSES = 8"
definition INVALID_PID :: Pid where "INVALID_PID = 2 ^ 64 - 1"

lemmas proc_consts [simp] =
  MAX_FDS_def STDIN_FD_def STDOUT_FD_def STDERR_FD_def MAX_PROCESSES_def

datatype ProcessState = Running | Ready | Blocked | Exited

record Process =
  p_pid :: Pid
  p_parent_pid :: Pid
  p_state :: ProcessState
  p_exit_code :: u64
  p_entry :: u64
  p_stack_top :: u64
  p_pc :: u64
  p_sp :: u64
  p_regs :: "u64 list"
  p_path :: bytes
  p_args :: "bytes list"
  p_fd_table :: FdTable
  p_memory :: bytes
  p_argc :: nat
  p_started :: bool
  p_argv_ptr :: nat

definition process_new ::
  "Pid \<Rightarrow> Pid \<Rightarrow> u64 \<Rightarrow> u64 \<Rightarrow> bytes \<Rightarrow> bytes list \<Rightarrow> FdTable \<Rightarrow> bytes \<Rightarrow> nat \<Rightarrow> nat \<Rightarrow> Process" where
  "process_new pid parent_pid entry stack_top path args fd_table memory argc argv_ptr =
     \<lparr>p_pid = pid, p_parent_pid = parent_pid, p_state = Ready, p_exit_code = 0, p_entry = entry,
      p_stack_top = stack_top, p_pc = entry, p_sp = stack_top, p_regs = replicate 31 0, p_path = path,
      p_args = args, p_fd_table = fd_table, p_memory = memory, p_argc = argc, p_started = False,
      p_argv_ptr = argv_ptr\<rparr>"

definition process_exit :: "u64 \<Rightarrow> Process \<Rightarrow> Process" where
  "process_exit code p = p\<lparr>p_state := Exited, p_exit_code := code\<rparr>"

definition is_running :: "Process \<Rightarrow> bool" where
  "is_running p \<longleftrightarrow> p_state p = Running"

definition has_exited :: "Process \<Rightarrow> bool" where
  "has_exited p \<longleftrightarrow> p_state p = Exited"

datatype SpawnError = TooManyProcesses | ProgramNotFound | LoadFailed | SpawnOutOfMemory

record ProcessTable =
  processes :: "Process option list"
  current_pid :: Pid
  next_pid :: Pid

definition table_new :: ProcessTable where
  "table_new = \<lparr>processes = replicate MAX_PROCESSES None, current_pid = INVALID_PID, next_pid = 1\<rparr>"

definition alloc_pid :: "ProcessTable \<Rightarrow> (Pid, SpawnError) outcome \<times> ProcessTable" where
  "alloc_pid t =
     (if next_pid t = 2 ^ 64 - 1 then (Panic, t)
      else (Ok (next_pid t), t\<lparr>next_pid := next_pid t + 1\<rparr>))"

definition find_free_slot :: "ProcessTable \<Rightarrow> nat option" where
  "find_free_slot t = position (\<lambda>p. p = None) (processes t)"

definition spawn ::
  "u64 \<Rightarrow> u64 \<Rightarrow> bytes \<Rightarrow> bytes list \<Rightarrow> FdTable \<Rightarrow> bytes \<Rightarrow> nat \<Rightarrow> nat \<Rightarrow> ProcessTable \<Rightarrow>
    (Pid, SpawnError) outcome \<times> ProcessTable" where
  "spawn entry stack_top path args fd_table memory argc argv_ptr t =
     (case find_free_slot t of
        None \<Rightarrow> (Err TooManyProcesses, t)
      | Some slot \<Rightarrow>
          tryS (alloc_pid t) (\<lambda>pid t.
            let process = process_new pid (current_pid t) entry stack_top path args fd_table memory argc argv_ptr
            in (Ok pid, t\<lparr>processes := (processes t)[slot := Some process]\<rparr>)))"

text \<open>The slot \<^verbatim>\<open>get\<close> and \<^verbatim>\<open>get_mut\<close> find, the process in it, and a change made through \<^verbatim>\<open>get_mut\<close>.\<close>

definition has_pid :: "Pid \<Rightarrow> Process option \<Rightarrow> bool" where
  "has_pid pid slot = (case slot of Some p \<Rightarrow> p_pid p = pid | None \<Rightarrow> False)"

definition get :: "ProcessTable \<Rightarrow> Pid \<Rightarrow> Process option" where
  "get t pid = (case position (has_pid pid) (processes t) of Some i \<Rightarrow> processes t ! i | None \<Rightarrow> None)"

definition get_mut :: "Pid \<Rightarrow> (Process \<Rightarrow> Process) \<Rightarrow> ProcessTable \<Rightarrow> ProcessTable" where
  "get_mut pid f t =
     (case position (has_pid pid) (processes t) of
        Some i \<Rightarrow> t\<lparr>processes := (processes t)[i := map_option f (processes t ! i)]\<rparr>
      | None \<Rightarrow> t)"

definition current :: "ProcessTable \<Rightarrow> Process option" where
  "current t = (if current_pid t = INVALID_PID then None else get t (current_pid t))"

definition set_current :: "Pid \<Rightarrow> ProcessTable \<Rightarrow> ProcessTable" where
  "set_current pid t = t\<lparr>current_pid := pid\<rparr>"

definition get_all_processes :: "ProcessTable \<Rightarrow> Process list" where
  "get_all_processes t = List.map_filter (\<lambda>p. p) (processes t)"

text \<open>\<^verbatim>\<open>wait\<close>: the first exited child is taken out of the table.\<close>

definition wait :: "Pid \<Rightarrow> ProcessTable \<Rightarrow> (Pid \<times> u64) option \<times> ProcessTable" where
  "wait parent t =
     (case find (\<lambda>p. p_parent_pid p = parent \<and> has_exited p) (get_all_processes t) of
        None \<Rightarrow> (None, t)
      | Some p \<Rightarrow>
          (Some (p_pid p, p_exit_code p),
           case position (has_pid (p_pid p)) (processes t) of
             Some slot \<Rightarrow> t\<lparr>processes := (processes t)[slot := None]\<rparr>
           | None \<Rightarrow> t))"

definition has_children :: "Pid \<Rightarrow> ProcessTable \<Rightarrow> bool" where
  "has_children parent t = list_ex (\<lambda>p. p_parent_pid p = parent) (get_all_processes t)"

definition get_children :: "Pid \<Rightarrow> ProcessTable \<Rightarrow> Pid list" where
  "get_children parent t = map p_pid (filter (\<lambda>p. p_parent_pid p = parent) (get_all_processes t))"

definition table_clear :: "ProcessTable \<Rightarrow> ProcessTable" where
  "table_clear t = t\<lparr>processes := replicate MAX_PROCESSES None, current_pid := INVALID_PID\<rparr>"


section \<open>The table as a store\<close>

text \<open>What the rest of the kernel relies on when it looks a process up and changes it in place.\<close>

locale keyed_store =
  fixes lookup :: "'t \<Rightarrow> nat \<Rightarrow> 'p option"
    and modify :: "nat \<Rightarrow> ('p \<Rightarrow> 'p) \<Rightarrow> 't \<Rightarrow> 't"
    and key :: "'p \<Rightarrow> nat"
  assumes lookup_key: "lookup t k = Some p \<Longrightarrow> key p = k"
    and lookup_modify: "(\<And>p. key (f p) = key p) \<Longrightarrow>
      lookup (modify k f t) j = (if j = k then map_option f (lookup t k) else lookup t j)"
begin

lemma lookup_fold_modify:
  assumes f: "\<And>p. key (f p) = key p" and idem: "\<And>p. f (f p) = f p"
  shows "lookup (fold (\<lambda>k. modify k f) ks t) j = (if j \<in> set ks then map_option f (lookup t j) else lookup t j)"
proof (induction ks arbitrary: t)
  case (Cons k ks)
  have "map_option f (map_option f x) = map_option f x" for x by (cases x) (simp_all add: idem)
  then show ?case by (simp add: Cons.IH lookup_modify f)
qed simp

lemma lookup_modify_twice:
  assumes "\<And>p. key (f p) = key p" and "\<And>p. key (g p) = key p"
  shows "lookup (modify k g (modify k f t)) j = lookup (modify k (\<lambda>p. g (f p)) t) j"
  using assms by (simp add: lookup_modify option.map_comp comp_def)

end

lemma get_pid: "get t pid = Some p \<Longrightarrow> p_pid p = pid"
  by (auto simp: get_def has_pid_def dest!: position_SomeD split: option.splits)

lemma has_pid_Some: "has_pid pid slot \<Longrightarrow> \<exists>p. slot = Some p \<and> p_pid p = pid"
  by (auto simp: has_pid_def split: option.splits)

lemma position_update:
  "i < length xs \<Longrightarrow> P y = P (xs ! i) \<Longrightarrow> position P (xs[i := y]) = position P xs"
  by (induction xs arbitrary: i) (auto split: nat.splits)

lemma get_get_mut:
  assumes f: "\<And>p. p_pid (f p) = p_pid p"
  shows "get (get_mut pid f t) q = (if q = pid then map_option f (get t pid) else get t q)"
proof (cases "position (has_pid pid) (processes t)")
  case None
  then show ?thesis by (auto simp: get_def get_mut_def simp del: position_None)
next
  case (Some i)
  from position_SomeD [OF this] have i: "i < length (processes t)" "has_pid pid (processes t ! i)" by auto
  have "has_pid q (map_option f (processes t ! i)) = has_pid q (processes t ! i)"
    by (cases "processes t ! i") (simp_all add: has_pid_def f)
  then have pos: "position (has_pid q) ((processes t)[i := map_option f (processes t ! i)]) =
      position (has_pid q) (processes t)"
    by (rule position_update [OF i(1)])
  have "j \<noteq> i" if "position (has_pid q) (processes t) = Some j" "q \<noteq> pid" for j
    using position_SomeD [OF that(1)] i(2) that(2) by (auto dest!: has_pid_Some)
  then show ?thesis
    using Some pos i(1) by (auto simp: get_def get_mut_def split: option.splits simp del: position_None)
qed

interpretation pt: keyed_store get get_mut p_pid
  by unfold_locales (auto simp: get_pid get_get_mut)

section \<open>The invariant\<close>

definition procs :: "ProcessTable \<Rightarrow> Process set" where
  "procs t = {p. Some p \<in> set (processes t)}"

text \<open>
  Eight slots; identifiers are pairwise different, never 0 (the kernel) or \<^verbatim>\<open>INVALID_PID\<close>, and below the
  next one to be given out; only the current process is running; descriptor tables have 16
  entries, and saved memory images are empty or of the full size of the window.
\<close>

definition process_ok :: "ProcessTable \<Rightarrow> Process \<Rightarrow> bool" where
  "process_ok t p \<longleftrightarrow> 1 \<le> p_pid p \<and> p_pid p < next_pid t \<and> (p_state p = Running \<longrightarrow> p_pid p = current_pid t) \<and>
     length (p_fd_table p) = MAX_FDS \<and> (p_memory p = [] \<or> length (p_memory p) = USER_WINDOW_SIZE)"

definition table_ok :: "ProcessTable \<Rightarrow> bool" where
  "table_ok t \<longleftrightarrow> length (processes t) = MAX_PROCESSES \<and> 1 \<le> next_pid t \<and> next_pid t < 2 ^ 64 \<and>
     distinct (map p_pid (get_all_processes t)) \<and> (\<forall>p \<in> procs t. process_ok t p)"

lemma map_filter_id: "List.map_filter (\<lambda>x. x) xs = map the (filter (\<lambda>x. x \<noteq> None) xs)"
  by (simp add: List.map_filter_def)

lemma set_get_all: "set (get_all_processes t) = procs t"
  by (force simp: get_all_processes_def procs_def map_filter_id)

lemma get_procs: "get t pid = Some p \<Longrightarrow> p \<in> procs t"
  by (auto simp: get_def procs_def dest!: position_SomeD split: option.splits) (metis nth_mem)

lemma map_filter_append: "List.map_filter f (xs @ ys) = List.map_filter f xs @ List.map_filter f ys"
  by (simp add: List.map_filter_def)

lemma map_filter_update:
  assumes "i < length xs"
  shows "List.map_filter (\<lambda>x. x) (xs[i := y]) =
    List.map_filter (\<lambda>x. x) (take i xs) @ (case y of None \<Rightarrow> [] | Some p \<Rightarrow> [p]) @ List.map_filter (\<lambda>x. x) (drop (Suc i) xs)"
  unfolding upd_conv_take_nth_drop [OF assms] map_filter_append
  by (simp add: List.map_filter_def split: option.split)

lemma map_filter_split:
  assumes "i < length xs"
  shows "List.map_filter (\<lambda>x. x) xs =
    List.map_filter (\<lambda>x. x) (take i xs) @ (case xs ! i of None \<Rightarrow> [] | Some p \<Rightarrow> [p]) @ List.map_filter (\<lambda>x. x) (drop (Suc i) xs)"
  using map_filter_update [OF assms, of "xs ! i"] by simp

lemma get_iff:
  assumes "table_ok t"
  shows "get t pid = Some p \<longleftrightarrow> p \<in> procs t \<and> p_pid p = pid"
proof
  assume "get t pid = Some p"
  then show "p \<in> procs t \<and> p_pid p = pid" by (simp add: get_procs get_pid)
next
  assume p: "p \<in> procs t \<and> p_pid p = pid"
  then have "\<not> (\<forall>x \<in> set (processes t). \<not> has_pid pid x)"
    by (auto simp: procs_def has_pid_def split: option.splits)
  then obtain i where i: "position (has_pid pid) (processes t) = Some i" by (metis not_None_eq position_None)
  from position_SomeD [OF i] obtain q where q: "processes t ! i = Some q" "p_pid q = pid" "i < length (processes t)"
    by (auto dest!: has_pid_Some)
  then have "q \<in> procs t" by (auto simp: procs_def) (metis nth_mem)
  moreover have "inj_on p_pid (procs t)"
    using assms by (simp add: table_ok_def distinct_map flip: set_get_all)
  ultimately have "q = p" using p q(2) by (auto dest: inj_onD)
  then show "get t pid = Some p" using i q by (simp add: get_def)
qed

lemma get_mut_fields [simp]:
  "current_pid (get_mut pid f t) = current_pid t" "next_pid (get_mut pid f t) = next_pid t"
  "length (processes (get_mut pid f t)) = length (processes t)"
  by (simp_all add: get_mut_def split: option.split)

lemma process_ok_cong:
  "current_pid t' = current_pid t \<Longrightarrow> next_pid t' = next_pid t \<Longrightarrow> process_ok t' p = process_ok t p"
  by (simp add: process_ok_def)

lemma table_ok_get_mut:
  assumes ok: "table_ok t" and f: "\<And>p. p_pid (f p) = p_pid p"
    and p: "\<And>p. get t pid = Some p \<Longrightarrow> process_ok t (f p)"
  shows "table_ok (get_mut pid f t)"
proof (cases "position (has_pid pid) (processes t)")
  case None
  then show ?thesis using ok by (simp add: get_mut_def del: position_None)
next
  case (Some i)
  from position_SomeD [OF Some] obtain q where q: "i < length (processes t)" "processes t ! i = Some q"
    by (auto dest!: has_pid_Some)
  let ?t = "get_mut pid f t"
  have upd: "processes ?t = (processes t)[i := Some (f q)]" using Some q by (simp add: get_mut_def)
  have "map p_pid (get_all_processes ?t) = map p_pid (get_all_processes t)"
    unfolding get_all_processes_def upd map_filter_update [OF q(1)] map_filter_split [OF q(1)]
    by (simp add: q(2) f)
  moreover have "process_ok ?t r" if "r \<in> procs ?t" for r
  proof -
    have "r = f q \<or> r \<in> procs t" using that unfolding procs_def upd by (auto dest!: set_update_subset_insert [THEN subsetD])
    moreover have "get t pid = Some q" using Some q by (simp add: get_def)
    ultimately have "process_ok t r" using ok p by (auto simp: table_ok_def)
    then show ?thesis by (simp add: process_ok_cong [of ?t t])
  qed
  ultimately show ?thesis using ok by (simp add: table_ok_def)
qed

lemma table_new_ok: "table_ok table_new" "get table_new pid = None"
proof -
  show "table_ok table_new"
    by (simp add: table_ok_def table_new_def procs_def get_all_processes_def List.map_filter_def)
  show "get table_new pid = None"
    by (auto simp: get_def table_new_def split: option.split dest!: position_SomeD)
qed

text \<open>Putting a process into an empty slot, and taking one out.\<close>

lemma insert_process:
  assumes ok: "table_ok t" and free: "find_free_slot t = Some i"
    and n: "next_pid t \<le> n" "n < 2 ^ 64"
    and p: "process_ok (t\<lparr>next_pid := n\<rparr>) p" "next_pid t \<le> p_pid p"
  shows "table_ok (t\<lparr>processes := (processes t)[i := Some p], next_pid := n\<rparr>)"
    and "procs (t\<lparr>processes := (processes t)[i := Some p], next_pid := n\<rparr>) = insert p (procs t)"
proof -
  let ?t = "t\<lparr>processes := (processes t)[i := Some p], next_pid := n\<rparr>"
  from free have i: "i < length (processes t)" "processes t ! i = None"
    by (auto simp: find_free_slot_def dest!: position_SomeD)
  have xs: "get_all_processes t = List.map_filter (\<lambda>x. x) (take i (processes t)) @ List.map_filter (\<lambda>x. x) (drop (Suc i) (processes t))"
    using map_filter_split [OF i(1)] i(2) by (simp add: get_all_processes_def)
  have ys: "get_all_processes ?t = List.map_filter (\<lambda>x. x) (take i (processes t)) @ p # List.map_filter (\<lambda>x. x) (drop (Suc i) (processes t))"
    using map_filter_update [OF i(1), of "Some p"] by (simp add: get_all_processes_def)
  have new: "p_pid q \<noteq> p_pid p" if "q \<in> set (get_all_processes t)" for q
    using that ok p(2) by (force simp: set_get_all table_ok_def process_ok_def)
  show pr: "procs ?t = insert p (procs t)" using xs ys by (auto simp flip: set_get_all)
  have "process_ok ?t q" if "q \<in> procs ?t" for q
    using that p(1) ok n unfolding pr by (force simp: process_ok_def table_ok_def)
  moreover have "distinct (map p_pid (get_all_processes ?t))"
    using ok new unfolding table_ok_def xs ys by force
  ultimately show "table_ok ?t" using ok n by (simp add: table_ok_def)
qed

lemma remove_process:
  assumes ok: "table_ok t" and p: "get t pid = Some p"
    and t': "t' = (case position (has_pid pid) (processes t) of
        Some slot \<Rightarrow> t\<lparr>processes := (processes t)[slot := None]\<rparr> | None \<Rightarrow> t)"
  shows "table_ok t'" and "procs t' = procs t - {p}"
proof -
  from p obtain i where i: "position (has_pid pid) (processes t) = Some i" "processes t ! i = Some p"
    by (auto simp: get_def split: option.splits)
  from position_SomeD [OF i(1)] have il: "i < length (processes t)" by simp
  have xs: "get_all_processes t = List.map_filter (\<lambda>x. x) (take i (processes t)) @ p # List.map_filter (\<lambda>x. x) (drop (Suc i) (processes t))"
    using map_filter_split [OF il] i(2) by (simp add: get_all_processes_def)
  have ys: "get_all_processes t' = List.map_filter (\<lambda>x. x) (take i (processes t)) @ List.map_filter (\<lambda>x. x) (drop (Suc i) (processes t))"
    using map_filter_update [OF il, of None] i by (simp add: get_all_processes_def t')
  have d: "distinct (map p_pid (get_all_processes t))" using ok by (simp add: table_ok_def)
  then have "distinct (get_all_processes t)" by (simp add: distinct_map)
  then show pr: "procs t' = procs t - {p}" using xs ys by (auto simp flip: set_get_all)
  have "process_ok t' q" if "q \<in> procs t'" for q
    using that ok i unfolding pr by (auto simp: table_ok_def t' process_ok_def)
  moreover have "distinct (map p_pid (get_all_processes t'))" using d unfolding xs ys by auto
  ultimately show "table_ok t'" using ok i by (simp add: table_ok_def t')
qed


lemma find_free_slot_None:
  assumes "table_ok t"
  shows "find_free_slot t = None \<longleftrightarrow> card (procs t) = MAX_PROCESSES"
proof -
  have "distinct (get_all_processes t)" using assms by (simp add: table_ok_def distinct_map)
  then have "card (procs t) = length (get_all_processes t)" by (simp add: distinct_card flip: set_get_all)
  then have "card (procs t) = length (filter (\<lambda>x. x \<noteq> None) (processes t))"
    by (simp add: get_all_processes_def map_filter_id)
  also have "\<dots> = length (processes t) \<longleftrightarrow> (\<forall>x \<in> set (processes t). x \<noteq> None)"
    using length_filter_less [of _ "processes t" "\<lambda>x. x \<noteq> None"] by (fastforce simp: filter_id_conv)
  finally show ?thesis using assms by (auto simp: find_free_slot_def table_ok_def)
qed

text \<open>Spawning and waiting, on every branch.\<close>

lemma spawn_cases:
  assumes "table_ok t" and "length fds = MAX_FDS" and "memory = [] \<or> length memory = USER_WINDOW_SIZE"
  shows "case spawn entry sp path args fds memory argc argv t of
      (Ok pid, t') \<Rightarrow> pid = next_pid t \<and> get t pid = None \<and> table_ok t' \<and> current_pid t' = current_pid t \<and>
        procs t' = insert (process_new pid (current_pid t) entry sp path args fds memory argc argv) (procs t) \<and>
        (\<forall>q. get t' q = (if q = pid then Some (process_new pid (current_pid t) entry sp path args fds memory argc argv)
                         else get t q))
    | (Err e, t') \<Rightarrow> e = TooManyProcesses \<and> t' = t \<and> card (procs t) = MAX_PROCESSES
    | (Panic, t') \<Rightarrow> next_pid t = 2 ^ 64 - 1
    | (Hang, t') \<Rightarrow> False"
proof (cases "find_free_slot t")
  case None
  then show ?thesis using find_free_slot_None [OF assms(1)] by (simp add: spawn_def)
next
  case (Some i)
  show ?thesis
  proof (cases "next_pid t = 2 ^ 64 - 1")
    case True
    then show ?thesis using Some by (simp add: spawn_def alloc_pid_def)
  next
    case False
    define n where "n = next_pid t"
    define P where "P = process_new n (current_pid t) entry sp path args fds memory argc argv"
    define T where "T = t\<lparr>processes := (processes t)[i := Some P], next_pid := n + 1\<rparr>"
    have n: "n + 1 < 2 ^ 64" "1 \<le> n" using assms(1) False by (auto simp: table_ok_def n_def)
    have p: "process_ok (t\<lparr>next_pid := n + 1\<rparr>) P" "next_pid t \<le> p_pid P" and pid: "p_pid P = n"
      using n assms(2,3) by (auto simp: process_ok_def process_new_def P_def n_def)
    have ins: "table_ok T" "procs T = insert P (procs t)"
      using insert_process [OF assms(1) Some _ n(1) p] by (simp_all add: T_def n_def)
    have run: "spawn entry sp path args fds memory argc argv t = (Ok n, T)"
      using Some False by (simp add: spawn_def alloc_pid_def Let_def T_def P_def n_def)
    have "q \<notin> procs t" if "p_pid q = n" for q
      using that assms(1) by (auto simp: table_ok_def process_ok_def n_def)
    then have fresh: "get t n = None" using get_procs [of t n] get_pid [of t n] by (cases "get t n") auto
    have "get T q = (if q = n then Some P else get t q)" for q
    proof (cases "q = n")
      case True
      then show ?thesis using get_iff [OF ins(1), of n P] ins(2) pid by simp
    next
      case q: False
      have "get T q = Some r \<longleftrightarrow> get t q = Some r" for r
        using q pid by (auto simp: get_iff [OF ins(1)] get_iff [OF assms(1)] ins(2))
      then show ?thesis using q by (metis not_None_eq)
    qed
    moreover have "current_pid T = current_pid t" by (simp add: T_def)
    ultimately show ?thesis using run fresh ins by (simp add: n_def P_def)
  qed
qed

lemma wait_cases:
  assumes "table_ok t"
  shows "case wait parent t of
      (Some (pid, code), t') \<Rightarrow> \<exists>c \<in> procs t. p_parent_pid c = parent \<and> p_state c = Exited \<and> p_pid c = pid \<and>
        p_exit_code c = code \<and> table_ok t' \<and> procs t' = procs t - {c} \<and> get t' pid = None
    | (None, t') \<Rightarrow> t' = t \<and> \<not> (\<exists>c \<in> procs t. p_parent_pid c = parent \<and> p_state c = Exited)"
proof (cases "find (\<lambda>p. p_parent_pid p = parent \<and> has_exited p) (get_all_processes t)")
  case None
  then have "\<not> (\<exists>c \<in> procs t. p_parent_pid c = parent \<and> p_state c = Exited)"
    by (auto simp: find_None_iff set_get_all has_exited_def)
  with None show ?thesis by (simp add: wait_def)
next
  case (Some c)
  then have c: "c \<in> procs t" "p_parent_pid c = parent" "p_state c = Exited"
    by (auto simp: find_Some_iff has_exited_def simp flip: set_get_all)
  let ?t = "snd (wait parent t)"
  have w: "wait parent t = (Some (p_pid c, p_exit_code c), ?t)" using Some by (simp add: wait_def)
  have t': "?t = (case position (has_pid (p_pid c)) (processes t) of
      Some slot \<Rightarrow> t\<lparr>processes := (processes t)[slot := None]\<rparr> | None \<Rightarrow> t)"
    using Some by (simp add: wait_def)
  have g: "get t (p_pid c) = Some c" using get_iff [OF assms] c(1) by simp
  note rm = remove_process [OF assms g t']
  have "get ?t (p_pid c) = None"
    using get_iff [OF rm(1), of "p_pid c"] get_iff [OF assms, of "p_pid c"] g unfolding rm(2)
    by (metis (mono_tags, lifting) DiffD1 DiffD2 not_None_eq option.inject singletonI)
  then show ?thesis using rm c by (subst w) auto
qed

section \<open>Properties\<close>

text \<open>
  C21. \<^verbatim>\<open>ProcessTable::spawn\<close> refuses a ninth process, leaving the table alone; otherwise it adds exactly one
  process, Ready, child of the current one, under an identifier no process has had, and the table
  keeps its invariant. It panics only once all identifiers have been given out.
\<close>

theorem spawn_correct:
  assumes "table_ok t" and "length fds = MAX_FDS" and "memory = [] \<or> length memory = USER_WINDOW_SIZE"
  shows "case spawn entry sp path args fds memory argc argv t of
      (Ok pid, t') \<Rightarrow> pid = next_pid t \<and> get t pid = None \<and> table_ok t' \<and> current_pid t' = current_pid t \<and>
        procs t' = insert (process_new pid (current_pid t) entry sp path args fds memory argc argv) (procs t) \<and>
        (\<forall>q. get t' q = (if q = pid then Some (process_new pid (current_pid t) entry sp path args fds memory argc argv)
                         else get t q))
    | (Err e, t') \<Rightarrow> e = TooManyProcesses \<and> t' = t \<and> card (procs t) = MAX_PROCESSES
    | (Panic, t') \<Rightarrow> next_pid t = 2 ^ 64 - 1
    | (Hang, t') \<Rightarrow> False"
  using assms by (rule spawn_cases)

theorem spawn_correct_witness:
  "case spawn 7 8 [] [] with_standard [] 0 0 table_new of
     (Ok pid, t') \<Rightarrow> pid = 1 \<and> table_ok t' \<and> map_option p_state (get t' 1) = Some Ready
   | _ \<Rightarrow> False"
  using spawn_correct [OF table_new_ok(1), of with_standard "[]" 7 8 "[]" "[]" 0 0]
  by (auto simp: with_standard_def fd_new_def spawn_def find_free_slot_def alloc_pid_def table_new_def
      process_new_def split: option.splits)

text \<open>
  C22. \<^verbatim>\<open>ProcessTable::wait\<close> takes an exited child of the given process out of the table and returns its
  identifier and exit code; it returns nothing, and changes nothing, exactly when there is no such
  child. The table keeps its invariant.
\<close>

theorem wait_correct:
  assumes "table_ok t"
  shows "case wait parent t of
      (Some (pid, code), t') \<Rightarrow> \<exists>c \<in> procs t. p_parent_pid c = parent \<and> p_state c = Exited \<and> p_pid c = pid \<and>
        p_exit_code c = code \<and> table_ok t' \<and> procs t' = procs t - {c} \<and> get t' pid = None
    | (None, t') \<Rightarrow> t' = t \<and> \<not> (\<exists>c \<in> procs t. p_parent_pid c = parent \<and> p_state c = Exited)"
  using assms by (rule wait_cases)

theorem wait_correct_witness:
  "wait 1 table_new = (None, table_new)"
  using wait_correct [OF table_new_ok(1), of 1]
  by (auto simp: wait_def table_new_def get_all_processes_def List.map_filter_def)

end
