(* ===== verification/Scheduler.thy ===== *)
theory Scheduler
  imports Proc
begin

text \<open>
  The round-robin scheduler, \<^verbatim>\<open>src/scheduler.rs\<close>, with the context-switch methods of the process table
  (\<^verbatim>\<open>src/proc.rs\<close>). Every function here takes the lock of the process table for itself and
  releases it again; calling one of them while the lock is held is treated where the callers are.
  The machine is the memory, the two control registers the switch saves, and the trap frame.
\<close>

section \<open>The machine\<close>

record TrapFrame =
  ra :: u64
  t0 :: u64
  t1 :: u64
  t2 :: u64
  t3 :: u64
  t4 :: u64
  t5 :: u64
  t6 :: u64
  a0 :: u64
  a1 :: u64
  a2 :: u64
  a3 :: u64
  a4 :: u64
  a5 :: u64
  a6 :: u64
  a7 :: u64

record machine =
  umem :: mem
  sepc :: u64
  sscratch :: u64

section \<open>Saving and restoring a process\<close>

definition save_current_memory :: "machine \<Rightarrow> ProcessTable \<Rightarrow> ProcessTable" where
  "save_current_memory m t =
     (if current_pid t = INVALID_PID then t
      else get_mut (current_pid t) (\<lambda>p. p\<lparr>p_memory := snapshot_user_window (umem m)\<rparr>) t)"

definition restore_process_memory :: "Pid \<Rightarrow> ProcessTable \<Rightarrow> machine \<Rightarrow> machine" where
  "restore_process_memory pid t m =
     (case get t pid of
        Some p \<Rightarrow> if p_memory p \<noteq> [] then m\<lparr>umem := restore_user_window (p_memory p) (umem m)\<rparr> else m
      | None \<Rightarrow> m)"

definition save_current_registers :: "TrapFrame \<Rightarrow> machine \<Rightarrow> ProcessTable \<Rightarrow> ProcessTable" where
  "save_current_registers trap_frame m t =
     (if current_pid t = INVALID_PID then t
      else get_mut (current_pid t) (\<lambda>p. p\<lparr>p_pc := sepc m, p_sp := sscratch m\<rparr>) t)"

definition initial_frame :: "Process \<Rightarrow> TrapFrame \<Rightarrow> TrapFrame" where
  "initial_frame p tf =
     tf\<lparr>ra := 0, a0 := word_of_nat (p_argc p), a1 := word_of_nat (p_argv_ptr p), a2 := 0, a3 := 0, a4 := 0,
        a5 := 0, a6 := 0, a7 := 0, t0 := 0, t1 := 0, t2 := 0, t3 := 0, t4 := 0, t5 := 0, t6 := 0\<rparr>"

definition restore_process_registers ::
  "Pid \<Rightarrow> TrapFrame \<Rightarrow> machine \<Rightarrow> ProcessTable \<Rightarrow> TrapFrame \<times> machine \<times> ProcessTable" where
  "restore_process_registers pid tf m t =
     (case get t pid of
        None \<Rightarrow> (tf, m, t)
      | Some p \<Rightarrow>
          let m = m\<lparr>sepc := p_pc p, sscratch := p_sp p\<rparr> in
          if \<not> p_started p then (initial_frame p tf, m, get_mut pid (\<lambda>p. p\<lparr>p_started := True\<rparr>) t)
          else (tf, m, t))"

section \<open>Scheduler\<close>

definition runnable :: "Process \<Rightarrow> bool" where
  "runnable p \<longleftrightarrow> p_state p = Ready \<or> p_state p = Running"

definition schedule :: "ProcessTable \<Rightarrow> Pid option" where
  "schedule t =
     (let pids = map p_pid (filter runnable (get_all_processes t)) in
      if pids = [] then None
      else
        case (if current_pid t \<noteq> INVALID_PID then position (\<lambda>pid. pid = current_pid t) pids else None) of
          Some current_idx \<Rightarrow> Some (pids ! ((current_idx + 1) mod length pids))
        | None \<Rightarrow> Some (pids ! 0))"

definition set_state :: "ProcessState \<Rightarrow> Process \<Rightarrow> Process" where
  "set_state s p = p\<lparr>p_state := s\<rparr>"

definition ready_if_running :: "Process \<Rightarrow> Process" where
  "ready_if_running p = (if p_state p = Running then set_state Ready p else p)"

definition yield_cpu :: "ProcessTable \<Rightarrow> ProcessTable" where
  "yield_cpu t =
     (let t = (if current_pid t \<noteq> INVALID_PID then get_mut (current_pid t) ready_if_running t else t) in
      case schedule t of
        Some nxt \<Rightarrow> get_mut nxt (set_state Running) (set_current nxt t)
      | None \<Rightarrow> t)"

definition block_current :: "ProcessTable \<Rightarrow> ProcessTable" where
  "block_current t =
     (if current_pid t \<noteq> INVALID_PID then get_mut (current_pid t) (set_state Blocked) t else t)"

definition ready_if_blocked :: "Process \<Rightarrow> Process" where
  "ready_if_blocked p = (if p_state p = Blocked then set_state Ready p else p)"

definition unblock :: "Pid \<Rightarrow> ProcessTable \<Rightarrow> ProcessTable" where
  "unblock pid t = get_mut pid ready_if_blocked t"

text \<open>The first part of \<^verbatim>\<open>maybe_switch\<close>: \<^verbatim>\<open>(should_switch, make_current_ready)\<close>.\<close>

definition switch_decision :: "ProcessTable \<Rightarrow> bool \<times> bool" where
  "switch_decision t =
     (if current_pid t = INVALID_PID then (True, False)
      else
        let state = map_option p_state (get t (current_pid t));
            has_other_ready = list_ex (\<lambda>p. p_pid p \<noteq> current_pid t \<and> runnable p) (get_all_processes t)
        in case state of
             None \<Rightarrow> (True, False)
           | Some Blocked \<Rightarrow> (True, False)
           | Some Exited \<Rightarrow> (True, False)
           | Some _ \<Rightarrow> if has_other_ready then (True, True) else (False, False))"

definition save_current :: "bool \<Rightarrow> TrapFrame \<Rightarrow> machine \<Rightarrow> ProcessTable \<Rightarrow> ProcessTable" where
  "save_current make_ready tf m t =
     (if current_pid t \<noteq> INVALID_PID
      then let t' = save_current_memory m (save_current_registers tf m t)
           in if make_ready then get_mut (current_pid t) ready_if_running t' else t'
      else t)"

definition switch_to :: "Pid \<Rightarrow> TrapFrame \<Rightarrow> machine \<Rightarrow> ProcessTable \<Rightarrow> TrapFrame \<times> machine \<times> ProcessTable" where
  "switch_to pid tf m t =
     (let t = set_current pid t;
          m = restore_process_memory pid t m;
          (tf, m, t) = restore_process_registers pid tf m t
      in (tf, m, get_mut pid (set_state Running) t))"

definition maybe_switch :: "TrapFrame \<Rightarrow> machine \<Rightarrow> ProcessTable \<Rightarrow> bool \<times> TrapFrame \<times> machine \<times> ProcessTable" where
  "maybe_switch tf m t =
     (case switch_decision t of (should_switch, make_current_ready) \<Rightarrow>
        if \<not> should_switch then (False, tf, m, t)
        else
          let t = save_current make_current_ready tf m t in
          case schedule t of
            Some nxt \<Rightarrow> (True, switch_to nxt tf m t)
          | None \<Rightarrow> (False, tf, m, t))"

section \<open>What a change of a process leaves alone\<close>

lemma set_state_fields [simp]:
  "p_pid (set_state s p) = p_pid p" "p_state (set_state s p) = s" "p_memory (set_state s p) = p_memory p"
  "p_fd_table (set_state s p) = p_fd_table p" "p_pc (set_state s p) = p_pc p" "p_sp (set_state s p) = p_sp p"
  "p_started (set_state s p) = p_started p"
  by (simp_all add: set_state_def)

lemma ready_if_fields [simp]:
  "p_pid (ready_if_running p) = p_pid p" "p_pid (ready_if_blocked p) = p_pid p"
  "p_memory (ready_if_running p) = p_memory p" "p_memory (ready_if_blocked p) = p_memory p"
  "p_fd_table (ready_if_running p) = p_fd_table p" "p_fd_table (ready_if_blocked p) = p_fd_table p"
  "p_pc (ready_if_running p) = p_pc p" "p_sp (ready_if_running p) = p_sp p" "p_started (ready_if_running p) = p_started p"
  by (simp_all add: ready_if_running_def ready_if_blocked_def)

lemma ready_if_blocked_idem: "ready_if_blocked (ready_if_blocked p) = ready_if_blocked p"
  by (simp add: ready_if_blocked_def)

lemma length_snapshot [simp]: "length (snapshot_user_window m) = USER_WINDOW_SIZE"
  by (simp add: snapshot_user_window_def)

lemma process_okI:
  assumes "process_ok t p" and "p_pid q = p_pid p" and "p_fd_table q = p_fd_table p"
    and "p_state q = Running \<Longrightarrow> p_state p = Running \<or> p_pid p = current_pid t"
    and "p_memory q = p_memory p \<or> length (p_memory q) = USER_WINDOW_SIZE"
  shows "process_ok t q"
  using assms by (auto simp: process_ok_def)

lemma table_ok_process: "table_ok t \<Longrightarrow> get t pid = Some p \<Longrightarrow> process_ok t p"
  by (auto simp: table_ok_def dest: get_procs)

text \<open>Changes that keep every process's place and runnability keep the order of the schedule.\<close>

lemma get_all_get_mut:
  assumes ok: "table_ok t"
  shows "get_all_processes (get_mut pid f t) = map (\<lambda>p. if p_pid p = pid then f p else p) (get_all_processes t)"
proof (cases "position (has_pid pid) (processes t)")
  case None
  then have "p_pid p \<noteq> pid" if "p \<in> procs t" for p
    using that by (auto simp: procs_def has_pid_def)
  then have "map (\<lambda>p. if p_pid p = pid then f p else p) (get_all_processes t) = get_all_processes t"
    by (intro map_idI) (simp add: set_get_all)
  with None show ?thesis by (simp add: get_mut_def del: position_None)
next
  case (Some i)
  from position_SomeD [OF Some] obtain q where q: "i < length (processes t)" "processes t ! i = Some q" "p_pid q = pid"
    by (auto dest!: has_pid_Some)
  let ?pre = "List.map_filter (\<lambda>x. x) (take i (processes t))" and ?post = "List.map_filter (\<lambda>x. x) (drop (Suc i) (processes t))"
  have xs: "get_all_processes t = ?pre @ q # ?post"
    using map_filter_split [OF q(1)] q(2) by (simp add: get_all_processes_def)
  have ys: "get_all_processes (get_mut pid f t) = ?pre @ f q # ?post"
    using map_filter_update [OF q(1), of "Some (f q)"] Some q(2) by (simp add: get_all_processes_def get_mut_def)
  have "distinct (map p_pid (?pre @ q # ?post))" using ok unfolding table_ok_def xs by simp
  then have "p_pid p \<noteq> pid" if "p \<in> set ?pre \<union> set ?post" for p
    using that q(3) by (simp add: image_iff) metis
  then have "map (\<lambda>p. if p_pid p = pid then f p else p) ?pre = ?pre"
    "map (\<lambda>p. if p_pid p = pid then f p else p) ?post = ?post" by (auto intro!: map_idI)
  then show ?thesis unfolding xs ys using q(3) by simp
qed

definition runnable_pids :: "ProcessTable \<Rightarrow> Pid list" where
  "runnable_pids t = map p_pid (filter runnable (get_all_processes t))"

lemma runnable_pids_get_mut:
  assumes "table_ok t" and "\<And>p. p_pid (f p) = p_pid p"
    and "\<And>p. get t pid = Some p \<Longrightarrow> runnable (f p) = runnable p"
  shows "runnable_pids (get_mut pid f t) = runnable_pids t"
proof -
  have "runnable (f p) = runnable p" if "p \<in> set (get_all_processes t)" "p_pid p = pid" for p
    using that assms(3) get_iff [OF assms(1)] by (auto simp: set_get_all)
  then have "map p_pid (filter runnable (map (\<lambda>p. if p_pid p = pid then f p else p) xs)) = map p_pid (filter runnable xs)"
    if "set xs \<subseteq> set (get_all_processes t)" for xs
    using that by (induction xs) (auto simp: assms(2))
  then show ?thesis unfolding runnable_pids_def get_all_get_mut [OF assms(1)] by blast
qed


section \<open>Scheduling\<close>

lemma pid_valid: "table_ok t \<Longrightarrow> p \<in> procs t \<Longrightarrow> p_pid p \<noteq> INVALID_PID"
  by (auto simp: table_ok_def process_ok_def INVALID_PID_def)

lemma schedule_None: "schedule t = None \<longleftrightarrow> runnable_pids t = []"
  by (auto simp: schedule_def runnable_pids_def Let_def split: option.splits)

lemma schedule_mem: "schedule t = Some pid \<Longrightarrow> pid \<in> set (runnable_pids t)"
  unfolding schedule_def runnable_pids_def [symmetric] Let_def
  by (auto split: option.splits if_splits)

lemma runnable_pids_mem:
  assumes "table_ok t"
  shows "pid \<in> set (runnable_pids t) \<longleftrightarrow> (\<exists>p. get t pid = Some p \<and> runnable p)"
  by (auto simp: runnable_pids_def set_get_all get_iff [OF assms])

lemma distinct_runnable_pids: "table_ok t \<Longrightarrow> distinct (runnable_pids t)"
  by (auto simp: runnable_pids_def table_ok_def distinct_map_filter)

lemma position_distinct: "distinct xs \<Longrightarrow> i < length xs \<Longrightarrow> position (\<lambda>x. x = xs ! i) xs = Some i"
proof (cases "position (\<lambda>x. x = xs ! i) xs")
  case (Some j)
  assume "distinct xs" "i < length xs"
  with position_SomeD [OF Some] have "j = i" using nth_eq_iff_index_eq [of xs j i] by simp
  then show ?thesis using Some by simp
qed auto

lemma schedule_rotates:
  assumes "table_ok t" and "i < length (runnable_pids t)" and "current_pid t = runnable_pids t ! i"
  shows "schedule t = Some (runnable_pids t ! (Suc i mod length (runnable_pids t)))"
proof -
  have "runnable_pids t ! i \<in> set (runnable_pids t)" using assms(2) by simp
  then have "runnable_pids t ! i \<noteq> INVALID_PID"
    using pid_valid [OF assms(1) get_procs] get_pid unfolding runnable_pids_mem [OF assms(1)] by metis
  with position_distinct [OF distinct_runnable_pids [OF assms(1)] assms(2)] assms(2,3) show ?thesis
    unfolding schedule_def runnable_pids_def [symmetric] Let_def by auto
qed

section \<open>Switching\<close>

definition saved :: "bool \<Rightarrow> machine \<Rightarrow> Process \<Rightarrow> Process" where
  "saved b m p =
     (let p = p\<lparr>p_pc := sepc m, p_sp := sscratch m, p_memory := snapshot_user_window (umem m)\<rparr>
      in if b then ready_if_running p else p)"

lemma saved_fields [simp]:
  "p_pid (saved b m p) = p_pid p" "p_fd_table (saved b m p) = p_fd_table p"
  "p_memory (saved b m p) = snapshot_user_window (umem m)" "p_pc (saved b m p) = sepc m" "p_sp (saved b m p) = sscratch m"
  "p_started (saved b m p) = p_started p"
  by (simp_all add: saved_def Let_def)

lemma saved_state: "p_state (saved b m p) = (if b \<and> p_state p = Running then Ready else p_state p)"
  by (simp add: saved_def Let_def ready_if_running_def)

lemma get_mut_get_mut:
  assumes "\<And>p. p_pid (f p) = p_pid p"
  shows "get_mut pid g (get_mut pid f t) = get_mut pid (\<lambda>p. g (f p)) t"
proof (cases "position (has_pid pid) (processes t)")
  case None
  then show ?thesis by (simp add: get_mut_def del: position_None)
next
  case (Some i)
  from position_SomeD [OF this] have i: "i < length (processes t)" by simp
  have "has_pid pid (map_option f (processes t ! i)) = has_pid pid (processes t ! i)"
    by (cases "processes t ! i") (simp_all add: has_pid_def assms)
  from position_update [OF i this] Some i show ?thesis
    by (simp add: get_mut_def option.map_comp comp_def)
qed

lemma save_current_eq:
  assumes "table_ok t"
  shows "save_current b tf m t = get_mut (current_pid t) (saved b m) t"
proof (cases "current_pid t = INVALID_PID")
  case True
  then have "get t INVALID_PID = None"
    using pid_valid [OF assms] get_procs get_pid by (metis option.exhaust)
  then have "position (has_pid INVALID_PID) (processes t) = None"
    by (auto simp: get_def dest: position_SomeD has_pid_Some split: option.splits simp del: position_None)
       (metis has_pid_Some option.distinct(1) position_SomeD)
  with True show ?thesis by (simp add: save_current_def get_mut_def del: position_None)
next
  case False
  then show ?thesis
    by (simp add: save_current_def save_current_memory_def save_current_registers_def get_mut_get_mut Let_def
        saved_def [abs_def])
qed

lemma table_ok_save:
  assumes "table_ok t"
  shows "table_ok (save_current b tf m t)" and "runnable_pids (save_current b tf m t) = runnable_pids t"
proof -
  show "table_ok (save_current b tf m t)"
    unfolding save_current_eq [OF assms]
    by (rule table_ok_get_mut [OF assms])
       (auto intro: process_okI [OF table_ok_process [OF assms]] simp: saved_state split: if_splits)
  show "runnable_pids (save_current b tf m t) = runnable_pids t"
    unfolding save_current_eq [OF assms]
    by (rule runnable_pids_get_mut [OF assms]) (auto simp: runnable_def saved_state)
qed

lemma none_running_after_save:
  assumes ok: "table_ok t" and d: "switch_decision t = (True, b)" and p: "get (save_current b tf m t) pid = Some p"
  shows "p_state p \<noteq> Running"
proof (cases "pid = current_pid t")
  case True
  with p obtain q where q: "get t pid = Some q" "p = saved b m q"
    unfolding save_current_eq [OF ok] by (auto simp: pt.lookup_modify)
  then have "current_pid t \<noteq> INVALID_PID" using pid_valid [OF ok get_procs] get_pid True by metis
  with d q True show ?thesis
    by (auto simp: switch_decision_def saved_state Let_def split: ProcessState.splits if_splits)
next
  case False
  with p have "get t pid = Some p" unfolding save_current_eq [OF ok] by (simp add: pt.lookup_modify)
  with table_ok_process [OF ok this] get_pid False show ?thesis by (auto simp: process_ok_def)
qed

definition started_running :: "Process \<Rightarrow> Process" where
  "started_running p = p\<lparr>p_started := True, p_state := Running\<rparr>"

lemma set_current_simps [simp]:
  "get (set_current pid t) q = get t q" "current_pid (set_current pid t) = pid"
  "runnable_pids (set_current pid t) = runnable_pids t" "procs (set_current pid t) = procs t"
  by (simp_all add: set_current_def get_def runnable_pids_def get_all_processes_def procs_def
      split: option.split del: position_None)

lemma switch_to_eq:
  assumes p: "get t pid = Some p"
  shows "switch_to pid tf m t =
    (if p_started p then tf else initial_frame p tf,
     \<lparr>umem = (if p_memory p \<noteq> [] then restore_user_window (p_memory p) (umem m) else umem m),
      sepc = p_pc p, sscratch = p_sp p\<rparr>,
     get_mut pid started_running (set_current pid t))"
proof -
  have s: "get_mut pid (set_state Running) (set_current pid t) = get_mut pid started_running (set_current pid t)"
    if "p_started p"
  proof -
    have "p\<lparr>p_started := True, p_state := Running\<rparr> = p\<lparr>p_state := Running\<rparr>" using that by (cases p) simp
    then show ?thesis
      using p by (auto simp: get_mut_def set_current_def get_def started_running_def set_state_def
          split: option.splits simp del: position_None)
  qed
  have c: "(\<lambda>p. set_state Running (p\<lparr>p_started := True\<rparr>)) = started_running"
    by (simp add: fun_eq_iff set_state_def started_running_def)
  show ?thesis
    unfolding switch_to_def Let_def restore_process_memory_def restore_process_registers_def
    using p s by (auto simp: get_mut_get_mut c)
qed

lemma switch_to_table_ok:
  assumes ok: "table_ok t" and p: "get t pid = Some p" "runnable p"
    and none: "\<And>q r. get t q = Some r \<Longrightarrow> p_state r \<noteq> Running"
  shows "table_ok (get_mut pid started_running (set_current pid t))"
    and "runnable_pids (get_mut pid started_running (set_current pid t)) = runnable_pids t"
proof -
  have "process_ok (set_current pid t) q" if "q \<in> procs t" for q
    using that ok none [of "p_pid q" q] get_iff [OF ok]
    by (auto simp: table_ok_def process_ok_def set_current_def)
  then have ok': "table_ok (set_current pid t)"
    using ok by (simp add: table_ok_def set_current_def procs_def get_all_processes_def)
  show "table_ok (get_mut pid started_running (set_current pid t))"
  proof (rule table_ok_get_mut [OF ok'])
    fix p assume "get (set_current pid t) pid = Some p"
    from table_ok_process [OF ok' this] get_pid [OF this] show "process_ok (set_current pid t) (started_running p)"
      by (simp add: process_ok_def started_running_def)
  qed (simp add: started_running_def)
  show "runnable_pids (get_mut pid started_running (set_current pid t)) = runnable_pids t"
    using p runnable_pids_get_mut [OF ok', of started_running pid] by (simp add: started_running_def runnable_def)
qed


lemma maybe_switch_cases:
  assumes ok: "table_ok t"
  obtains (stay) "maybe_switch tf m t = (False, tf, m, t)" "\<not> fst (switch_decision t)"
    | (idle) b where "maybe_switch tf m t = (False, tf, m, save_current b tf m t)" "runnable_pids t = []"
    | (switch) b pid p where "switch_decision t = (True, b)" "schedule (save_current b tf m t) = Some pid"
        "get (save_current b tf m t) pid = Some p" "runnable p"
        "maybe_switch tf m t = (True, switch_to pid tf m (save_current b tf m t))"
proof (cases "switch_decision t")
  case (Pair d b)
  show ?thesis
  proof (cases d)
    case False
    then show ?thesis using Pair stay by (simp add: maybe_switch_def)
  next
    case True
    let ?t = "save_current b tf m t"
    show ?thesis
    proof (cases "schedule ?t")
      case None
      then have "runnable_pids t = []" using table_ok_save(2) [OF ok] by (simp add: schedule_None)
      then show ?thesis using Pair True idle [of b] None by (simp add: maybe_switch_def Let_def)
    next
      case (Some pid)
      from schedule_mem [OF Some] obtain p where "get ?t pid = Some p" "runnable p"
        using runnable_pids_mem table_ok_save(1) [OF ok] by blast
      then show ?thesis using Pair True Some switch by (simp add: maybe_switch_def Let_def)
    qed
  qed
qed

lemma maybe_switch_ok:
  assumes ok: "table_ok t" and ms: "maybe_switch tf m t = (sw, tf', m', t')"
  shows "table_ok t'" and "runnable_pids t' = runnable_pids t"
proof -
  from ok have "table_ok t' \<and> runnable_pids t' = runnable_pids t"
  proof (cases rule: maybe_switch_cases [where tf = tf and m = m])
    case (switch b pid p)
    note sv = table_ok_save [OF ok, of b tf m]
    from switch_to_table_ok [OF sv(1) switch(3,4) none_running_after_save [OF ok switch(1)]] sv(2)
    show ?thesis using ms switch(5) by (simp add: switch_to_eq [OF switch(3)])
  qed (use ms ok table_ok_save [OF ok] in auto)
  then show "table_ok t'" "runnable_pids t' = runnable_pids t" by simp_all
qed

lemma maybe_switch_stays:
  assumes "table_ok t" and "maybe_switch tf m t = (False, tf', m', t')"
  shows "current_pid t' = current_pid t"
  using assms(1)
  by (cases rule: maybe_switch_cases [where tf = tf and m = m]) (use assms in \<open>auto simp: save_current_eq\<close>)

text \<open>The saved context of a process.\<close>

definition context_of :: "ProcessTable \<Rightarrow> Pid \<Rightarrow> (bytes \<times> u64 \<times> u64) option" where
  "context_of t pid = map_option (\<lambda>p. (p_memory p, p_pc p, p_sp p)) (get t pid)"

lemma context_of_get_mut:
  assumes "\<And>p. p_pid (f p) = p_pid p"
    and "\<And>p. p_memory (f p) = p_memory p \<and> p_pc (f p) = p_pc p \<and> p_sp (f p) = p_sp p"
  shows "context_of (get_mut q f t) pid = context_of t pid"
  using assms by (simp add: context_of_def pt.lookup_modify option.map_comp comp_def)

lemma context_of_switch_to:
  assumes "get t q = Some p"
  shows "context_of (get_mut q started_running (set_current q t)) pid = context_of t pid"
proof -
  have "context_of (get_mut q started_running (set_current q t)) pid = context_of (set_current q t) pid"
    by (rule context_of_get_mut) (simp_all add: started_running_def)
  then show ?thesis by (simp add: context_of_def)
qed

lemma switch_context:
  assumes ok: "table_ok t" and ms: "maybe_switch tf m t = (sw, tf', m', t')"
  shows "pid \<noteq> current_pid t \<Longrightarrow> context_of t' pid = context_of t pid"
    and "sw \<Longrightarrow> get t (current_pid t) = Some p \<Longrightarrow>
      context_of t' (current_pid t) = Some (snapshot_user_window (umem m), sepc m, sscratch m)"
    and "sw \<Longrightarrow> current_pid t' \<noteq> current_pid t \<Longrightarrow> context_of t (current_pid t') = Some (mem, pc, sp) \<Longrightarrow>
      sepc m' = pc \<and> sscratch m' = sp \<and> umem m' = (if mem = [] then umem m else restore_user_window mem (umem m))"
proof -
  have sv: "context_of (save_current b tf m t) pid =
      (if pid = current_pid t then map_option (\<lambda>p. (snapshot_user_window (umem m), sepc m, sscratch m)) (get t pid)
       else context_of t pid)" for b pid
    unfolding save_current_eq [OF ok] by (simp add: context_of_def pt.lookup_modify option.map_comp comp_def)
  have "(pid \<noteq> current_pid t \<longrightarrow> context_of t' pid = context_of t pid) \<and>
    (sw \<longrightarrow> get t (current_pid t) = Some p \<longrightarrow>
      context_of t' (current_pid t) = Some (snapshot_user_window (umem m), sepc m, sscratch m)) \<and>
    (sw \<longrightarrow> current_pid t' \<noteq> current_pid t \<longrightarrow> context_of t (current_pid t') = Some (mem, pc, sp) \<longrightarrow>
      sepc m' = pc \<and> sscratch m' = sp \<and> umem m' = (if mem = [] then umem m else restore_user_window mem (umem m)))"
    using ok
  proof (cases rule: maybe_switch_cases [where tf = tf and m = m])
    case (switch b q r)
    let ?s = "save_current b tf m t"
    from ms switch(5) have t': "t' = get_mut q started_running (set_current q ?s)"
      and m': "m' = \<lparr>umem = (if p_memory r \<noteq> [] then restore_user_window (p_memory r) (umem m) else umem m),
        sepc = p_pc r, sscratch = p_sp r\<rparr>"
      by (simp_all add: switch_to_eq [OF switch(3)])
    have "context_of ?s q = Some (p_memory r, p_pc r, p_sp r)" using switch(3) by (simp add: context_of_def)
    with sv [of b] show ?thesis
      unfolding t' context_of_switch_to [OF switch(3)] by (auto simp: m')
  qed (use ms sv in auto)
  then show "pid \<noteq> current_pid t \<Longrightarrow> context_of t' pid = context_of t pid"
    and "sw \<Longrightarrow> get t (current_pid t) = Some p \<Longrightarrow>
      context_of t' (current_pid t) = Some (snapshot_user_window (umem m), sepc m, sscratch m)"
    and "sw \<Longrightarrow> current_pid t' \<noteq> current_pid t \<Longrightarrow> context_of t (current_pid t') = Some (mem, pc, sp) \<Longrightarrow>
      sepc m' = pc \<and> sscratch m' = sp \<and> umem m' = (if mem = [] then umem m else restore_user_window mem (umem m))"
    by auto
qed

lemma block_unblock_ok:
  assumes "table_ok t"
  shows "table_ok (block_current t)" and "table_ok (unblock q t)"
    and "context_of (block_current t) pid = context_of t pid" and "context_of (unblock q t) pid = context_of t pid"
    and "current_pid (block_current t) = current_pid t" and "current_pid (unblock q t) = current_pid t"
proof -
  show "table_ok (block_current t)"
    using assms unfolding block_current_def
    by (auto intro!: table_ok_get_mut process_okI [OF table_ok_process [OF assms]])
  show "table_ok (unblock q t)"
    unfolding unblock_def
    by (rule table_ok_get_mut [OF assms])
       (auto intro!: process_okI [OF table_ok_process [OF assms]] simp: ready_if_blocked_def split: if_splits)
qed (simp_all add: block_current_def unblock_def ready_if_blocked_def set_state_def context_of_get_mut)

section \<open>Interleavings\<close>

text \<open>
  A stretch of the kernel's life in which process \<open>a\<close> is not the current one: user code changes the
  machine, processes are blocked and woken, and the scheduler switches between the others.
\<close>

inductive away :: "Pid \<Rightarrow> ProcessTable \<Rightarrow> ProcessTable \<Rightarrow> bool" for a where
  away_start: "current_pid t \<noteq> a \<Longrightarrow> away a t t"
| away_unblock: "away a t u \<Longrightarrow> away a t (unblock q u)"
| away_block: "away a t u \<Longrightarrow> away a t (block_current u)"
| away_switch: "away a t u \<Longrightarrow> maybe_switch tf m u = (sw, tf', m', v) \<Longrightarrow> current_pid v \<noteq> a \<Longrightarrow> away a t v"

lemma away_keeps:
  "away a t u \<Longrightarrow> table_ok t \<Longrightarrow> table_ok u \<and> current_pid u \<noteq> a \<and> context_of u a = context_of t a"
proof (induction rule: away.induct)
  case (away_switch t u tf m sw tf' m' v)
  then show ?case using maybe_switch_ok [OF _ away_switch.hyps(2)] switch_context(1) [OF _ away_switch.hyps(2)] by metis
qed (simp_all add: block_unblock_ok)

text \<open>Repeated switches, each from an arbitrary machine state.\<close>

fun switches :: "(TrapFrame \<times> machine) list \<Rightarrow> ProcessTable \<Rightarrow> ProcessTable" where
  "switches [] t = t"
| "switches ((tf, m) # ms) t = (case maybe_switch tf m t of (_, _, _, t') \<Rightarrow> switches ms t')"


lemma maybe_switch_rotates:
  assumes ok: "table_ok t" and i: "i < length (runnable_pids t)" "current_pid t = runnable_pids t ! i"
    and ms: "maybe_switch tf m t = (sw, tf', m', t')"
  shows "current_pid t' = runnable_pids t ! (Suc i mod length (runnable_pids t))"
proof -
  let ?ps = "runnable_pids t"
  have mem: "current_pid t \<in> set ?ps" using i by simp
  then obtain p where p: "get t (current_pid t) = Some p" "runnable p" using runnable_pids_mem [OF ok] by blast
  from ok show ?thesis
  proof (cases rule: maybe_switch_cases [where tf = tf and m = m])
    case stay
    have "current_pid t \<noteq> INVALID_PID" using pid_valid [OF ok get_procs] get_pid p(1) by metis
    with stay(2) p have "\<not> list_ex (\<lambda>p. p_pid p \<noteq> current_pid t \<and> runnable p) (get_all_processes t)"
      by (auto simp: switch_decision_def runnable_def Let_def split: if_splits)
    then have "\<forall>x \<in> set ?ps. x = current_pid t" by (auto simp: runnable_pids_def list_ex_iff)
    then have "?ps ! (Suc i mod length ?ps) = current_pid t" using i(1)
      by (metis length_0_conv mod_less_divisor not_less_zero nth_mem neq0_conv)
    with stay(1) ms show ?thesis by simp
  next
    case (idle b)
    then show ?thesis using i(1) by simp
  next
    case (switch b pid q)
    note sv = table_ok_save [OF ok, of b tf m]
    have "current_pid (save_current b tf m t) = current_pid t" by (simp add: save_current_eq [OF ok])
    then have "pid = ?ps ! (Suc i mod length ?ps)"
      using schedule_rotates [OF sv(1), of i] i sv(2) switch(2) by simp
    moreover have "current_pid t' = pid" using ms switch(5) by (auto simp: switch_to_eq [OF switch(3)])
    ultimately show ?thesis by simp
  qed
qed

lemma switches_rotate:
  "table_ok t \<Longrightarrow> i < length (runnable_pids t) \<Longrightarrow> current_pid t = runnable_pids t ! i \<Longrightarrow>
   current_pid (switches ms t) = runnable_pids t ! ((i + length ms) mod length (runnable_pids t))"
proof (induction ms arbitrary: t i)
  case (Cons x ms)
  obtain tf m where x: "x = (tf, m)" by (cases x)
  obtain sw tf' m' t' where ms: "maybe_switch tf m t = (sw, tf', m', t')" by (metis prod_cases4)
  note k = maybe_switch_ok [OF Cons.prems(1) ms] and r = maybe_switch_rotates [OF Cons.prems ms]
  let ?n = "length (runnable_pids t)"
  have n: "Suc i mod ?n < ?n" using Cons.prems(2) by (intro mod_less_divisor) auto
  from Cons.IH [OF k(1), of "Suc i mod ?n"] n r k(2)
  have "current_pid (switches ms t') = runnable_pids t ! ((Suc i mod ?n + length ms) mod ?n)" by simp
  then show ?case by (simp add: x ms mod_add_left_eq)
qed simp

section \<open>Properties\<close>

text \<open>
  C18. Round robin: as long as the set of runnable processes does not change, the \<open>k\<close>-th context switch
  after process number \<open>i\<close> of the schedule runs number \<open>i + k\<close> (cyclically), whatever the user
  programs do in between. Every runnable process therefore gets its turn within as many switches as
  there are runnable processes.
\<close>

theorem round_robin:
  assumes "table_ok t" and "i < length (runnable_pids t)" and "current_pid t = runnable_pids t ! i"
  shows "current_pid (switches ms t) = runnable_pids t ! ((i + length ms) mod length (runnable_pids t)) \<and>
    (\<forall>j < length (runnable_pids t). \<exists>k < length (runnable_pids t). \<forall>ms. length ms = k \<longrightarrow>
       current_pid (switches ms t) = runnable_pids t ! j)"
proof -
  let ?n = "length (runnable_pids t)"
  have "\<exists>k < ?n. \<forall>ms. length ms = k \<longrightarrow> current_pid (switches ms t) = runnable_pids t ! j" if "j < ?n" for j
  proof (intro exI conjI allI impI)
    let ?k = "(j + (?n - i)) mod ?n"
    show "?k < ?n" using assms(2) by (intro mod_less_divisor) auto
    fix ms :: "(TrapFrame \<times> machine) list" assume "length ms = ?k"
    moreover have "(i + ?k) mod ?n = j"
    proof -
      have "(i + ?k) mod ?n = (i + (j + (?n - i))) mod ?n" by (rule mod_add_right_eq)
      also have "i + (j + (?n - i)) = j + ?n" using assms(2) by simp
      finally show ?thesis using that by simp
    qed
    ultimately show "current_pid (switches ms t) = runnable_pids t ! j"
      using switches_rotate [OF assms, of ms] by simp
  qed
  then show ?thesis using switches_rotate [OF assms] by blast
qed

text \<open>Two ready processes, the first of them current.\<close>

definition demo_table :: ProcessTable where
  "demo_table = table_new\<lparr>processes := (processes table_new)
     [0 := Some (process_new 1 INVALID_PID 100 200 [] [] with_standard [] 0 0),
      1 := Some (process_new 2 1 300 400 [] [] with_standard [] 0 0)], current_pid := 1, next_pid := 3\<rparr>"

lemma demo_processes: "processes demo_table =
    [Some (process_new 1 INVALID_PID 100 200 [] [] with_standard [] 0 0),
     Some (process_new 2 1 300 400 [] [] with_standard [] 0 0), None, None, None, None, None, None]"
  by (simp add: demo_table_def table_new_def numeral_eq_Suc)

lemma demo_get: "get demo_table 1 = Some (process_new 1 INVALID_PID 100 200 [] [] with_standard [] 0 0)"
  unfolding get_def demo_processes by (simp add: has_pid_def process_new_def)

lemma demo_table_ok: "table_ok demo_table" "runnable_pids demo_table = [1, 2]" "current_pid demo_table = 1"
proof -
  note ps = demo_processes
  show "table_ok demo_table"
    unfolding table_ok_def process_ok_def procs_def get_all_processes_def ps
    by (auto simp: List.map_filter_def process_new_def with_standard_def fd_new_def demo_table_def)
  show "runnable_pids demo_table = [1, 2]"
    unfolding runnable_pids_def get_all_processes_def ps
    by (simp add: List.map_filter_def process_new_def runnable_def)
  show "current_pid demo_table = 1" by (simp add: demo_table_def)
qed

definition zero_frame :: TrapFrame where
  "zero_frame = \<lparr>ra = 0, t0 = 0, t1 = 0, t2 = 0, t3 = 0, t4 = 0, t5 = 0, t6 = 0,
     a0 = 0, a1 = 0, a2 = 0, a3 = 0, a4 = 0, a5 = 0, a6 = 0, a7 = 0\<rparr>"

definition zero_machine :: machine where
  "zero_machine = \<lparr>umem = \<lambda>_. 0, sepc = 0, sscratch = 0\<rparr>"

theorem round_robin_witness:
  "current_pid (switches [(zero_frame, zero_machine)] demo_table) = 2"
  using round_robin [OF demo_table_ok(1), of 0 "[(zero_frame, zero_machine)]"] demo_table_ok(2,3) by simp

text \<open>
  A context switch keeps the invariant of the process table (in particular at most one process is
  running, and it is the current one) and the order of the schedule, and ends with the chosen
  process current and running, provided one is runnable at all.
\<close>

theorem switch_keeps_table:
  assumes "table_ok t" and "maybe_switch tf m t = (sw, tf', m', t')"
  shows "table_ok t' \<and> runnable_pids t' = runnable_pids t \<and>
    (sw \<longrightarrow> (\<exists>p. get t' (current_pid t') = Some p \<and> p_state p = Running)) \<and>
    (\<not> sw \<longrightarrow> current_pid t' = current_pid t \<and> tf' = tf \<and> m' = m)"
  using assms(1)
proof (cases rule: maybe_switch_cases [where tf = tf and m = m])
  case (switch b pid p)
  from assms(2) switch(5) have t': "sw" "t' = get_mut pid started_running (set_current pid (save_current b tf m t))"
    by (simp_all add: switch_to_eq [OF switch(3)])
  then have "get t' (current_pid t') = Some (started_running p)"
    using switch(3) by (simp add: pt.lookup_modify started_running_def)
  with t'(1) maybe_switch_ok [OF assms] show ?thesis by (simp add: started_running_def)
qed (use assms maybe_switch_ok [OF assms] in \<open>auto simp: save_current_eq\<close>)

theorem switch_keeps_table_witness:
  "table_ok (switches [(zero_frame, zero_machine)] demo_table)"
proof -
  obtain sw tf' m' t' where ms: "maybe_switch zero_frame zero_machine demo_table = (sw, tf', m', t')"
    by (metis prod_cases4)
  from switch_keeps_table [OF demo_table_ok(1) ms] ms show ?thesis by simp
qed

text \<open>
  C19. Saved contexts survive: when the kernel switches away from a process and, after any interleaving of
  switches between other processes, blocking and waking, switches back to it, the user window, the
  program counter and the stack pointer are what they were when it was switched away.
\<close>

theorem context_survives:
  assumes "table_ok t" and "get t (current_pid t) = Some p"
    and "maybe_switch tf m t = (True, tf1, m1, u)" and "away (current_pid t) u v"
    and "maybe_switch tf2 m2 v = (True, tf3, m3, w)" and "current_pid w = current_pid t"
  shows "snapshot_user_window (umem m3) = snapshot_user_window (umem m) \<and> sepc m3 = sepc m \<and> sscratch m3 = sscratch m"
proof -
  let ?a = "current_pid t" and ?win = "snapshot_user_window (umem m)"
  have u: "table_ok u" "context_of u ?a = Some (?win, sepc m, sscratch m)"
    using maybe_switch_ok(1) [OF assms(1,3)] switch_context(2) [OF assms(1,3) _ assms(2)] by simp_all
  from away_keeps [OF assms(4) u(1)] u(2)
  have v: "table_ok v" "current_pid v \<noteq> ?a" "context_of v ?a = Some (?win, sepc m, sscratch m)" by simp_all
  have "0 < length ?win" by (simp add: window_consts)
  then have "?win \<noteq> []" by (rule length_greater_0_conv [THEN iffD1])
  moreover have "snapshot_user_window (restore_user_window ?win x) = ?win" for x
    using mem_read_write_same [of USER_IMAGE_BASE ?win x]
    by (simp add: snapshot_user_window_def restore_user_window_def)
  ultimately show ?thesis using switch_context(3) [OF v(1) assms(5), of ?win] v(2,3) assms(6) by simp
qed


lemma demo_switch:
  assumes "table_ok t" and "runnable_pids t = [1, 2]" and "current_pid t \<in> {1, 2}"
  shows "\<exists>tf' m' t'. maybe_switch tf m t = (True, tf', m', t') \<and> table_ok t' \<and> runnable_pids t' = [1, 2] \<and>
    current_pid t' = 3 - current_pid t"
proof -
  obtain sw tf' m' t' where ms: "maybe_switch tf m t = (sw, tf', m', t')" by (metis prod_cases4)
  have "current_pid t' = 3 - current_pid t"
    using maybe_switch_rotates [OF assms(1) _ _ ms, of "current_pid t - 1"] assms(2,3) by auto
  moreover from this have sw using maybe_switch_stays [OF assms(1)] ms assms(3) by (cases sw) auto
  ultimately show ?thesis using maybe_switch_ok [OF assms(1) ms] ms assms(2) by auto
qed

theorem context_survives_witness:
  "\<exists>tf1 m1 u tf3 m3 w. maybe_switch zero_frame zero_machine demo_table = (True, tf1, m1, u) \<and>
     maybe_switch tf1 (m1\<lparr>umem := \<lambda>_. 7, sepc := 9\<rparr>) u = (True, tf3, m3, w) \<and>
     snapshot_user_window (umem m3) = snapshot_user_window (\<lambda>_. 0) \<and> sepc m3 = 0"
proof -
  from demo_switch [OF demo_table_ok(1,2), of zero_frame zero_machine] demo_table_ok(3) obtain tf1 m1 u where
    u: "maybe_switch zero_frame zero_machine demo_table = (True, tf1, m1, u)" "table_ok u" "runnable_pids u = [1, 2]"
      "current_pid u = 2" by auto
  from demo_switch [OF u(2,3), of tf1 "m1\<lparr>umem := \<lambda>_. 7, sepc := 9\<rparr>"] u(4) obtain tf3 m3 w where
    w: "maybe_switch tf1 (m1\<lparr>umem := \<lambda>_. 7, sepc := 9\<rparr>) u = (True, tf3, m3, w)" "current_pid w = 1" by auto
  obtain p where "get demo_table (current_pid demo_table) = Some p"
    using runnable_pids_mem [OF demo_table_ok(1), of 1] demo_table_ok(2,3) by auto
  moreover have "away (current_pid demo_table) u u" by (rule away_start) (simp add: u(4) demo_table_ok(3))
  ultimately show ?thesis
    using context_survives [OF demo_table_ok(1) _ u(1) _ w(1)] u(1) w demo_table_ok(3)
    by (auto simp: zero_machine_def)
qed

text \<open>
  Whether a process has started changes only when it is switched to.
\<close>

lemma switch_started:
  assumes ok: "table_ok t" and ms: "maybe_switch tf m t = (sw, tf', m', t')" and a: "current_pid t' \<noteq> a"
  shows "map_option p_started (get t' a) = map_option p_started (get t a)"
  using ok
proof (cases rule: maybe_switch_cases [where tf = tf and m = m])
  case (switch b pid p)
  from ms switch(5) have "t' = get_mut pid started_running (set_current pid (save_current b tf m t))"
    by (simp add: switch_to_eq [OF switch(3)])
  then show ?thesis using a
    by (simp add: save_current_eq [OF ok] pt.lookup_modify started_running_def option.map_comp comp_def)
qed (use ms in \<open>auto simp: save_current_eq [OF ok] pt.lookup_modify option.map_comp comp_def\<close>)

lemma away_started:
  "away a t u \<Longrightarrow> table_ok t \<Longrightarrow> map_option p_started (get u a) = map_option p_started (get t a)"
proof (induction rule: away.induct)
  case (away_switch t u tf m sw tf' m' v)
  then show ?case using away_keeps [OF away_switch.hyps(1)] switch_started [OF _ away_switch.hyps(2,3)] by simp
qed (auto simp: block_current_def unblock_def pt.lookup_modify ready_if_blocked_def set_state_def option.map_comp comp_def
    intro!: map_option_cong)

lemma switch_frame:
  assumes ok: "table_ok t" and ms: "maybe_switch tf m t = (True, tf', m', t')"
  obtains p where "get t (current_pid t') = Some p" "tf' = (if p_started p then tf else initial_frame p tf)"
  using ok
proof (cases rule: maybe_switch_cases [where tf = tf and m = m])
  case (switch b pid q)
  with ms have t': "tf' = (if p_started q then tf else initial_frame q tf)" "current_pid t' = pid"
    by (auto simp: switch_to_eq [OF switch(3)])
  obtain p where p: "get t pid = Some p" "q = p \<or> q = saved b m p"
    using switch(3) unfolding save_current_eq [OF ok] by (auto simp: pt.lookup_modify split: if_splits)
  then have "p_started q = p_started p \<and> initial_frame q tf = initial_frame p tf"
    by (auto simp: initial_frame_def saved_def Let_def ready_if_running_def set_state_def split: if_splits)
  with t' p(1) that show ?thesis by simp
qed (use ms in auto)

text \<open>
  C20. Of the general registers nothing survives. A process that has started is switched away with the trap
  frame \<open>tf\<close> and, after any interleaving of the others, switched back to from a trap with the frame
  \<open>tf2\<close>: it goes on with \<open>tf2\<close>, the registers of whoever ran before it, whatever its own were. The
  process that runs meanwhile gets its arguments and cleared registers if it is new, and the
  registers of the first one if it is not.
\<close>

theorem registers_not_switched:
  assumes "table_ok t" and "get t (current_pid t) = Some p" and "p_started p"
    and "maybe_switch tf m t = (True, tf1, m1, u)" and "away (current_pid t) u v"
    and "maybe_switch tf2 m2 v = (True, tf3, m3, w)" and "current_pid w = current_pid t"
  shows "tf3 = tf2 \<and> (\<exists>q. get t (current_pid u) = Some q \<and> tf1 = (if p_started q then tf else initial_frame q tf))"
proof
  have "current_pid x \<noteq> a" if "away a x y" for a x y using that by (induction rule: away.induct)
  then have u: "table_ok u" "current_pid u \<noteq> current_pid t" using maybe_switch_ok(1) [OF assms(1,4)] assms(5) by blast+
  then have "map_option p_started (get v (current_pid t)) = Some True"
    using away_started [OF assms(5) u(1)] switch_started [OF assms(1,4) u(2)] assms(2,3) by simp
  moreover obtain r where "get v (current_pid w) = Some r" "tf3 = (if p_started r then tf2 else initial_frame r tf2)"
    using away_keeps [OF assms(5) u(1)] by (blast intro: switch_frame [OF _ assms(6)])
  ultimately show "tf3 = tf2" using assms(7) by simp
  show "\<exists>q. get t (current_pid u) = Some q \<and> tf1 = (if p_started q then tf else initial_frame q tf)"
    by (rule switch_frame [OF assms(1,4)]) blast
qed

text \<open>The first process has started; the second is new and has two arguments.\<close>

definition demo_started :: ProcessTable where
  "demo_started = get_mut 2 (\<lambda>p. p\<lparr>p_argc := 2, p_argv_ptr := 4096\<rparr>) (get_mut 1 (\<lambda>p. p\<lparr>p_started := True\<rparr>) demo_table)"

lemma demo_started_ok: "table_ok demo_started" "runnable_pids demo_started = [1, 2]" "current_pid demo_started = 1"
    "\<exists>p. get demo_started 1 = Some p \<and> p_started p"
    "\<exists>p. get demo_started 2 = Some p \<and> \<not> p_started p \<and> p_argc p = 2 \<and> p_argv_ptr p = 4096"
proof -
  let ?t = "get_mut 1 (\<lambda>p. p\<lparr>p_started := True\<rparr>) demo_table"
  have t: "table_ok ?t" "runnable_pids ?t = [1, 2]"
    using table_ok_get_mut [OF demo_table_ok(1), of "\<lambda>p. p\<lparr>p_started := True\<rparr>" 1] table_ok_process [OF demo_table_ok(1)]
      runnable_pids_get_mut [OF demo_table_ok(1), of "\<lambda>p. p\<lparr>p_started := True\<rparr>" 1]
    by (auto simp: process_ok_def runnable_def demo_table_ok(2))
  show "table_ok demo_started" "runnable_pids demo_started = [1, 2]"
    using table_ok_get_mut [OF t(1), of "\<lambda>p. p\<lparr>p_argc := 2, p_argv_ptr := 4096\<rparr>" 2] table_ok_process [OF t(1)]
      runnable_pids_get_mut [OF t(1), of "\<lambda>p. p\<lparr>p_argc := 2, p_argv_ptr := 4096\<rparr>" 2]
    by (auto simp: process_ok_def runnable_def t(2) [simplified] demo_started_def)
  show "current_pid demo_started = 1" by (simp add: demo_started_def demo_table_ok(3))
  have "get demo_table 2 = Some (process_new 2 1 300 400 [] [] with_standard [] 0 0)"
    unfolding get_def demo_processes by (simp add: has_pid_def process_new_def)
  then show "\<exists>p. get demo_started 1 = Some p \<and> p_started p"
    "\<exists>p. get demo_started 2 = Some p \<and> \<not> p_started p \<and> p_argc p = 2 \<and> p_argv_ptr p = 4096"
    using demo_get by (simp_all add: demo_started_def pt.lookup_modify process_new_def)
qed

theorem registers_not_switched_witness:
  "\<exists>tf1 m1 u tf3 m3 w.
     maybe_switch (zero_frame\<lparr>ra := 11, a0 := 1, t0 := 5\<rparr>) zero_machine demo_started = (True, tf1, m1, u) \<and>
     tf1 = zero_frame\<lparr>a0 := 2, a1 := 4096\<rparr> \<and>
     maybe_switch (zero_frame\<lparr>ra := 22, a0 := 3, t0 := 6\<rparr>) m1 u = (True, tf3, m3, w) \<and> current_pid w = 1 \<and>
     tf3 = zero_frame\<lparr>ra := 22, a0 := 3, t0 := 6\<rparr>"
proof -
  let ?f = "zero_frame\<lparr>ra := 11, a0 := 1, t0 := 5\<rparr>" and ?g = "zero_frame\<lparr>ra := 22, a0 := 3, t0 := 6\<rparr>"
  note ok = demo_started_ok
  from demo_switch [OF ok(1,2), of ?f zero_machine] ok(3) obtain tf1 m1 u where
    u: "maybe_switch ?f zero_machine demo_started = (True, tf1, m1, u)" "table_ok u" "runnable_pids u = [1, 2]"
      "current_pid u = 2" by auto
  from demo_switch [OF u(2,3), of ?g m1] u(4) obtain tf3 m3 w where
    w: "maybe_switch ?g m1 u = (True, tf3, m3, w)" "current_pid w = 1" by auto
  obtain p where p: "get demo_started (current_pid demo_started) = Some p" "p_started p" using ok(3,4) by auto
  have "away (current_pid demo_started) u u" by (rule away_start) (simp add: u(4) ok(3))
  from registers_not_switched [OF ok(1) p u(1) this w(1)] w(2) u(4) ok(3,5)
  have "tf3 = ?g" "tf1 = zero_frame\<lparr>a0 := 2, a1 := 4096\<rparr>" by (auto simp: initial_frame_def zero_frame_def)
  with u(1) w show ?thesis by blast
qed

end
