(* ===== verification/Fd.thy ===== *)
theory Fd
  imports Scheduler FsProps
begin

text \<open>
  The operations of \<^verbatim>\<open>src/fd.rs\<close> that reach beyond a descriptor table: the global pipe table with its
  reference counts and wake-ups, descriptors of all three kinds, closing, duplicating and cloning.
  The kernel's state holds everything they touch, and whether the lock of the process table is
  held: a wake-up takes that lock, so waking a process while it is held never returns.
\<close>

section \<open>The kernel's state\<close>

text \<open>
  What has gone out on the console, one entry for each call that sends something, with the side it
  comes from: the program whose write reaches the console, or the kernel's own messages. Both go to
  the same device; \<open>wire\<close> is what it sees, \<open>printed\<close> what the programs have written.
\<close>

datatype origin = ByProgram | ByKernel

type_synonym transcript = "(origin \<times> bytes) list"

record kernel =
  k_table :: ProcessTable
  k_locked :: bool
  k_pipes :: "Pipe option list"
  k_fs :: fs_instance
  k_rx :: bytes
  k_tx :: transcript
  k_machine :: machine

definition MAX_PIPES :: nat where "MAX_PIPES = 8"

lemmas fd_consts [simp] = MAX_PIPES_def

text \<open>
  \<^verbatim>\<open>src/uart.rs\<close>: \<open>k_rx\<close> are the bytes that have arrived or still will, \<open>k_tx\<close> is what was sent.
  \<^verbatim>\<open>write_bytes\<close> sends a carriage return before a line feed; \<^verbatim>\<open>read_byte_blocking\<close> spins until there
  is a byte.
\<close>

definition console :: "bytes \<Rightarrow> bytes" where
  "console bs = concat (map (\<lambda>b. if b = 10 then [13, b] else [b]) bs)"

definition uart_write_bytes :: "origin \<Rightarrow> bytes \<Rightarrow> kernel \<Rightarrow> kernel" where
  "uart_write_bytes w bs k = k\<lparr>k_tx := k_tx k @ [(w, console bs)]\<rparr>"

definition wire :: "kernel \<Rightarrow> bytes" where
  "wire k = concat (map snd (k_tx k))"

definition output_of :: "transcript \<Rightarrow> bytes" where
  "output_of ts = concat (map snd (filter (\<lambda>(w, _). w = ByProgram) ts))"

definition printed :: "kernel \<Rightarrow> bytes" where
  "printed k = output_of (k_tx k)"

lemma console_append: "console (a @ b) = console a @ console b"
  by (simp add: console_def)

lemma output_of_append [simp]: "output_of (a @ b) = output_of a @ output_of b"
  by (simp add: output_of_def)

lemma output_of_simps [simp]:
  "output_of [] = []" "output_of ((ByProgram, t) # ts) = t @ output_of ts" "output_of ((ByKernel, t) # ts) = output_of ts"
  by (simp_all add: output_of_def)

lemma uart_write_fields [simp]:
  "k_table (uart_write_bytes w b k) = k_table k" "k_locked (uart_write_bytes w b k) = k_locked k"
  "k_pipes (uart_write_bytes w b k) = k_pipes k" "k_fs (uart_write_bytes w b k) = k_fs k"
  "k_rx (uart_write_bytes w b k) = k_rx k" "k_machine (uart_write_bytes w b k) = k_machine k"
  "k_tx (uart_write_bytes w b k) = k_tx k @ [(w, console b)]"
  by (simp_all add: uart_write_bytes_def)

text \<open>The kernel's own messages, \<^verbatim>\<open>uart::write_str\<close>.\<close>

abbreviation report :: "bytes \<Rightarrow> kernel \<Rightarrow> kernel" where
  "report \<equiv> uart_write_bytes ByKernel"

fun reports :: "bytes list \<Rightarrow> kernel \<Rightarrow> kernel" where
  "reports [] k = k"
| "reports (t # ts) k = reports ts (report t k)"

lemma reports_fields [simp]:
  "k_table (reports ts k) = k_table k" "k_locked (reports ts k) = k_locked k" "k_pipes (reports ts k) = k_pipes k"
  "k_fs (reports ts k) = k_fs k" "k_rx (reports ts k) = k_rx k" "k_machine (reports ts k) = k_machine k"
  "k_tx (reports ts k) = k_tx k @ map (\<lambda>t. (ByKernel, console t)) ts"
  by (induction ts arbitrary: k) simp_all

definition read_byte_blocking :: "kernel \<Rightarrow> (u8, 'e) outcome \<times> kernel" where
  "read_byte_blocking k = (case k_rx k of b # bs \<Rightarrow> (Ok b, k\<lparr>k_rx := bs\<rparr>) | [] \<Rightarrow> (Hang, k))"

text \<open>\<^verbatim>\<open>Scheduler::unblock\<close> from inside the kernel, and the loop of \<^verbatim>\<open>wake_readers\<close> and \<^verbatim>\<open>wake_writers\<close>.\<close>

definition k_unblock :: "Pid \<Rightarrow> kernel \<Rightarrow> (unit, 'e) outcome \<times> kernel" where
  "k_unblock pid k = (if k_locked k then (Hang, k) else (Ok (), k\<lparr>k_table := unblock pid (k_table k)\<rparr>))"

fun wake :: "Pid list \<Rightarrow> kernel \<Rightarrow> (unit, 'e) outcome \<times> kernel" where
  "wake [] k = (Ok (), k)"
| "wake (pid # pids) k = tryS (k_unblock pid k) (\<lambda>_ k. wake pids k)"

section \<open>The pipe table\<close>

definition set_pipe :: "nat \<Rightarrow> Pipe option \<Rightarrow> kernel \<Rightarrow> kernel" where
  "set_pipe i p k = k\<lparr>k_pipes := (k_pipes k)[i := p]\<rparr>"

definition create_pipe :: "kernel \<Rightarrow> (nat, FdError) outcome \<times> kernel" where
  "create_pipe k =
     (case position (\<lambda>slot. slot = None) (k_pipes k) of
        Some i \<Rightarrow> (Ok i, set_pipe i (Some pipe_new) k)
      | None \<Rightarrow> (Err TooManyOpen, k))"

text \<open>The check and lookup every method begins with.\<close>

definition lookup_pipe :: "nat \<Rightarrow> kernel \<Rightarrow> (Pipe, FdError) outcome" where
  "lookup_pipe i k = (if MAX_PIPES \<le> i then Err BadFd else ok_or BadFd (k_pipes k ! i))"

definition saturating_inc :: "nat \<Rightarrow> nat" where
  "saturating_inc n = min (n + 1) (2 ^ 64 - 1)"

definition incref :: "nat \<Rightarrow> bool \<Rightarrow> kernel \<Rightarrow> (unit, FdError) outcome \<times> kernel" where
  "incref i is_read k =
     tryS (lookup_pipe i k, k) (\<lambda>p k.
       (Ok (), set_pipe i (Some
          (if is_read then p\<lparr>read_refcount := saturating_inc (read_refcount p), read_end_open := True\<rparr>
           else p\<lparr>write_refcount := saturating_inc (write_refcount p), write_end_open := True\<rparr>)) k))"

definition wake_readers :: "nat \<Rightarrow> Pipe \<Rightarrow> kernel \<Rightarrow> (unit, FdError) outcome \<times> kernel" where
  "wake_readers i p k = wake (waiting_readers p) (set_pipe i (Some (p\<lparr>waiting_readers := []\<rparr>)) k)"

definition wake_writers :: "nat \<Rightarrow> Pipe \<Rightarrow> kernel \<Rightarrow> (unit, FdError) outcome \<times> kernel" where
  "wake_writers i p k = wake (waiting_writers p) (set_pipe i (Some (p\<lparr>waiting_writers := []\<rparr>)) k)"

text \<open>\<^verbatim>\<open>PipeTable::read\<close> and \<^verbatim>\<open>write\<close>; reading also returns the caller's buffer.\<close>

definition pt_read :: "nat \<Rightarrow> bytes \<Rightarrow> kernel \<Rightarrow> (nat, FdError) outcome \<times> bytes \<times> kernel" where
  "pt_read i buf k =
     tryS (lookup_pipe i k, buf, k) (\<lambda>p (buf, k).
       case pipe_read p buf of (r, q, buf) \<Rightarrow>
         tryS (r, buf, set_pipe i (Some q) k) (\<lambda>n (buf, k).
           if 0 < n then case wake_writers i q k of (w, k) \<Rightarrow> tryS (w, buf, k) (\<lambda>_ s. (Ok n, s))
           else (Ok n, buf, k)))"

definition pt_write :: "nat \<Rightarrow> bytes \<Rightarrow> kernel \<Rightarrow> (nat, FdError) outcome \<times> kernel" where
  "pt_write i buf k =
     tryS (lookup_pipe i k, k) (\<lambda>p k.
       case pipe_write p buf of (r, q) \<Rightarrow>
         tryS (r, set_pipe i (Some q) k) (\<lambda>n k.
           if 0 < n then tryS (wake_readers i q k) (\<lambda>_ k. (Ok n, k)) else (Ok n, k)))"

definition mark_reader_waiting :: "nat \<Rightarrow> Pid \<Rightarrow> kernel \<Rightarrow> (unit, FdError) outcome \<times> kernel" where
  "mark_reader_waiting i pid k =
     tryS (lookup_pipe i k, k) (\<lambda>p k. (Ok (), set_pipe i (Some (pipe_mark_reader_waiting pid p)) k))"

definition mark_writer_waiting :: "nat \<Rightarrow> Pid \<Rightarrow> kernel \<Rightarrow> (unit, FdError) outcome \<times> kernel" where
  "mark_writer_waiting i pid k =
     tryS (lookup_pipe i k, k) (\<lambda>p k. (Ok (), set_pipe i (Some (pipe_mark_writer_waiting pid p)) k))"

text \<open>Releasing one reference to one end, before anyone is woken.\<close>

definition release_end :: "bool \<Rightarrow> Pipe \<Rightarrow> Pipe" where
  "release_end is_read p =
     (if is_read
      then let n = read_refcount p - 1 in p\<lparr>read_refcount := n, read_end_open := 0 < n\<rparr>
      else let n = write_refcount p - 1 in p\<lparr>write_refcount := n, write_end_open := 0 < n\<rparr>)"

definition close_pipe_end :: "nat \<Rightarrow> bool \<Rightarrow> kernel \<Rightarrow> (unit, FdError) outcome \<times> kernel" where
  "close_pipe_end i is_read k =
     (if MAX_PIPES \<le> i then (Err BadFd, k)
      else case k_pipes k ! i of
        None \<Rightarrow> (Ok (), k)
      | Some p0 \<Rightarrow>
          let p = release_end is_read p0; k = set_pipe i (Some p) k in
          tryS (if is_read then (if \<not> read_end_open p then wake_writers i p k else (Ok (), k))
                else (if \<not> write_end_open p then wake_readers i p k else (Ok (), k))) (\<lambda>_ k.
            (Ok (), if \<not> read_end_open p \<and> \<not> write_end_open p then set_pipe i None k else k)))"

section \<open>Descriptor tables\<close>

text \<open>Cloning a descriptor takes another reference to its pipe end.\<close>

fun fd_clone :: "FileDescriptor \<Rightarrow> kernel \<Rightarrow> (FileDescriptor, FdError) outcome \<times> kernel" where
  "fd_clone (FdUart m) k = (Ok (FdUart m), k)"
| "fd_clone (FdFile f) k = (Ok (FdFile f), k)"
| "fd_clone (FdPipe p) k = tryS (ignore_err (incref (pipe_id p) (is_read_end p) k)) (\<lambda>_ k. (Ok (FdPipe p), k))"

fun clone_table :: "FdTable \<Rightarrow> kernel \<Rightarrow> (FdTable, FdError) outcome \<times> kernel" where
  "clone_table [] k = (Ok [], k)"
| "clone_table (None # t) k = tryS (clone_table t k) (\<lambda>t' k. (Ok (None # t'), k))"
| "clone_table (Some fd # t) k =
     tryS (fd_clone fd k) (\<lambda>fd' k. tryS (clone_table t k) (\<lambda>t' k. (Ok (Some fd' # t'), k)))"

definition release :: "FileDescriptor option \<Rightarrow> kernel \<Rightarrow> (unit, FdError) outcome \<times> kernel" where
  "release slot k =
     (case slot of Some (FdPipe p) \<Rightarrow> close_pipe_end (pipe_id p) (is_read_end p) k | _ \<Rightarrow> (Ok (), k))"

definition fd_close :: "nat \<Rightarrow> FdTable \<Rightarrow> kernel \<Rightarrow> (unit, FdError) outcome \<times> FdTable \<times> kernel" where
  "fd_close n t k =
     (if MAX_FDS \<le> n then (Err BadFd, t, k)
      else if t ! n = None then (Err BadFd, t, k)
      else case release (t ! n) k of (r, k) \<Rightarrow> (r, t[n := None], k))"

definition dup2 :: "nat \<Rightarrow> nat \<Rightarrow> FdTable \<Rightarrow> kernel \<Rightarrow> (unit, FdError) outcome \<times> FdTable \<times> kernel" where
  "dup2 old_fd new_fd t k =
     (if MAX_FDS \<le> old_fd \<or> MAX_FDS \<le> new_fd then (Err BadFd, t, k)
      else case t ! old_fd of
        None \<Rightarrow> (Err BadFd, t, k)
      | Some fd \<Rightarrow>
          (case fd_clone fd k of (c, k) \<Rightarrow> tryS (c, t, k) (\<lambda>cloned (t, k).
             case release (t ! new_fd) k of (r, k) \<Rightarrow> tryS (r, t[new_fd := None], k) (\<lambda>_ (t, k).
               (Ok (), t[new_fd := Some cloned], k)))))"

fun close_from :: "nat list \<Rightarrow> FdTable \<Rightarrow> kernel \<Rightarrow> (unit, FdError) outcome \<times> FdTable \<times> kernel" where
  "close_from [] t k = (Ok (), t, k)"
| "close_from (n # ns) t k = tryS (ignore_err (fd_close n t k)) (\<lambda>_ (t, k). close_from ns t k)"

definition close_all :: "FdTable \<Rightarrow> kernel \<Rightarrow> (unit, FdError) outcome \<times> FdTable \<times> kernel" where
  "close_all t k = close_from [0..<MAX_FDS] t k"

text \<open>\<^verbatim>\<open>ProcessTable::exit_process\<close>.\<close>

definition exit_process :: "Pid \<Rightarrow> u64 \<Rightarrow> kernel \<Rightarrow> (unit, FdError) outcome \<times> kernel" where
  "exit_process pid code k =
     (case get (k_table k) pid of
        None \<Rightarrow> (Ok (), k)
      | Some p \<Rightarrow>
          (case close_all (p_fd_table p) k of (r, t, k) \<Rightarrow> tryS (r, k) (\<lambda>_ k.
             (Ok (), k\<lparr>k_table := get_mut pid (\<lambda>p. process_exit code (p\<lparr>p_fd_table := t\<rparr>)) (k_table k)\<rparr>))))"

section \<open>Reading and writing\<close>

definition file_open :: "bytes \<Rightarrow> FileMode \<Rightarrow> kernel \<Rightarrow> (FileFd, FdError) outcome \<times> kernel" where
  "file_open path mode k =
     (case fs_read_file (k_fs k) path of (r, g) \<Rightarrow> tryS (attempt r, k\<lparr>k_fs := g\<rparr>) (\<lambda>found k.
        let exists = (found \<noteq> None) in
        if \<not> exists \<and> \<not> m_create mode then (Err FdNotFound, k)
        else tryS (if \<not> exists \<and> m_create mode
                   then case fs_create_file (k_fs k) path of (r, g) \<Rightarrow> (map_err FdFs r, k\<lparr>k_fs := g\<rparr>)
                   else (Ok (), k)) (\<lambda>_ k.
          if m_append mode
          then case fs_read_file (k_fs k) path of (r, g) \<Rightarrow> tryS (attempt r, k\<lparr>k_fs := g\<rparr>) (\<lambda>data k.
                 (Ok \<lparr>f_path = path, f_pos = (case data of Some d \<Rightarrow> length d | None \<Rightarrow> 0), f_mode = mode\<rparr>, k))
          else (Ok \<lparr>f_path = path, f_pos = 0, f_mode = mode\<rparr>, k))))"

definition file_read :: "FileFd \<Rightarrow> bytes \<Rightarrow> kernel \<Rightarrow> (nat, FdError) outcome \<times> FileFd \<times> bytes \<times> kernel" where
  "file_read f buf k =
     (if \<not> m_read (f_mode f) then (Err BadFd, f, buf, k)
      else case fs_read_file (k_fs k) (f_path f) of (r, g) \<Rightarrow>
        tryS (map_err FdFs r, f, buf, k\<lparr>k_fs := g\<rparr>) (\<lambda>contents (f, buf, k).
          if length contents \<le> f_pos f then (Ok 0, f, buf, k)
          else
            let to_read = min (length buf) (length contents - f_pos f) in
            (Ok to_read, f\<lparr>f_pos := f_pos f + to_read\<rparr>, put_slice 0 (slice (f_pos f) to_read contents) buf, k)))"

definition file_write :: "FileFd \<Rightarrow> bytes \<Rightarrow> kernel \<Rightarrow> (nat, FdError) outcome \<times> FileFd \<times> kernel" where
  "file_write f buf k =
     (if \<not> m_write (f_mode f) then (Err BadFd, f, k)
      else if m_append (f_mode f) then
        case fs_read_file (k_fs k) (f_path f) of (r, g) \<Rightarrow> tryS (attempt r, f, k\<lparr>k_fs := g\<rparr>) (\<lambda>found (f, k).
          let contents = (case found of Some c \<Rightarrow> c | None \<Rightarrow> []) @ buf in
          case fs_write_file (k_fs k) (f_path f) contents of (r, g) \<Rightarrow>
            tryS (map_err FdFs r, f, k\<lparr>k_fs := g\<rparr>) (\<lambda>_ (f, k). (Ok (length buf), f\<lparr>f_pos := length contents\<rparr>, k)))
      else
        case fs_write_file (k_fs k) (f_path f) buf of (r, g) \<Rightarrow>
          tryS (map_err FdFs r, f, k\<lparr>k_fs := g\<rparr>) (\<lambda>_ (f, k). (Ok (length buf), f\<lparr>f_pos := length buf\<rparr>, k)))"

fun uart_fd_read :: "UartMode \<Rightarrow> bytes \<Rightarrow> kernel \<Rightarrow> (nat, FdError) outcome \<times> bytes \<times> kernel" where
  "uart_fd_read UartRead buf k =
     (if buf = [] then (Ok 0, buf, k)
      else case read_byte_blocking k of (r, k) \<Rightarrow> tryS (r, buf, k) (\<lambda>byte (buf, k). (Ok 1, buf[0 := byte], k)))"
| "uart_fd_read UartWrite buf k = (Err BadFd, buf, k)"

fun uart_fd_write :: "UartMode \<Rightarrow> bytes \<Rightarrow> kernel \<Rightarrow> (nat, FdError) outcome \<times> kernel" where
  "uart_fd_write UartWrite buf k = (Ok (length buf), uart_write_bytes ByProgram buf k)"
| "uart_fd_write UartRead buf k = (Err BadFd, k)"

definition pipe_fd_read :: "PipeFd \<Rightarrow> bytes \<Rightarrow> kernel \<Rightarrow> (nat, FdError) outcome \<times> bytes \<times> kernel" where
  "pipe_fd_read p buf k = (if \<not> is_read_end p then (Err BadFd, buf, k) else pt_read (pipe_id p) buf k)"

definition pipe_fd_write :: "PipeFd \<Rightarrow> bytes \<Rightarrow> kernel \<Rightarrow> (nat, FdError) outcome \<times> kernel" where
  "pipe_fd_write p buf k = (if is_read_end p then (Err BadFd, k) else pt_write (pipe_id p) buf k)"

text \<open>\<^verbatim>\<open>FileDescriptor::read\<close> and \<^verbatim>\<open>write\<close>, with the descriptor they may advance.\<close>

fun descriptor_read ::
  "FileDescriptor \<Rightarrow> bytes \<Rightarrow> kernel \<Rightarrow> (nat, FdError) outcome \<times> FileDescriptor \<times> bytes \<times> kernel" where
  "descriptor_read (FdUart m) buf k = (case uart_fd_read m buf k of (r, buf, k) \<Rightarrow> (r, FdUart m, buf, k))"
| "descriptor_read (FdFile f) buf k = (case file_read f buf k of (r, f, buf, k) \<Rightarrow> (r, FdFile f, buf, k))"
| "descriptor_read (FdPipe p) buf k = (case pipe_fd_read p buf k of (r, buf, k) \<Rightarrow> (r, FdPipe p, buf, k))"

fun descriptor_write ::
  "FileDescriptor \<Rightarrow> bytes \<Rightarrow> kernel \<Rightarrow> (nat, FdError) outcome \<times> FileDescriptor \<times> kernel" where
  "descriptor_write (FdUart m) buf k = (case uart_fd_write m buf k of (r, k) \<Rightarrow> (r, FdUart m, k))"
| "descriptor_write (FdFile f) buf k = (case file_write f buf k of (r, f, k) \<Rightarrow> (r, FdFile f, k))"
| "descriptor_write (FdPipe p) buf k = (case pipe_fd_write p buf k of (r, k) \<Rightarrow> (r, FdPipe p, k))"

end
