(* ===== verification/FdRefs.thy ===== *)
theory FdRefs
  imports Fd
begin

text \<open>
  Reference counting of pipes. The counts kept in the pipe table are compared with the number of
  descriptors that name each pipe end: creating, cloning, duplicating and closing descriptors keep
  the two equal, so an end is open exactly while someone holds it and a pipe is freed exactly when
  nobody does. Closing the last descriptor of an end wakes the other side, which is where the lock
  of the process table matters.
\<close>

section \<open>Waking\<close>

lemma wake_unlocked:
  "\<not> k_locked k \<Longrightarrow> wake pids k = (Ok (), k\<lparr>k_table := fold unblock pids (k_table k)\<rparr>)"
  by (induction pids arbitrary: k) (simp_all add: k_unblock_def)

lemma wake_locked: "k_locked k \<Longrightarrow> wake pids k = (if pids = [] then (Ok (), k) else (Hang, k))"
  by (cases pids) (simp_all add: k_unblock_def)

lemma get_fold_unblock:
  "get (fold unblock pids t) pid =
     (if pid \<in> set pids then map_option ready_if_blocked (get t pid) else get t pid)"
  unfolding unblock_def [abs_def] using pt.lookup_fold_modify [of ready_if_blocked pids t pid]
  by (simp add: ready_if_blocked_idem)

text \<open>Nobody will spin on the lock: it is free, or nobody waits for any pipe.\<close>

definition quiet :: "kernel \<Rightarrow> bool" where
  "quiet k \<longleftrightarrow> \<not> k_locked k \<or>
     (\<forall>p. Some p \<in> set (k_pipes k) \<longrightarrow> waiting_readers p = [] \<and> waiting_writers p = [])"

section \<open>Counting\<close>

type_synonym counts = "nat \<Rightarrow> bool \<Rightarrow> nat"

definition end_of :: "nat \<Rightarrow> bool \<Rightarrow> FileDescriptor option" where
  "end_of i b = Some (FdPipe \<lparr>pipe_id = i, is_read_end = b\<rparr>)"

definition refs :: "FdTable \<Rightarrow> counts" where
  "refs t i b = count_list t (end_of i b)"

definition one :: "FileDescriptor option \<Rightarrow> counts" where
  "one slot i b = (if slot = end_of i b then 1 else 0)"

definition plus :: "counts \<Rightarrow> counts \<Rightarrow> counts" where
  "plus m n i b = m i b + n i b"

definition pipe_counted :: "counts \<Rightarrow> nat \<Rightarrow> Pipe option \<Rightarrow> bool" where
  "pipe_counted n i slot \<longleftrightarrow>
     (case slot of
        None \<Rightarrow> n i True = 0 \<and> n i False = 0
      | Some p \<Rightarrow> pipe_wf p \<and> read_refcount p = n i True \<and> write_refcount p = n i False \<and>
          read_end_open p = (0 < n i True) \<and> write_end_open p = (0 < n i False) \<and> 0 < n i True + n i False)"

definition counted :: "counts \<Rightarrow> kernel \<Rightarrow> bool" where
  "counted n k \<longleftrightarrow> length (k_pipes k) = MAX_PIPES \<and>
     (\<forall>i < MAX_PIPES. pipe_counted n i (k_pipes k ! i)) \<and> (\<forall>i b. MAX_PIPES \<le> i \<longrightarrow> n i b = 0)"

lemma end_of_eq [simp]:
  "end_of i b = end_of j c \<longleftrightarrow> i = j \<and> b = c" "end_of i b \<noteq> None"
  "end_of i b = Some (FdPipe q) \<longleftrightarrow> pipe_id q = i \<and> is_read_end q = b"
  "end_of i b \<noteq> Some (FdUart u)" "end_of i b \<noteq> Some (FdFile f)"
  by (auto simp: end_of_def)

lemma count_list_update:
  "m < length xs \<Longrightarrow> count_list (xs[m := x]) y + (if xs ! m = y then 1 else 0) = count_list xs y + (if x = y then 1 else 0)"
proof (induction xs arbitrary: m)
  case (Cons a xs)
  show ?case
  proof (cases m)
    case (Suc k)
    then show ?thesis using Cons.IH [of k] Cons.prems by (auto split: if_splits)
  qed auto
qed simp

lemma refs_update:
  "m < length t \<Longrightarrow> plus (refs (t[m := x])) (one (t ! m)) = plus (refs t) (one x)"
  using count_list_update [of m t x] by (auto simp: fun_eq_iff refs_def one_def plus_def)

lemma refs_le: "refs t i b \<le> length t"
  by (simp add: refs_def count_le_length)

text \<open>One more and one less reference to an end.\<close>

lemma counted_set:
  assumes n: "counted n k" and i: "i < MAX_PIPES" and p: "pipe_counted n' i slot"
    and other: "\<And>j b. j \<noteq> i \<Longrightarrow> n' j b = n j b"
  shows "counted n' (set_pipe i slot k)"
proof -
  have "pipe_counted n' j ((k_pipes k)[i := slot] ! j)" if "j < MAX_PIPES" for j
  proof (cases "j = i")
    case True
    then show ?thesis using n i p by (simp add: counted_def)
  next
    case False
    then have "pipe_counted n' j (k_pipes k ! j) = pipe_counted n j (k_pipes k ! j)"
      using other by (simp add: pipe_counted_def split: option.split)
    then show ?thesis using False that n by (simp add: counted_def)
  qed
  then show ?thesis using n i other by (auto simp: counted_def set_pipe_def)
qed

lemma counted_table [simp]: "counted n (k\<lparr>k_table := t\<rparr>) = counted n k"
  by (simp add: counted_def)

lemma incref_counted:
  assumes n: "counted n k" and pos: "0 < n i b" and bound: "n i b + 1 < 2 ^ 64"
  shows "\<exists>q. incref i b k = (Ok (), set_pipe i (Some q) k) \<and> counted (plus n (one (end_of i b))) (set_pipe i (Some q) k) \<and>
    (\<forall>p. k_pipes k ! i = Some p \<longrightarrow> waiting_readers q = waiting_readers p \<and> waiting_writers q = waiting_writers p) \<and>
    i < MAX_PIPES"
proof -
  have i: "i < MAX_PIPES"
    using n pos by (auto simp: counted_def not_less [symmetric])
  with n have pc: "pipe_counted n i (k_pipes k ! i)" by (simp add: counted_def)
  with pos obtain p where p: "k_pipes k ! i = Some p" by (cases b; cases "k_pipes k ! i") (auto simp: pipe_counted_def)
  let ?q = "if b then p\<lparr>read_refcount := saturating_inc (read_refcount p), read_end_open := True\<rparr>
    else p\<lparr>write_refcount := saturating_inc (write_refcount p), write_end_open := True\<rparr>"
  have "pipe_counted (plus n (one (end_of i b))) i (Some ?q)"
    using pc p bound by (cases b) (auto simp: pipe_counted_def plus_def one_def saturating_inc_def pipe_wf_def)
  then have "counted (plus n (one (end_of i b))) (set_pipe i (Some ?q) k)"
    by (rule counted_set [OF n i]) (auto simp: plus_def one_def)
  moreover have "incref i b k = (Ok (), set_pipe i (Some ?q) k)"
    using i p by (auto simp: incref_def lookup_pipe_def)
  ultimately show ?thesis using p i by (intro exI [of _ ?q]) auto
qed


text \<open>Waking changes the process table only.\<close>

definition same_rest :: "kernel \<Rightarrow> kernel \<Rightarrow> bool" where
  "same_rest k k' \<longleftrightarrow> k_locked k' = k_locked k \<and> k_fs k' = k_fs k \<and> k_rx k' = k_rx k \<and> k_tx k' = k_tx k \<and>
     k_machine k' = k_machine k \<and> (\<exists>pids. k_table k' = fold unblock pids (k_table k)) \<and>
     (k_locked k \<longrightarrow> k_table k' = k_table k)"

lemma same_rest_refl: "same_rest k k"
  unfolding same_rest_def by (auto intro: exI [of _ "[]"])

lemma same_rest_trans: "same_rest a b \<Longrightarrow> same_rest b c \<Longrightarrow> same_rest a c"
proof -
  assume ab: "same_rest a b" and bc: "same_rest b c"
  from ab obtain xs where "k_table b = fold unblock xs (k_table a)" by (auto simp: same_rest_def)
  moreover from bc obtain ys where "k_table c = fold unblock ys (k_table b)" by (auto simp: same_rest_def)
  ultimately have "k_table c = fold unblock (xs @ ys) (k_table a)" by simp
  with ab bc show ?thesis unfolding same_rest_def by metis
qed

lemma set_pipe_fields [simp]:
  "k_table (set_pipe i p k) = k_table k" "k_locked (set_pipe i p k) = k_locked k" "k_fs (set_pipe i p k) = k_fs k"
  "k_rx (set_pipe i p k) = k_rx k" "k_tx (set_pipe i p k) = k_tx k" "k_machine (set_pipe i p k) = k_machine k"
  "k_pipes (set_pipe i p k) = (k_pipes k)[i := p]"
  by (simp_all add: set_pipe_def)

lemma set_pipe_rest: "same_rest k (set_pipe i p k)"
  unfolding same_rest_def by (auto intro: exI [of _ "[]"])

lemma set_pipe_twice [simp]: "set_pipe i p (set_pipe i q k) = set_pipe i p k"
  by (simp add: set_pipe_def)

lemma wake_quiet:
  assumes "\<not> k_locked k \<or> pids = []"
  shows "\<exists>t. wake pids k = (Ok (), k\<lparr>k_table := t\<rparr>) \<and> same_rest k (k\<lparr>k_table := t\<rparr>)"
proof (cases "k_locked k")
  case True
  with assms show ?thesis by (intro exI [of _ "k_table k"]) (simp add: same_rest_refl)
next
  case False
  then show ?thesis by (auto simp: wake_unlocked same_rest_def)
qed

lemma set_pipe_table: "set_pipe i p (k\<lparr>k_table := t\<rparr>) = (set_pipe i p k)\<lparr>k_table := t\<rparr>"
  by (simp add: set_pipe_def)

text \<open>
  A step of the pipe table: the counts become \<open>n\<close>, nothing else of the kernel changes but the state of
  woken processes, and where nobody could spin before, nobody can afterwards.
\<close>

definition steps_to :: "counts \<Rightarrow> kernel \<Rightarrow> kernel \<Rightarrow> bool" where
  "steps_to n k k' \<longleftrightarrow> counted n k' \<and> same_rest k k' \<and> (quiet k \<longrightarrow> quiet k')"

lemma steps_to_refl: "counted n k \<Longrightarrow> steps_to n k k"
  by (simp add: steps_to_def same_rest_refl)

lemma steps_to_trans: "steps_to m a b \<Longrightarrow> steps_to n b c \<Longrightarrow> steps_to n a c"
  unfolding steps_to_def using same_rest_trans by blast

lemma steps_toD: "steps_to n k k' \<Longrightarrow> counted n k'"
  by (simp add: steps_to_def)

text \<open>Every operation that can wake someone takes its step, or spins on the lock because somebody waits.\<close>

lemma wake_settles:
  "(fst (wake pids k :: (unit, FdError) outcome \<times> kernel) = Hang \<and> k_locked k \<and> pids \<noteq> []) \<or>
   (\<exists>t. wake pids k = (Ok () :: (unit, FdError) outcome, k\<lparr>k_table := t\<rparr>) \<and> same_rest k (k\<lparr>k_table := t\<rparr>))"
proof (cases "k_locked k \<and> pids \<noteq> []")
  case False
  then show ?thesis using wake_quiet [of k pids] by blast
qed (simp add: wake_locked)

lemma close_counted:
  assumes n: "counted (plus n (one (end_of i b))) k"
  shows "(fst (close_pipe_end i b k) = Hang \<and> \<not> quiet k) \<or>
    (\<exists>k'. close_pipe_end i b k = (Ok (), k') \<and> steps_to n k k')"
proof -
  let ?n = "plus n (one (end_of i b))"
  have "0 < ?n i b" by (simp add: plus_def one_def)
  then have i: "i < MAX_PIPES" using n by (auto simp: counted_def not_less [symmetric])
  with n have pc: "pipe_counted ?n i (k_pipes k ! i)" by (simp add: counted_def)
  then obtain p where p: "k_pipes k ! i = Some p"
    by (cases b; cases "k_pipes k ! i") (auto simp: pipe_counted_def plus_def one_def)
  have len: "length (k_pipes k) = 8" using n by (simp add: counted_def)
  define r where "r = release_end b p"
  have r: "pipe_wf r" "read_refcount r = n i True" "write_refcount r = n i False"
      "read_end_open r = (0 < n i True)" "write_end_open r = (0 < n i False)"
      "waiting_readers r = waiting_readers p" "waiting_writers r = waiting_writers p"
    using pc p by (cases b; auto simp: r_def release_end_def pipe_counted_def plus_def one_def pipe_wf_def Let_def)+
  have mem: "Some p \<in> set (k_pipes k)" using p i len by (metis MAX_PIPES_def nth_mem)
  define woken where "woken = (if b then (if \<not> read_end_open r then waiting_writers r else [])
      else (if \<not> write_end_open r then waiting_readers r else []))"
  define s where "s = (if b then (if \<not> read_end_open r then r\<lparr>waiting_writers := []\<rparr> else r)
      else (if \<not> write_end_open r then r\<lparr>waiting_readers := []\<rparr> else r))"
  define fin where "fin = (if \<not> read_end_open r \<and> \<not> write_end_open r then None else Some s)"
  have run: "close_pipe_end i b k = tryS (wake woken (set_pipe i (Some s) k)) (\<lambda>_ k.
      (Ok (), if \<not> read_end_open r \<and> \<not> write_end_open r then set_pipe i None k else k))"
    using i p by (auto simp: close_pipe_end_def Let_def r_def [symmetric] woken_def s_def wake_readers_def wake_writers_def)
  from wake_settles [of woken "set_pipe i (Some s) k"] show ?thesis
  proof (elim disjE exE conjE)
    assume h: "fst (wake woken (set_pipe i (Some s) k) :: (unit, FdError) outcome \<times> kernel) = Hang"
      "k_locked (set_pipe i (Some s) k)" "woken \<noteq> []"
    have "fst (close_pipe_end i b k) = Hang" unfolding run using h(1)
      by (cases "wake woken (set_pipe i (Some s) k) :: (unit, FdError) outcome \<times> kernel") simp
    moreover have "\<not> quiet k" using h(2,3) mem r(6,7) by (auto simp: quiet_def woken_def split: if_splits)
    ultimately show ?thesis by blast
  next
    fix t assume t: "wake woken (set_pipe i (Some s) k) = (Ok () :: (unit, FdError) outcome, (set_pipe i (Some s) k)\<lparr>k_table := t\<rparr>)"
      "same_rest (set_pipe i (Some s) k) ((set_pipe i (Some s) k)\<lparr>k_table := t\<rparr>)"
    have "close_pipe_end i b k = (Ok (), (set_pipe i fin k)\<lparr>k_table := t\<rparr>)"
      unfolding run t(1) by (simp add: fin_def set_pipe_table)
    moreover have "pipe_counted n i fin"
      using r by (auto simp: fin_def s_def pipe_counted_def pipe_wf_def)
    then have "counted n (set_pipe i fin k)"
      by (rule counted_set [OF n i]) (simp add: plus_def one_def)
    moreover have "quiet ((set_pipe i fin k)\<lparr>k_table := t\<rparr>)" if "quiet k"
      using that mem r(6,7) by (auto simp: quiet_def fin_def s_def dest!: set_update_subset_insert [THEN subsetD] split: if_splits)
    moreover have "same_rest k ((set_pipe i fin k)\<lparr>k_table := t\<rparr>)"
      using t(2) by (simp add: same_rest_def)
    ultimately show ?thesis by (simp add: steps_to_def)
  qed
qed

lemma counted_cong: "(\<And>i b. n i b = n' i b) \<Longrightarrow> counted n k = counted n' k"
  by (simp add: counted_def pipe_counted_def cong: option.case_cong)

lemma release_counted:
  assumes "counted (plus n (one slot)) k"
  shows "(fst (release slot k) = Hang \<and> \<not> quiet k) \<or> (\<exists>k'. release slot k = (Ok (), k') \<and> steps_to n k k')"
proof (cases "\<exists>p. slot = Some (FdPipe p)")
  case True
  then obtain p where p: "slot = Some (FdPipe p)" by blast
  then have e: "slot = end_of (pipe_id p) (is_read_end p)" by (simp add: end_of_def)
  have "release slot k = close_pipe_end (pipe_id p) (is_read_end p) k" by (simp add: release_def p)
  then show ?thesis using close_counted [OF assms [unfolded e]] by simp
next
  case False
  then have "one slot i b = 0" for i b by (auto simp: one_def end_of_def)
  then have "counted n k" using assms counted_cong [of "plus n (one slot)" n k] by (simp add: plus_def)
  moreover have "release slot k = (Ok (), k)"
    using False by (auto simp: release_def split: option.split FileDescriptor.split)
  ultimately show ?thesis using steps_to_refl by blast
qed

lemma clone_counted:
  assumes "counted n k" and "\<And>i b. Some fd = end_of i b \<Longrightarrow> 0 < n i b \<and> n i b + 1 < 2 ^ 64"
  shows "\<exists>k'. fd_clone fd k = (Ok fd, k') \<and> steps_to (plus n (one (Some fd))) k k'"
proof (cases fd)
  case (FdPipe p)
  let ?i = "pipe_id p" and ?b = "is_read_end p"
  have e: "Some fd = end_of ?i ?b" by (simp add: FdPipe end_of_def)
  from incref_counted [OF assms(1), of ?i ?b] assms(2) [OF e, THEN conjunct1] assms(2) [OF e, THEN conjunct2]
  obtain q where
    q: "incref ?i ?b k = (Ok (), set_pipe ?i (Some q) k)" "counted (plus n (one (end_of ?i ?b))) (set_pipe ?i (Some q) k)"
      "\<forall>p. k_pipes k ! ?i = Some p \<longrightarrow> waiting_readers q = waiting_readers p \<and> waiting_writers q = waiting_writers p"
      "?i < MAX_PIPES" by blast
  have "pipe_counted n ?i (k_pipes k ! ?i)" "length (k_pipes k) = 8" using assms(1) q(4) by (simp_all add: counted_def)
  then obtain r where r: "k_pipes k ! ?i = Some r" "Some r \<in> set (k_pipes k)"
    using assms(2) [OF e] q(4) by (cases "k_pipes k ! ?i"; cases ?b) (auto simp: pipe_counted_def, (metis nth_mem)+)
  then have "quiet k \<longrightarrow> quiet (set_pipe ?i (Some q) k)"
    using q(3) by (auto simp: quiet_def dest!: set_update_subset_insert [THEN subsetD])
  then show ?thesis using q(1,2) e FdPipe set_pipe_rest by (auto simp: steps_to_def)
qed (use assms(1) steps_to_refl counted_cong [of "plus n (one (Some fd))" n k] in \<open>auto simp: plus_def one_def end_of_def\<close>)


section \<open>Descriptor tables\<close>

lemma plus_ac: "plus a b = plus b a" "plus (plus a b) c = plus a (plus b c)" "plus a (plus b c) = plus b (plus a c)"
  by (auto simp: plus_def fun_eq_iff)

lemma plus_zero [simp]: "plus a (\<lambda>_ _. 0) = a" "plus a (one None) = a" "plus a (refs []) = a" "plus (\<lambda>_ _. 0) a = a"
  by (auto simp: plus_def one_def refs_def fun_eq_iff end_of_def)

lemma refs_Cons: "refs (x # t) = plus (one x) (refs t)"
  by (auto simp: refs_def one_def plus_def fun_eq_iff)

text \<open>Taking a descriptor out of the table leaves one reference to account for.\<close>

lemma refs_take: "m < length t \<Longrightarrow> refs t = plus (refs (t[m := None])) (one (t ! m))"
  using refs_update [of m t None] by simp

lemma fd_close_counted:
  assumes "counted (plus n (refs t)) k" and "length t = MAX_FDS"
  shows "(fst (fd_close m t k) = Hang \<and> \<not> quiet k) \<or>
    (\<exists>k'. fd_close m t k = (if m < MAX_FDS \<and> t ! m \<noteq> None then Ok () else Err BadFd,
        if m < MAX_FDS then t[m := None] else t, k') \<and>
      steps_to (plus n (refs (if m < MAX_FDS then t[m := None] else t))) k k')"
proof (cases "m < MAX_FDS \<and> t ! m \<noteq> None")
  case True
  then have "counted (plus (plus n (refs (t[m := None]))) (one (t ! m))) k"
    using assms refs_take [of m t] by (simp add: plus_ac)
  from release_counted [OF this] True show ?thesis by (auto simp: fd_close_def split: prod.splits)
next
  case False
  moreover from False have "m < MAX_FDS \<Longrightarrow> t[m := None] = t" using assms(2) by (metis list_update_id)
  ultimately show ?thesis using assms steps_to_refl by (auto simp: fd_close_def)
qed

lemma close_from_counted:
  "counted (plus n (refs t)) k \<Longrightarrow> length t = MAX_FDS \<Longrightarrow> \<forall>m \<in> set ms. m < MAX_FDS \<Longrightarrow>
   (fst (close_from ms t k) = Hang \<and> \<not> quiet k) \<or>
   (\<exists>t' k'. close_from ms t k = (Ok (), t', k') \<and> length t' = MAX_FDS \<and> (\<forall>m \<in> set ms. t' ! m = None) \<and>
     (\<forall>m < MAX_FDS. t ! m = None \<longrightarrow> t' ! m = None) \<and> steps_to (plus n (refs t')) k k')"
proof (induction ms arbitrary: t k)
  case Nil
  then show ?case using steps_to_refl by auto
next
  case (Cons m ms)
  have m: "m < MAX_FDS" using Cons.prems(3) by simp
  from fd_close_counted [OF Cons.prems(1,2), of m] m consider
      (spin) "fst (fd_close m t k) = Hang" "\<not> quiet k"
    | (step) r k1 where "fd_close m t k = (r, t[m := None], k1)" "r = Ok () \<or> r = Err BadFd"
        "steps_to (plus n (refs (t[m := None]))) k k1" by (cases "t ! m = None") auto
  then show ?case
  proof cases
    case spin
    then show ?thesis by (cases "fd_close m t k") auto
  next
    case step
    have run: "close_from (m # ms) t k = close_from ms (t[m := None]) k1" using step(1,2) by auto
    from Cons.IH [OF steps_toD [OF step(3)]] Cons.prems(2,3) consider
        (spin2) "fst (close_from ms (t[m := None]) k1) = Hang" "\<not> quiet k1"
      | (rest) t' k' where "close_from ms (t[m := None]) k1 = (Ok (), t', k')" "length t' = MAX_FDS"
          "\<forall>m \<in> set ms. t' ! m = None" "\<forall>j < MAX_FDS. t[m := None] ! j = None \<longrightarrow> t' ! j = None"
          "steps_to (plus n (refs t')) k1 k'" by fastforce
    then show ?thesis
    proof cases
      case spin2
      then show ?thesis using run step(3) by (auto simp: steps_to_def)
    next
      case rest
      have "t' ! m = None" using rest(4) m Cons.prems(2) by simp
      moreover have "t' ! j = None" if "j < MAX_FDS" "t ! j = None" for j
        using rest(4) that Cons.prems(2) by (cases "j = m") auto
      ultimately show ?thesis using run rest steps_to_trans [OF step(3) rest(5)] by auto
    qed
  qed
qed

lemma refs_fd_new [simp]: "refs fd_new = (\<lambda>_ _. 0)"
  by (simp add: refs_def fd_new_def end_of_def count_list_0_iff fun_eq_iff)

lemma close_all_counted:
  assumes "counted (plus n (refs t)) k" and "length t = MAX_FDS"
  shows "(fst (close_all t k) = Hang \<and> \<not> quiet k) \<or> (\<exists>k'. close_all t k = (Ok (), fd_new, k') \<and> steps_to n k k')"
proof -
  have "\<forall>m \<in> set [0..<MAX_FDS]. m < MAX_FDS" by simp
  from close_from_counted [OF assms this] consider
      (spin) "fst (close_from [0..<MAX_FDS] t k) = Hang" "\<not> quiet k"
    | (all) t' k' where "close_from [0..<MAX_FDS] t k = (Ok (), t', k')" "length t' = MAX_FDS"
        "\<forall>m \<in> set [0..<MAX_FDS]. t' ! m = None" "steps_to (plus n (refs t')) k k'" by blast
  then show ?thesis
  proof cases
    case all
    have "t' = fd_new"
      using all(2,3) by (intro nth_equalityI) (auto simp: fd_new_def)
    then show ?thesis
      using all(1,4) counted_cong [of "plus n (refs fd_new)" n k'] by (auto simp: close_all_def plus_def steps_to_def)
  qed (simp add: close_all_def)
qed

lemma clone_table_counted:
  assumes bound: "\<And>i b. n i b + refs t i b + 1 < 2 ^ 64" and held: "\<And>i b. 0 < refs t i b \<Longrightarrow> 0 < n i b"
  shows "counted n k \<Longrightarrow> \<exists>k'. clone_table t k = (Ok t, k') \<and> steps_to (plus n (refs t)) k k'"
  using assms
proof (induction t arbitrary: n k)
  case Nil
  then show ?case using steps_to_refl by auto
next
  case (Cons slot t)
  have r: "refs (slot # t) i b = one slot i b + refs t i b" for i b by (simp add: refs_Cons plus_def)
  show ?case
  proof (cases slot)
    case None
    then have "refs (slot # t) = refs t" by (simp add: refs_def fun_eq_iff end_of_def)
    with Cons.IH [OF Cons.prems(1)] Cons.prems(2,3) None show ?thesis by auto
  next
    case (Some fd)
    have "0 < n i b \<and> n i b + 1 < 2 ^ 64" if "Some fd = end_of i b" for i b
      using Cons.prems(2) [of i b, unfolded r] Cons.prems(3) [of i b, unfolded r] that Some by (simp add: one_def)
    from clone_counted [OF Cons.prems(1) this] obtain k1 where
      k1: "fd_clone fd k = (Ok fd, k1)" "steps_to (plus n (one slot)) k k1"
      using Some by blast
    have "plus n (one slot) i b + refs t i b + 1 < 2 ^ 64" for i b
      using Cons.prems(2) [of i b] by (simp add: r plus_def)
    moreover have "0 < refs t i b \<Longrightarrow> 0 < plus n (one slot) i b" for i b
      using Cons.prems(3) [of i b] by (simp add: r plus_def)
    ultimately obtain k2 where
      k2: "clone_table t k1 = (Ok t, k2)" "steps_to (plus (plus n (one slot)) (refs t)) k1 k2"
      using Cons.IH [OF steps_toD [OF k1(2)]] by blast
    have "plus (plus n (one slot)) (refs t) = plus n (refs (slot # t))" by (simp add: refs_Cons plus_ac)
    then show ?thesis using k1(1) k2 Some steps_to_trans [OF k1(2) k2(2)] by auto
  qed
qed

lemma dup2_counted:
  assumes n: "counted (plus n (refs t)) k" and len: "length t = MAX_FDS"
    and bound: "\<And>i b. plus n (refs t) i b + 1 < 2 ^ 64"
    and fds: "old_fd < MAX_FDS" "new_fd < MAX_FDS" "t ! old_fd = Some fd"
  shows "(fst (dup2 old_fd new_fd t k) = Hang \<and> \<not> quiet k) \<or>
    (\<exists>k'. dup2 old_fd new_fd t k = (Ok (), t[new_fd := Some fd], k') \<and> steps_to (plus n (refs (t[new_fd := Some fd]))) k k')"
proof -
  have "0 < plus n (refs t) i b \<and> plus n (refs t) i b + 1 < 2 ^ 64" if "Some fd = end_of i b" for i b
  proof -
    have "end_of i b \<in> set t" using that fds(1,3) len by (metis nth_mem)
    then have "0 < refs t i b" by (simp add: refs_def count_list_0_iff neq0_conv [symmetric] del: neq0_conv)
    then show ?thesis using bound [of i b] by (simp add: plus_def)
  qed
  from clone_counted [OF n this] obtain k1 where
    k1: "fd_clone fd k = (Ok fd, k1)" "steps_to (plus (plus n (refs t)) (one (Some fd))) k k1"
    by blast
  have "plus (plus n (refs t)) (one (Some fd)) = plus (plus n (refs (t[new_fd := Some fd]))) (one (t ! new_fd))"
    using refs_update [of new_fd t "Some fd"] fds(2) len by (simp add: plus_ac(2))
  with k1(2) have "counted (plus (plus n (refs (t[new_fd := Some fd]))) (one (t ! new_fd))) k1" by (simp add: steps_to_def)
  from release_counted [OF this] show ?thesis
  proof (elim disjE exE conjE)
    assume "fst (release (t ! new_fd) k1) = Hang" "\<not> quiet k1"
    then show ?thesis
      using fds k1 by (cases "release (t ! new_fd) k1") (auto simp: dup2_def steps_to_def)
  next
    fix k2 assume "release (t ! new_fd) k1 = (Ok (), k2)" "steps_to (plus n (refs (t[new_fd := Some fd]))) k1 k2"
    then show ?thesis using fds k1(1) steps_to_trans [OF k1(2)] by (auto simp: dup2_def)
  qed
qed

lemma create_pipe_counted:
  assumes "counted n k" and "create_pipe k = (Ok i, k')"
  shows "i < MAX_PIPES \<and> n i True = 0 \<and> n i False = 0 \<and> k' = set_pipe i (Some pipe_new) k \<and>
    counted (plus (plus n (one (end_of i True))) (one (end_of i False))) k'"
proof -
  from assms(2) have i: "i < length (k_pipes k)" "k_pipes k ! i = None" and k': "k' = set_pipe i (Some pipe_new) k"
    by (auto simp: create_pipe_def dest!: position_SomeD split: option.splits)
  have len: "length (k_pipes k) = MAX_PIPES" and pc: "pipe_counted n i None"
    using assms(1) i by (auto simp: counted_def dest: spec [of _ i])
  then have z: "n i True = 0" "n i False = 0" by (simp_all add: pipe_counted_def)
  have "pipe_counted (plus (plus n (one (end_of i True))) (one (end_of i False))) i (Some pipe_new)"
    using z pipe_new_wf(1) by (simp add: pipe_counted_def plus_def one_def pipe_new_def)
  then have "counted (plus (plus n (one (end_of i True))) (one (end_of i False))) k'"
    unfolding k' using i len by (intro counted_set [OF assms(1)]) (auto simp: plus_def one_def)
  then show ?thesis using i len z k' by simp
qed


section \<open>Who spins\<close>

text \<open>
  Under the lock, closing one end of a pipe spins exactly when it was the last reference to that end
  and somebody waits for the other. A process that closes everything spins exactly when it holds
  such a last reference.
\<close>

definition waiting :: "kernel \<Rightarrow> nat \<Rightarrow> bool \<Rightarrow> Pid list" where
  "waiting k i b =
     (case k_pipes k ! i of None \<Rightarrow> [] | Some p \<Rightarrow> if b then waiting_writers p else waiting_readers p)"

definition stranding :: "counts \<Rightarrow> FdTable \<Rightarrow> kernel \<Rightarrow> bool" where
  "stranding n t k \<longleftrightarrow> (\<exists>i < MAX_PIPES. \<exists>b. 0 < refs t i b \<and> n i b = 0 \<and> waiting k i b \<noteq> [])"

lemma stranding_locked [simp]: "stranding n t (k\<lparr>k_locked := b\<rparr>) = stranding n t k"
  by (simp add: stranding_def waiting_def)

lemma close_end_spins:
  assumes n: "counted (plus n (one (end_of i b))) k" and l: "k_locked k"
  shows "if n i b = 0 \<and> waiting k i b \<noteq> [] then fst (close_pipe_end i b k) = Hang
    else \<exists>k'. close_pipe_end i b k = (Ok (), k') \<and> (\<forall>j c. 0 < n j c \<longrightarrow> waiting k' j c = waiting k j c)"
proof -
  let ?n = "plus n (one (end_of i b))"
  have "0 < ?n i b" by (simp add: plus_def one_def)
  then have i: "i < MAX_PIPES" using n by (auto simp: counted_def not_less [symmetric])
  with n have pc: "pipe_counted ?n i (k_pipes k ! i)" and len: "length (k_pipes k) = 8" by (simp_all add: counted_def)
  then obtain p where p: "k_pipes k ! i = Some p"
    by (cases b; cases "k_pipes k ! i") (auto simp: pipe_counted_def plus_def one_def)
  have r: "read_end_open (release_end b p) = (0 < n i True)" "write_end_open (release_end b p) = (0 < n i False)"
    "waiting_readers (release_end b p) = waiting_readers p" "waiting_writers (release_end b p) = waiting_writers p"
    using pc p by (cases b; auto simp: release_end_def pipe_counted_def plus_def one_def pipe_wf_def Let_def)+
  show ?thesis
    using i p r l len
    by (cases b) (auto simp: close_pipe_end_def waiting_def Let_def wake_readers_def wake_writers_def wake_locked nth_list_update
        split: option.split)
qed

lemma release_spins:
  assumes n: "counted (plus n (one slot)) k" and l: "k_locked k"
  shows "if \<exists>i b. slot = end_of i b \<and> n i b = 0 \<and> waiting k i b \<noteq> [] then fst (release slot k) = Hang
    else \<exists>k'. release slot k = (Ok (), k') \<and> (\<forall>j c. 0 < n j c \<longrightarrow> waiting k' j c = waiting k j c)"
proof (cases "\<exists>p. slot = Some (FdPipe p)")
  case True
  then obtain p where p: "slot = Some (FdPipe p)" by blast
  then have e: "slot = end_of (pipe_id p) (is_read_end p)" by (simp add: end_of_def)
  have "release slot k = close_pipe_end (pipe_id p) (is_read_end p) k" by (simp add: release_def p)
  moreover have "(\<exists>i b. slot = end_of i b \<and> n i b = 0 \<and> waiting k i b \<noteq> []) \<longleftrightarrow>
      n (pipe_id p) (is_read_end p) = 0 \<and> waiting k (pipe_id p) (is_read_end p) \<noteq> []"
    unfolding e by (auto simp: end_of_def)
  ultimately show ?thesis using close_end_spins [OF n [unfolded e] l] by (auto simp: e)
next
  case False
  then have "release slot k = (Ok (), k)" by (auto simp: release_def split: option.split FileDescriptor.split)
  moreover have "slot \<noteq> end_of i b" for i b using False by (auto simp: end_of_def)
  ultimately show ?thesis by auto
qed

lemma close_from_spins:
  "counted (plus n (refs t)) k \<Longrightarrow> k_locked k \<Longrightarrow> length t = MAX_FDS \<Longrightarrow> \<forall>m \<in> set ms. m < MAX_FDS \<Longrightarrow>
   \<forall>m < MAX_FDS. t ! m \<noteq> None \<longrightarrow> m \<in> set ms \<Longrightarrow>
   fst (close_from ms t k) = Hang \<longleftrightarrow> stranding n t k"
proof (induction ms arbitrary: t k)
  case Nil
  then have "t = replicate (length t) None" by (intro nth_equalityI) auto
  then have "refs t i b = 0" for i b unfolding refs_def by (metis count_list_0_iff end_of_def in_set_replicate option.distinct(1))
  then show ?case by (simp add: stranding_def)
next
  case (Cons m ms)
  let ?t = "t[m := None]" let ?n = "plus n (refs ?t)"
  have m: "m < MAX_FDS" "m < length t" using Cons.prems(3,4) by auto
  have c: "counted (plus ?n (one (t ! m))) k" using Cons.prems(1) refs_take [OF m(2)] by (simp add: plus_ac)
  have refs: "refs t i b = refs ?t i b + one (t ! m) i b" for i b using refs_take [OF m(2)] by (simp add: plus_def)
  show ?case
  proof (cases "\<exists>i b. t ! m = end_of i b \<and> ?n i b = 0 \<and> waiting k i b \<noteq> []")
    case True
    then have "fst (release (t ! m) k) = Hang" using release_spins [OF c Cons.prems(2)] by simp
    moreover have "t ! m \<noteq> None" using True by (auto simp: end_of_def)
    ultimately have "fst (fd_close m t k) = Hang" using m(1) by (auto simp: fd_close_def split: prod.splits)
    then have "fst (close_from (m # ms) t k) = Hang" by (cases "fd_close m t k") auto
    moreover obtain i b where ib: "t ! m = end_of i b" "?n i b = 0" "waiting k i b \<noteq> []" using True by blast
    have "0 < plus ?n (one (t ! m)) i b" using ib(1) by (simp add: plus_def one_def)
    then have "i < MAX_PIPES" using c by (auto simp: counted_def not_less [symmetric])
    moreover have "0 < refs t i b" using refs [of i b] ib(1) by (simp add: one_def)
    ultimately show ?thesis using ib by (auto simp: stranding_def plus_def)
  next
    case False
    from release_spins [OF c Cons.prems(2), unfolded if_not_P [OF False]] obtain k1 where
      k1: "release (t ! m) k = (Ok (), k1)" "\<forall>j c. 0 < ?n j c \<longrightarrow> waiting k1 j c = waiting k j c" by blast
    from fd_close_counted [OF Cons.prems(1,3), of m] m(1) k1(1) obtain k2 where
      s: "fd_close m t k = (if t ! m \<noteq> None then Ok () else Err BadFd, ?t, k2)" "steps_to ?n k k2" "t ! m \<noteq> None \<longrightarrow> k2 = k1"
      by (auto simp: fd_close_def split: if_splits)
    have w: "waiting k2 j c = waiting k j c" if "0 < ?n j c" for j c
      using s k1(2) that m(1) by (cases "t ! m = None") (auto simp: fd_close_def)
    have "fst (close_from (m # ms) t k) = fst (close_from ms ?t k2)" using s(1) by (cases "t ! m = None") auto
    also have "\<dots> = Hang \<longleftrightarrow> stranding n ?t k2"
    proof (rule Cons.IH)
      show "counted ?n k2" by (rule steps_toD [OF s(2)])
      show "k_locked k2" using s(2) Cons.prems(2) by (simp add: steps_to_def same_rest_def)
    qed (use Cons.prems in \<open>auto simp: nth_list_update\<close>)
    also have "\<dots> \<longleftrightarrow> stranding n t k"
    proof
      assume "stranding n ?t k2"
      then obtain i b where "i < MAX_PIPES" "0 < refs ?t i b" "n i b = 0" "waiting k2 i b \<noteq> []" by (auto simp: stranding_def)
      moreover from this have "0 < refs t i b" "waiting k i b \<noteq> []" using w [of i b] refs [of i b] by (simp_all add: plus_def)
      ultimately show "stranding n t k" unfolding stranding_def by blast
    next
      assume "stranding n t k"
      then obtain i b where ib: "i < MAX_PIPES" "0 < refs t i b" "n i b = 0" "waiting k i b \<noteq> []" by (auto simp: stranding_def)
      then have "0 < refs ?t i b" using False refs [of i b] by (auto simp: plus_def one_def split: if_splits)
      moreover from this have "waiting k2 i b \<noteq> []" using ib(4) w [of i b] by (simp add: plus_def)
      ultimately show "stranding n ?t k2" using ib(1,3) unfolding stranding_def by blast
    qed
    finally show ?thesis .
  qed
qed

lemma close_all_spins:
  assumes "counted (plus n (refs t)) k" and "k_locked k" and "length t = MAX_FDS"
  shows "if stranding n t k then fst (close_all t k) = Hang else \<exists>k'. close_all t k = (Ok (), fd_new, k') \<and> steps_to n k k'"
proof -
  have "fst (close_all t k) = Hang \<longleftrightarrow> stranding n t k"
    unfolding close_all_def using assms by (intro close_from_spins) auto
  then show ?thesis using close_all_counted [OF assms(1,3)] by auto
qed

text \<open>None of this prints or touches a file.\<close>

definition silent :: "kernel \<Rightarrow> kernel \<Rightarrow> bool" where
  "silent k k' \<longleftrightarrow> k_tx k' = k_tx k \<and> k_fs k' = k_fs k"

lemma wake_silent: "silent k (snd (wake pids k))"
  by (induction pids arbitrary: k) (simp_all add: k_unblock_def silent_def)

lemma close_pipe_end_silent: "silent k (snd (close_pipe_end i b k))"
proof -
  have w: "silent k (snd (tryS (wake pids k1 :: (unit, FdError) outcome \<times> kernel)
      (\<lambda>_ k. (Ok (), if c then set_pipe i None k else k))))" if "silent k k1" for pids k1 c
  proof -
    obtain r k2 where e: "(wake pids k1 :: (unit, FdError) outcome \<times> kernel) = (r, k2)" by fastforce
    have "silent k1 (snd (wake pids k1 :: (unit, FdError) outcome \<times> kernel))" by (rule wake_silent)
    then show ?thesis using that unfolding e by (cases r) (simp_all add: silent_def)
  qed
  show ?thesis
    by (auto simp: close_pipe_end_def wake_readers_def wake_writers_def Let_def split: option.split intro!: w)
      (simp_all add: silent_def)
qed

lemma fd_close_silent: "silent k (snd (snd (fd_close n t k)))"
proof -
  have "silent k (snd (release slot k))" for slot
    using close_pipe_end_silent by (auto simp: release_def silent_def split: option.split FileDescriptor.split)
  then have "silent k k'" if "release slot k = (r, k')" for slot r k' using that by (metis snd_conv)
  then show ?thesis by (auto simp: fd_close_def silent_def split: prod.split)
qed

lemma close_from_silent: "silent k (snd (snd (close_from ns t k)))"
proof (induction ns arbitrary: t k)
  case (Cons n ns)
  obtain r t' k' where c: "fd_close n t k = (r, t', k')" by (metis prod_cases3)
  then have "silent k k'" using fd_close_silent [of k n t] by simp
  then show ?case using Cons [of k' t'] c by (cases r) (auto simp: silent_def)
qed (simp add: silent_def)

lemma exit_process_silent: "silent k (snd (exit_process pid code k))"
proof (cases "get (k_table k) pid")
  case (Some p)
  obtain r t k' where c: "close_all (p_fd_table p) k = (r, t, k')" by (metis prod_cases3)
  then have "silent k k'" using close_from_silent [of k "[0..<MAX_FDS]" "p_fd_table p"] by (simp add: close_all_def)
  then show ?thesis using c Some by (cases r) (simp_all add: exit_process_def silent_def)
qed (simp add: exit_process_def silent_def)

section \<open>Properties\<close>

text \<open>
  \<^verbatim>\<open>FdTable::close\<close> and the reference counts: with \<open>n\<close> references held elsewhere, closing a descriptor
  removes it from its table and exactly its reference from the pipe table (freeing the pipe with the
  last one); closing a number that is not open fails and changes nothing. Nothing but the state of
  woken processes changes besides.
\<close>

theorem close_keeps_counts:
  assumes "counted (plus n (refs t)) k" and "quiet k" and "length t = MAX_FDS"
  shows "\<exists>t' k'. fd_close m t k = (if m < MAX_FDS \<and> t ! m \<noteq> None then Ok () else Err BadFd, t', k') \<and>
    t' = (if m < MAX_FDS then t[m := None] else t) \<and> counted (plus n (refs t')) k' \<and> quiet k' \<and> same_rest k k'"
  using fd_close_counted [OF assms(1,3), of m] assms(2) by (auto simp: steps_to_def)

definition demo_fds :: FdTable where
  "demo_fds = fd_new[0 := end_of 0 True, 1 := end_of 0 False]"

definition demo_kernel :: kernel where
  "demo_kernel = \<lparr>k_table = table_new, k_locked = True, k_pipes = Some pipe_new # replicate 7 None,
     k_fs = None, k_rx = [], k_tx = [], k_machine = zero_machine\<rparr>"

lemma demo_kernel_counted:
  "counted (plus (\<lambda>_ _. 0) (refs demo_fds)) demo_kernel" "quiet demo_kernel" "length demo_fds = MAX_FDS"
  and demo_fds_nth: "demo_fds ! 0 = end_of 0 True" "demo_fds ! 1 = end_of 0 False"
proof -
  have r: "refs demo_fds i b = (if i = 0 then 1 else 0)" for i b
    by (cases b) (auto simp: refs_def demo_fds_def fd_new_def end_of_def count_list_0_iff numeral_eq_Suc)
  have "pipe_counted (plus (\<lambda>_ _. 0) (refs demo_fds)) i ((Some pipe_new # replicate 7 None) ! i)" if "i < 8" for i
    using that pipe_new_wf(1) by (cases i) (auto simp: pipe_counted_def plus_def r pipe_new_def)
  then show "counted (plus (\<lambda>_ _. 0) (refs demo_fds)) demo_kernel"
    by (simp add: counted_def demo_kernel_def plus_def r)
  show "quiet demo_kernel" by (auto simp: quiet_def demo_kernel_def pipe_new_def)
  show "length demo_fds = MAX_FDS" by (simp add: demo_fds_def fd_new_def)
  show "demo_fds ! 0 = end_of 0 True" "demo_fds ! 1 = end_of 0 False" by (simp_all add: demo_fds_def fd_new_def)
qed

theorem close_keeps_counts_witness:
  "\<exists>t' k'. fd_close 0 demo_fds demo_kernel = (Ok (), t', k') \<and> counted (plus (\<lambda>_ _. 0) (refs t')) k'"
  using close_keeps_counts [OF demo_kernel_counted, of 0] demo_fds_nth by auto

text \<open>
  \<^verbatim>\<open>FdTable::dup2\<close>: duplicating an open descriptor onto another number makes that number name the same
  object, releases what it named before, and keeps the counts exact, also when both numbers are the
  same; a number out of range or not open is refused without effect.
\<close>

theorem dup2_keeps_counts:
  assumes "counted (plus n (refs t)) k" and "quiet k" and "length t = MAX_FDS"
    and "\<And>i b. n i b + MAX_FDS + 1 < 2 ^ 64"
  shows "(if old_fd < MAX_FDS \<and> new_fd < MAX_FDS \<and> t ! old_fd \<noteq> None
     then \<exists>k'. dup2 old_fd new_fd t k = (Ok (), t[new_fd := t ! old_fd], k') \<and>
       counted (plus n (refs (t[new_fd := t ! old_fd]))) k' \<and> quiet k' \<and> same_rest k k'
     else dup2 old_fd new_fd t k = (Err BadFd, t, k))"
proof (cases "old_fd < MAX_FDS \<and> new_fd < MAX_FDS \<and> t ! old_fd \<noteq> None")
  case True
  then obtain fd where fd: "t ! old_fd = Some fd" by blast
  have "plus n (refs t) i b + 1 < 2 ^ 64" for i b
    using assms(4) [of i b] refs_le [of t i b] assms(3) by (simp add: plus_def)
  from dup2_counted [OF assms(1,3) this, of old_fd new_fd fd] True fd assms(2) show ?thesis by (auto simp: steps_to_def)
next
  case False
  then show ?thesis by (auto simp: dup2_def not_less split: option.splits)
qed

theorem dup2_keeps_counts_witness:
  "\<exists>k'. dup2 1 0 demo_fds demo_kernel = (Ok (), demo_fds[0 := end_of 0 False], k') \<and>
     counted (plus (\<lambda>_ _. 0) (refs (demo_fds[0 := end_of 0 False]))) k'"
  using dup2_keeps_counts [OF demo_kernel_counted, of 1 0] demo_fds_nth by (auto simp: end_of_def)

text \<open>
  Closing all descriptors of a process (\<^verbatim>\<open>FdTable::close_all\<close>, run when it exits) always completes, leaves
  its table empty, and returns exactly its references: what is counted afterwards is what the
  others hold.
\<close>

theorem close_all_returns_references:
  assumes "counted (plus n (refs t)) k" and "quiet k" and "length t = MAX_FDS"
  shows "\<exists>k'. close_all t k = (Ok (), fd_new, k') \<and> counted n k' \<and> quiet k' \<and> same_rest k k'"
  using close_all_counted [OF assms(1,3)] assms(2) by (auto simp: steps_to_def)

theorem close_all_returns_references_witness:
  "\<exists>k'. close_all demo_fds demo_kernel = (Ok (), fd_new, k') \<and> counted (\<lambda>_ _. 0) k'"
  using close_all_returns_references [OF demo_kernel_counted] by blast

text \<open>
  Inheriting descriptors (\<^verbatim>\<open>FdTable::clone\<close>, run by spawn): the copy is the same table, and every pipe end in
  it is counted once more.
\<close>

theorem clone_counts_once_more:
  assumes "counted n k" and "quiet k" and "\<And>i b. n i b + MAX_FDS + 1 < 2 ^ 64"
    and "length t = MAX_FDS" and "\<And>i b. 0 < refs t i b \<Longrightarrow> 0 < n i b"
  shows "\<exists>k'. clone_table t k = (Ok t, k') \<and> counted (plus n (refs t)) k' \<and> quiet k' \<and> same_rest k k'"
proof -
  have "n i b + refs t i b + 1 < 2 ^ 64" for i b using assms(3) [of i b] refs_le [of t i b] assms(4) by simp
  from clone_table_counted [OF this assms(5,1)] assms(2) show ?thesis by (auto simp: steps_to_def)
qed

theorem clone_counts_once_more_witness:
  "\<exists>k'. clone_table demo_fds demo_kernel = (Ok demo_fds, k') \<and>
     counted (plus (plus (\<lambda>_ _. 0) (refs demo_fds)) (refs demo_fds)) k'"
proof -
  have "plus (\<lambda>_ _. 0) (refs demo_fds) i b + MAX_FDS + 1 < 2 ^ 64" for i b
    using refs_le [of demo_fds i b] demo_kernel_counted(3) by (simp add: plus_def)
  from clone_counts_once_more [OF demo_kernel_counted(1,2) this demo_kernel_counted(3)] show ?thesis
    by auto
qed

text \<open>
  C17. Wake-ups: with the lock of the process table free, closing the last write end of a pipe makes every
  process blocked on reading it ready; with the lock held, as it is in every system call that closes
  a descriptor, the same call never returns as soon as one process waits.
\<close>

theorem close_last_write_end:
  assumes "i < MAX_PIPES" and "k_pipes k ! i = Some p" and "write_refcount p \<le> 1" and "length (k_pipes k) = MAX_PIPES"
  shows "(\<not> k_locked k \<longrightarrow> (\<exists>k'. close_pipe_end i False k = (Ok (), k') \<and>
      (\<forall>pid. get (k_table k') pid = (if pid \<in> set (waiting_readers p) then map_option ready_if_blocked (get (k_table k) pid)
                                     else get (k_table k) pid)))) \<and>
    (k_locked k \<and> waiting_readers p \<noteq> [] \<longrightarrow> fst (close_pipe_end i False k) = Hang)"
proof -
  have r: "\<not> write_end_open (release_end False p)" "waiting_readers (release_end False p) = waiting_readers p"
    using assms(3) by (simp_all add: release_end_def Let_def)
  show ?thesis
    using assms(1,2) r get_fold_unblock [of "waiting_readers p" "k_table k"]
    by (auto simp: close_pipe_end_def Let_def wake_readers_def wake_unlocked wake_locked)
qed

theorem close_last_write_end_witness:
  "fst (close_pipe_end 0 False (demo_kernel\<lparr>k_pipes := [Some (pipe_new\<lparr>waiting_readers := [2]\<rparr>),
     None, None, None, None, None, None, None]\<rparr>)) = Hang"
  using close_last_write_end [of 0 "demo_kernel\<lparr>k_pipes := [Some (pipe_new\<lparr>waiting_readers := [2]\<rparr>),
     None, None, None, None, None, None, None]\<rparr>" "pipe_new\<lparr>waiting_readers := [2]\<rparr>"]
  by (simp add: demo_kernel_def pipe_new_def)

end
