(* ===== verification/Syscall.thy ===== *)
theory Syscall
  imports FdRefs RustStr
begin

text \<open>
  The system calls, \<^verbatim>\<open>src/syscall.rs\<close>: every handler, the error numbers, the dispatcher and the trap entry
  that runs it and then lets the scheduler switch. A handler reads its arguments from the trap frame
  and the memory of the machine; the lock of the process table is taken and released where the
  code does. User pointers are only compared with null; an access that Rust leaves undefined (a word
  not aligned to eight, a slice of more than \<open>2 ^ 63 - 1\<close> bytes) panics, as the checks of the
  profile the kernel is built with have it. The messages the handlers print go to the console like
  everything else.
\<close>

section \<open>Numbers\<close>

definition SYS_WRITE :: u64 where "SYS_WRITE = 1"
definition SYS_EXIT :: u64 where "SYS_EXIT = 2"
definition SYS_FILE_WRITE :: u64 where "SYS_FILE_WRITE = 3"
definition SYS_FILE_READ :: u64 where "SYS_FILE_READ = 4"
definition SYS_FILE_CREATE :: u64 where "SYS_FILE_CREATE = 5"
definition SYS_FILE_DELETE :: u64 where "SYS_FILE_DELETE = 6"
definition SYS_DIR_CREATE :: u64 where "SYS_DIR_CREATE = 7"
definition SYS_DIR_DELETE :: u64 where "SYS_DIR_DELETE = 8"
definition SYS_OPEN :: u64 where "SYS_OPEN = 9"
definition SYS_CLOSE :: u64 where "SYS_CLOSE = 10"
definition SYS_READ :: u64 where "SYS_READ = 11"
definition SYS_DUP2 :: u64 where "SYS_DUP2 = 12"
definition SYS_PIPE :: u64 where "SYS_PIPE = 13"
definition SYS_SPAWN :: u64 where "SYS_SPAWN = 14"
definition SYS_WAIT :: u64 where "SYS_WAIT = 15"

lemmas sys_numbers = SYS_WRITE_def SYS_EXIT_def SYS_FILE_WRITE_def SYS_FILE_READ_def SYS_FILE_CREATE_def
  SYS_FILE_DELETE_def SYS_DIR_CREATE_def SYS_DIR_DELETE_def SYS_OPEN_def SYS_CLOSE_def SYS_READ_def
  SYS_DUP2_def SYS_PIPE_def SYS_SPAWN_def SYS_WAIT_def

definition ENOSYS :: int where "ENOSYS = -38"
definition EBADF :: int where "EBADF = -9"
definition EINVAL :: int where "EINVAL = -22"
definition EFAULT :: int where "EFAULT = -14"
definition ENOENT :: int where "ENOENT = -2"
definition ENOTDIR :: int where "ENOTDIR = -20"
definition EEXIST :: int where "EEXIST = -17"
definition ENOSPC :: int where "ENOSPC = -28"
definition EISDIR :: int where "EISDIR = -21"
definition ENOTEMPTY :: int where "ENOTEMPTY = -39"
definition EIO :: int where "EIO = -5"
definition ENXIO :: int where "ENXIO = -6"
definition ENAMETOOLONG :: int where "ENAMETOOLONG = -36"

lemmas errnos = ENOSYS_def EBADF_def EINVAL_def EFAULT_def ENOENT_def ENOTDIR_def EEXIST_def ENOSPC_def
  EISDIR_def ENOTEMPTY_def EIO_def ENXIO_def ENAMETOOLONG_def

datatype SysError =
  NoSys | SysBadFd | InvalidUtf8 | Fault | SysFs FsError | SysFd FdError | SysProc SpawnError | Child | NoProcess

fun fs_errno :: "FsError \<Rightarrow> int" where
  "fs_errno NotInitialized = EIO"
| "fs_errno NameTooLong = ENAMETOOLONG"
| "fs_errno DirectoryFull = ENOSPC"
| "fs_errno NoSpace = ENOSPC"
| "fs_errno NotFound = ENOENT"
| "fs_errno InvalidEncoding = EINVAL"
| "fs_errno InvalidPath = EINVAL"
| "fs_errno (DeviceInitFailed _) = ENXIO"
| "fs_errno NotADirectory = ENOTDIR"
| "fs_errno IsFile = ENOTDIR"
| "fs_errno AlreadyExists = EEXIST"
| "fs_errno DirectoryNotEmpty = ENOTEMPTY"
| "fs_errno IsDirectory = EISDIR"

fun fd_errno :: "FdError \<Rightarrow> int" where
  "fd_errno BadFd = EBADF"
| "fd_errno TooManyOpen = -24"
| "fd_errno FdNotFound = ENOENT"
| "fd_errno NotImplemented = ENOSYS"
| "fd_errno WouldBlock = -11"
| "fd_errno BrokenPipe = -32"
| "fd_errno (FdFs fs_err) = fs_errno fs_err"

fun proc_errno :: "SpawnError \<Rightarrow> int" where
  "proc_errno TooManyProcesses = -24"
| "proc_errno ProgramNotFound = ENOENT"
| "proc_errno LoadFailed = EIO"
| "proc_errno SpawnOutOfMemory = -12"

text \<open>The error half of the \<^verbatim>\<open>match\<close> in \<^verbatim>\<open>dispatch\<close>.\<close>

fun sys_errno :: "SysError \<Rightarrow> int" where
  "sys_errno NoSys = ENOSYS"
| "sys_errno SysBadFd = EBADF"
| "sys_errno InvalidUtf8 = EINVAL"
| "sys_errno Fault = EFAULT"
| "sys_errno (SysFs err) = fs_errno err"
| "sys_errno (SysFd err) = fd_errno err"
| "sys_errno (SysProc err) = proc_errno err"
| "sys_errno Child = -10"
| "sys_errno NoProcess = EBADF"

section \<open>User memory\<close>

definition set_umem :: "mem \<Rightarrow> kernel \<Rightarrow> kernel" where
  "set_umem m k = k\<lparr>k_machine := (k_machine k)\<lparr>umem := m\<rparr>\<rparr>"

text \<open>\<^verbatim>\<open>slice::from_raw_parts\<close>, and a word read or written through a raw pointer.\<close>

definition from_raw_parts :: "nat \<Rightarrow> nat \<Rightarrow> kernel \<Rightarrow> (bytes, SysError) outcome" where
  "from_raw_parts ptr len k = (if 2 ^ 63 \<le> len then Panic else Ok (mem_read ptr len (umem (k_machine k))))"

definition read_word :: "nat \<Rightarrow> kernel \<Rightarrow> (nat, SysError) outcome" where
  "read_word addr k = (if addr mod 8 \<noteq> 0 \<or> 2 ^ 64 \<le> addr then Panic else Ok (read_usize addr (umem (k_machine k))))"

definition write_word :: "nat \<Rightarrow> nat \<Rightarrow> kernel \<Rightarrow> (unit, SysError) outcome \<times> kernel" where
  "write_word addr v k =
     (if addr mod 8 \<noteq> 0 \<or> 2 ^ 64 \<le> addr then (Panic, k)
      else (Ok (), set_umem (write_usize addr v (umem (k_machine k))) k))"

definition read_path :: "u64 \<Rightarrow> u64 \<Rightarrow> kernel \<Rightarrow> (bytes, SysError) outcome" where
  "read_path ptr len k =
     (if len = 0 then Ok []
      else if ptr = 0 then Err Fault
      else and_then (from_raw_parts (unat ptr) (unat len) k) (\<lambda>bytes.
        ok_or InvalidUtf8 (from_utf8 bytes)))"

section \<open>The process table behind its lock\<close>

text \<open>What runs between \<^verbatim>\<open>PROCESS_TABLE.lock()\<close> and the end of the block that holds the guard.\<close>

definition with_lock :: "(kernel \<Rightarrow> ('a, 'e) outcome \<times> kernel) \<Rightarrow> kernel \<Rightarrow> ('a, 'e) outcome \<times> kernel" where
  "with_lock f k =
     (if k_locked k then (Hang, k)
      else case f (k\<lparr>k_locked := True\<rparr>) of (r, k) \<Rightarrow> (r, k\<lparr>k_locked := False\<rparr>))"

definition set_fds :: "Pid \<Rightarrow> FdTable \<Rightarrow> kernel \<Rightarrow> kernel" where
  "set_fds pid t k = k\<lparr>k_table := get_mut pid (\<lambda>p. p\<lparr>p_fd_table := t\<rparr>) (k_table k)\<rparr>"

definition with_current_fd_table_mut ::
  "(FdTable \<Rightarrow> kernel \<Rightarrow> ('r, FdError) outcome \<times> FdTable \<times> kernel) \<Rightarrow> kernel \<Rightarrow> ('r, SysError) outcome \<times> kernel" where
  "with_current_fd_table_mut f =
     with_lock (\<lambda>k.
       let pid = current_pid (k_table k) in
       if pid = INVALID_PID then (Err NoProcess, k)
       else case get (k_table k) pid of
         None \<Rightarrow> (Err NoProcess, k)
       | Some proc \<Rightarrow> (case f (p_fd_table proc) k of (r, t, k) \<Rightarrow> (map_err SysFd r, set_fds pid t k)))"

text \<open>
  The block of \<^verbatim>\<open>sys_read\<close> and \<^verbatim>\<open>sys_write\<close> that runs an operation on a descriptor of a process:
  \<^verbatim>\<open>pipe_waiting_on\<close> is set when it is a pipe, also when the operation fails.
\<close>

definition pipe_of :: "FileDescriptor \<Rightarrow> nat option" where
  "pipe_of d = (case d of FdPipe p \<Rightarrow> Some (pipe_id p) | _ \<Rightarrow> None)"

definition on_descriptor ::
  "(FileDescriptor \<Rightarrow> bytes \<Rightarrow> kernel \<Rightarrow> (nat, FdError) outcome \<times> FileDescriptor \<times> bytes \<times> kernel) \<Rightarrow>
   Pid \<Rightarrow> nat \<Rightarrow> bytes \<Rightarrow> kernel \<Rightarrow> nat option \<times> bytes \<times> (nat, FdError) outcome \<times> kernel" where
  "on_descriptor operation pid fd buf k =
     (if k_locked k then (None, buf, Hang, k)
      else case get (k_table k) pid of
        None \<Rightarrow> (None, buf, Err BadFd, k)
      | Some proc \<Rightarrow>
          (case fd_get (p_fd_table proc) fd of
             Ok d \<Rightarrow>
               (case operation d buf (k\<lparr>k_locked := True\<rparr>) of (r, d', buf', k') \<Rightarrow>
                  (pipe_of d, buf', r, (set_fds pid ((p_fd_table proc)[fd := Some d']) k')\<lparr>k_locked := False\<rparr>))
           | _ \<Rightarrow> (None, buf, Err BadFd, k)))"

section \<open>Reading and writing\<close>

definition sys_write :: "TrapFrame \<Rightarrow> kernel \<Rightarrow> (u64, SysError) outcome \<times> kernel" where
  "sys_write tf k =
     (let fd = unat (a1 tf); ptr = a2 tf; len = a3 tf in
      if len = 0 then (Ok 0, k)
      else if ptr = 0 then (Err Fault, k)
      else tryS (from_raw_parts (unat ptr) (unat len) k, k) (\<lambda>bytes k.
        let writer_pid = current_pid (k_table k) in
        case on_descriptor (\<lambda>d buf k. case descriptor_write d buf k of (r, d, k) \<Rightarrow> (r, d, buf, k)) writer_pid fd bytes k of
          (pipe_waiting_on, _, result, k) \<Rightarrow>
            if result = Err WouldBlock then
              tryS (case pipe_waiting_on of
                      Some i \<Rightarrow> ignore_err (mark_writer_waiting i writer_pid k)
                    | None \<Rightarrow> (Ok (), k)) (\<lambda>_ k.
                (Err (SysFd WouldBlock), k\<lparr>k_table := block_current (k_table k)\<rparr>))
            else tryS (map_err SysFd result, k) (\<lambda>written k. (Ok (word_of_nat written), k))))"

definition sys_read :: "TrapFrame \<Rightarrow> kernel \<Rightarrow> (u64, SysError) outcome \<times> kernel" where
  "sys_read tf k =
     (let fd = unat (a1 tf); buf_ptr = a2 tf; buf_len = a3 tf in
      if 0 < buf_len \<and> buf_ptr = 0 then (Err Fault, k)
      else tryS (if buf_len = 0 then Ok [] else from_raw_parts (unat buf_ptr) (unat buf_len) k, k) (\<lambda>buf k.
        let reader_pid = current_pid (k_table k) in
        case on_descriptor descriptor_read reader_pid fd buf k of
          (pipe_waiting_on, buf, result, k) \<Rightarrow>
            let k = set_umem (mem_write (unat buf_ptr) buf (umem (k_machine k))) k in
            if result = Err WouldBlock then
              tryS (case pipe_waiting_on of
                      Some i \<Rightarrow> ignore_err (mark_reader_waiting i reader_pid k)
                    | None \<Rightarrow> (Ok (), k)) (\<lambda>_ k.
                (Err (SysFd WouldBlock), k\<lparr>k_table := block_current (k_table k)\<rparr>))
            else tryS (map_err SysFd result, k) (\<lambda>n k. (Ok (word_of_nat n), k))))"

section \<open>Files and directories by path\<close>

definition sys_file_write :: "TrapFrame \<Rightarrow> kernel \<Rightarrow> (u64, SysError) outcome \<times> kernel" where
  "sys_file_write tf k =
     tryS (read_path (a1 tf) (a2 tf) k, k) (\<lambda>path k.
       let data_ptr = a3 tf; data_len = a4 tf in
       tryS (if data_len = 0 then Ok []
             else if data_ptr = 0 then Err Fault
             else from_raw_parts (unat data_ptr) (unat data_len) k, k) (\<lambda>data k.
         case fs_write_file (k_fs k) path data of (r, g) \<Rightarrow>
           tryS (map_err SysFs r, k\<lparr>k_fs := g\<rparr>) (\<lambda>_ k. (Ok data_len, k))))"

definition sys_file_read :: "TrapFrame \<Rightarrow> kernel \<Rightarrow> (u64, SysError) outcome \<times> kernel" where
  "sys_file_read tf k =
     tryS (read_path (a1 tf) (a2 tf) k, k) (\<lambda>path k.
       let buf_ptr = a3 tf; buf_len = a4 tf in
       if 0 < buf_len \<and> buf_ptr = 0 then (Err Fault, k)
       else case fs_read_file (k_fs k) path of (r, g) \<Rightarrow>
         tryS (map_err SysFs r, k\<lparr>k_fs := g\<rparr>) (\<lambda>contents k.
           let to_copy = min (length contents) (unat buf_len) in
           (Ok (word_of_nat to_copy), set_umem (mem_write (unat buf_ptr) (take to_copy contents) (umem (k_machine k))) k)))"

text \<open>\<^verbatim>\<open>sys_file_create\<close>, \<^verbatim>\<open>sys_file_delete\<close>, \<^verbatim>\<open>sys_dir_create\<close> and \<^verbatim>\<open>sys_dir_delete\<close> differ in the operation only.\<close>

definition sys_path_op ::
  "(fs_instance \<Rightarrow> bytes \<Rightarrow> (unit, FsError) outcome \<times> fs_instance) \<Rightarrow> TrapFrame \<Rightarrow> kernel \<Rightarrow> (u64, SysError) outcome \<times> kernel" where
  "sys_path_op operation tf k =
     tryS (read_path (a1 tf) (a2 tf) k, k) (\<lambda>path k.
       case operation (k_fs k) path of (r, g) \<Rightarrow> tryS (map_err SysFs r, k\<lparr>k_fs := g\<rparr>) (\<lambda>_ k. (Ok 0, k)))"

definition sys_file_create :: "TrapFrame \<Rightarrow> kernel \<Rightarrow> (u64, SysError) outcome \<times> kernel" where
  "sys_file_create = sys_path_op fs_create_file"

definition sys_file_delete :: "TrapFrame \<Rightarrow> kernel \<Rightarrow> (u64, SysError) outcome \<times> kernel" where
  "sys_file_delete = sys_path_op fs_remove_file"

definition sys_dir_create :: "TrapFrame \<Rightarrow> kernel \<Rightarrow> (u64, SysError) outcome \<times> kernel" where
  "sys_dir_create = sys_path_op fs_mkdir"

definition sys_dir_delete :: "TrapFrame \<Rightarrow> kernel \<Rightarrow> (u64, SysError) outcome \<times> kernel" where
  "sys_dir_delete = sys_path_op fs_remove_directory"

section \<open>Descriptors\<close>

definition mode_of_flags :: "u64 \<Rightarrow> FileMode" where
  "mode_of_flags flags =
     \<lparr>m_read = flags AND 0x1 \<noteq> 0, m_write = flags AND 0x2 \<noteq> 0, m_append = flags AND 0x8 \<noteq> 0, m_create = flags AND 0x4 \<noteq> 0\<rparr>"

definition sys_open :: "TrapFrame \<Rightarrow> kernel \<Rightarrow> (u64, SysError) outcome \<times> kernel" where
  "sys_open tf k =
     tryS (read_path (a1 tf) (a2 tf) k, k) (\<lambda>path k.
       case file_open path (mode_of_flags (a3 tf)) k of (r, k) \<Rightarrow>
         tryS (map_err SysFd r, k) (\<lambda>file_fd k.
           tryS (with_current_fd_table_mut (\<lambda>t k. case fd_alloc t (FdFile file_fd) of (r, t) \<Rightarrow> (r, t, k)) k) (\<lambda>fd_num k.
             (Ok (word_of_nat fd_num), k))))"

definition sys_close :: "TrapFrame \<Rightarrow> kernel \<Rightarrow> (u64, SysError) outcome \<times> kernel" where
  "sys_close tf k = tryS (with_current_fd_table_mut (fd_close (unat (a1 tf))) k) (\<lambda>_ k. (Ok 0, k))"

definition sys_dup2 :: "TrapFrame \<Rightarrow> kernel \<Rightarrow> (u64, SysError) outcome \<times> kernel" where
  "sys_dup2 tf k =
     tryS (with_current_fd_table_mut (dup2 (unat (a1 tf)) (unat (a2 tf))) k) (\<lambda>_ k. (Ok (a2 tf), k))"

text \<open>The closure of \<^verbatim>\<open>sys_pipe\<close>: the first number is closed again when there is no second.\<close>

definition alloc_pipe_ends :: "nat \<Rightarrow> FdTable \<Rightarrow> kernel \<Rightarrow> (nat \<times> nat, FdError) outcome \<times> FdTable \<times> kernel" where
  "alloc_pipe_ends i t k =
     (case fd_alloc t (FdPipe \<lparr>pipe_id = i, is_read_end = True\<rparr>) of (r, t) \<Rightarrow>
        tryS (r, t, k) (\<lambda>read_fd_num (t, k).
          case fd_alloc t (FdPipe \<lparr>pipe_id = i, is_read_end = False\<rparr>) of
            (Err e, t) \<Rightarrow> tryS (ignore_err (fd_close read_fd_num t k)) (\<lambda>_ s. (Err e, s))
          | (r, t) \<Rightarrow> tryS (r, t, k) (\<lambda>write_fd_num s. (Ok (read_fd_num, write_fd_num), s))))"

definition sys_pipe :: "TrapFrame \<Rightarrow> kernel \<Rightarrow> (u64, SysError) outcome \<times> kernel" where
  "sys_pipe tf k =
     (let fds_ptr = a1 tf in
      if fds_ptr = 0 then (Err Fault, k)
      else case create_pipe k of (r, k) \<Rightarrow> tryS (map_err SysFd r, k) (\<lambda>i k.
        tryS (with_current_fd_table_mut (alloc_pipe_ends i) k) (\<lambda>(read_fd_num, write_fd_num) k.
          tryS (write_word (unat fds_ptr) read_fd_num k) (\<lambda>_ k.
            tryS (write_word (unat fds_ptr + 8) write_fd_num k) (\<lambda>_ k. (Ok 0, k))))))"

section \<open>Processes\<close>

text \<open>What the handlers below and the trap entry say on the console.\<close>

definition exit_note :: "Pid \<Rightarrow> u64 \<Rightarrow> bytes" where
  "exit_note pid code = [10] @ ascii ''[process '' @ show_nat pid @ ascii '' exited with code '' @ show_int (sint code) @ ascii '']'' @ [10]"

definition spawn_note :: "bytes \<Rightarrow> bytes" where
  "spawn_note t = ascii ''[spawn] '' @ t @ [10]"

definition wait_note :: "Pid \<Rightarrow> bytes" where
  "wait_note child_pid = ascii ''[wait] reaped child_pid='' @ show_nat child_pid @ [10]"

definition call_note :: "Pid \<Rightarrow> u64 \<Rightarrow> u64 \<Rightarrow> bytes" where
  "call_note pid syscall_num retval = ascii ''[syscall] pid='' @ show_nat pid @ ascii '' sys='' @ show_nat (unat syscall_num) @
     ascii '' ret='' @ show_int (sint retval) @ ascii '' calling maybe_switch'' @ [10]"

definition switched_note :: "Pid \<Rightarrow> bytes" where
  "switched_note after_pid = ascii ''[syscall] SWITCHED to pid='' @ show_nat after_pid @ [10]"

definition sys_exit :: "TrapFrame \<Rightarrow> kernel \<Rightarrow> (u64, SysError) outcome \<times> kernel" where
  "sys_exit tf k =
     (let code = a1 tf in
      tryS (with_lock (\<lambda>k.
          let pid = current_pid (k_table k) in
          if pid \<noteq> INVALID_PID then
            case exit_process pid code k of (r, k) \<Rightarrow> tryS (map_err SysFd r, k) (\<lambda>_ k.
              case map_option p_parent_pid (get (k_table k) pid) of
                Some parent_pid \<Rightarrow> if parent_pid \<noteq> INVALID_PID then k_unblock parent_pid k else (Ok (), k)
              | None \<Rightarrow> (Ok (), k))
          else (Ok (), k)) k) (\<lambda>_ k.
        (Ok code, report (exit_note (current_pid (k_table k)) code) k)))"

text \<open>The length of a string that ends with a null byte, given up beyond 4096.\<close>

function scan_length :: "nat \<Rightarrow> nat \<Rightarrow> mem \<Rightarrow> (nat, SysError) outcome" where
  "scan_length arg_ptr l m =
     (if m (arg_ptr + l) = 0 then Ok l
      else if 4096 < l + 1 then Err Fault
      else scan_length arg_ptr (l + 1) m)"
  by pat_completeness auto
termination
  by (relation "measure (\<lambda>(_, l, _). 4097 - l)") auto

declare scan_length.simps [simp del]

text \<open>The loop over the arguments of \<^verbatim>\<open>sys_spawn\<close>, with \<open>n\<close> of them left from number \<open>i\<close> on.\<close>

fun read_args :: "nat \<Rightarrow> nat \<Rightarrow> nat \<Rightarrow> nat \<Rightarrow> kernel \<Rightarrow> (bytes list, SysError) outcome" where
  "read_args argv_ptr arg_lens_ptr i 0 k = Ok []"
| "read_args argv_ptr arg_lens_ptr i (Suc n) k =
     and_then (read_word (argv_ptr + 8 * i) k) (\<lambda>arg_ptr.
       if arg_ptr = 0 then Ok []
       else and_then (if arg_lens_ptr \<noteq> 0 then read_word (arg_lens_ptr + 8 * i) k
                      else scan_length arg_ptr 0 (umem (k_machine k))) (\<lambda>len.
         and_then (from_raw_parts arg_ptr len k) (\<lambda>bytes.
           and_then (ok_or InvalidUtf8 (from_utf8 bytes)) (\<lambda>arg.
             and_then (read_args argv_ptr arg_lens_ptr (i + 1) n k) (\<lambda>args. Ok (arg # args))))))"

text \<open>The descriptors a child inherits, cloned under the lock.\<close>

definition inherit_fds :: "kernel \<Rightarrow> (FdTable, SysError) outcome \<times> kernel" where
  "inherit_fds =
     with_lock (\<lambda>k.
       let parent_pid = current_pid (k_table k) in
       if parent_pid = INVALID_PID then (Ok with_standard, k)
       else case get (k_table k) parent_pid of
         Some p \<Rightarrow> (case clone_table (p_fd_table p) k of (r, k) \<Rightarrow> (map_err SysFd r, k))
       | None \<Rightarrow> (Ok with_standard, k))"

text \<open>Lifting an operation on memory to the kernel's state.\<close>

definition on_umem :: "(mem \<Rightarrow> ('a, LoadError) outcome \<times> mem) \<Rightarrow> kernel \<Rightarrow> ('a, SysError) outcome \<times> kernel" where
  "on_umem f k =
     (case f (umem (k_machine k)) of (r, m) \<Rightarrow> (map_err (\<lambda>_. SysProc LoadFailed) r, set_umem m k))"

definition k_build_user_stack :: "bytes list \<Rightarrow> kernel \<Rightarrow> (nat \<times> nat \<times> nat, LoadError) outcome \<times> kernel" where
  "k_build_user_stack args k =
     (let m = umem (k_machine k) in
      case build_user_stack args m of (r, m') \<Rightarrow> (r, reports (stack_notes args m) (set_umem m' k)))"

definition spawn_stack :: "bytes list \<Rightarrow> kernel \<Rightarrow> (nat \<times> nat \<times> nat, SysError) outcome \<times> kernel" where
  "spawn_stack args k = (case k_build_user_stack args k of (r, k) \<Rightarrow> (map_err (\<lambda>_. SysProc LoadFailed) r, k))"

text \<open>The block of \<^verbatim>\<open>sys_spawn\<close> that makes the process table entry under the lock.\<close>

definition create_child ::
  "u64 \<Rightarrow> u64 \<Rightarrow> bytes \<Rightarrow> bytes list \<Rightarrow> FdTable \<Rightarrow> bytes \<Rightarrow> nat \<Rightarrow> nat \<Rightarrow> kernel \<Rightarrow> (Pid, SysError) outcome \<times> kernel" where
  "create_child entry sp path args fd_table memory argc argv_ptr =
     with_lock (\<lambda>k.
       let k = report (spawn_note (ascii ''parent_pid='' @ show_nat (current_pid (k_table k)) @ ascii '', creating child...'')) k in
       case spawn entry sp path args fd_table memory argc argv_ptr (k_table k) of
         (r, t) \<Rightarrow> (map_err SysProc r, k\<lparr>k_table := t\<rparr>))"

definition sys_spawn :: "(nat \<Rightarrow> bool) \<Rightarrow> TrapFrame \<Rightarrow> kernel \<Rightarrow> (u64, SysError) outcome \<times> kernel" where
  "sys_spawn alloc_ok tf k =
     tryS (read_path (a1 tf) (a2 tf) k, k) (\<lambda>path k.
       let argv_ptr = unat (a3 tf); argc = unat (a4 tf); arg_lens_ptr = unat (a5 tf);
           k = report (spawn_note (ascii ''path='' @ path @ ascii '', argc='' @ show_nat argc)) k
       in
       tryS (if 0 < argc \<and> argv_ptr \<noteq> 0 then read_args argv_ptr arg_lens_ptr 0 argc k else Ok [], k) (\<lambda>args k.
         case load alloc_ok (k_fs k) path of (r, g) \<Rightarrow>
           tryS (map_err (\<lambda>_. SysProc ProgramNotFound) r, k\<lparr>k_fs := g\<rparr>) (\<lambda>program k.
             tryS (inherit_fds k) (\<lambda>fd_table k.
               let saved_window = snapshot_user_window (umem (k_machine k)) in
               tryS (on_umem (load_into_user_window program) k) (\<lambda>_ k.
                 tryS (spawn_stack args k) (\<lambda>(sp, built_argc, built_argv_ptr) k.
                   let child_memory = snapshot_user_window (umem (k_machine k));
                       k = set_umem (restore_user_window saved_window (umem (k_machine k))) k
                   in
                   tryS (create_child (word_of_nat (lp_entry program)) (word_of_nat sp) path args fd_table child_memory
                           built_argc built_argv_ptr k) (\<lambda>child_pid k.
                     (Ok (word_of_nat child_pid),
                      reports [spawn_note (ascii ''created child_pid='' @ show_nat child_pid), spawn_note (ascii ''returning to parent'')] k))))))))"

text \<open>
  \<^verbatim>\<open>sys_wait\<close> gives the lock back before it blocks. The inner value \<^const>\<open>None\<close> is the case where it
  falls through to that.
\<close>

definition sys_wait :: "TrapFrame \<Rightarrow> kernel \<Rightarrow> (u64, SysError) outcome \<times> kernel" where
  "sys_wait tf k =
     (let status_ptr = a1 tf in
      tryS (with_lock (\<lambda>k.
          let pid = current_pid (k_table k) in
          if pid = INVALID_PID then (Err Child, k)
          else if \<not> has_children pid (k_table k) then (Err Child, k)
          else case wait pid (k_table k) of
            (Some (child_pid, exit_code), t) \<Rightarrow>
              let k = report (wait_note child_pid) (k\<lparr>k_table := t\<rparr>) in
              tryS (if status_ptr \<noteq> 0 then write_word (unat status_ptr) (unat exit_code) k else (Ok (), k)) (\<lambda>_ k. (Ok (Some child_pid), k))
          | (None, t) \<Rightarrow> (Ok None, k)) k) (\<lambda>reaped k.
        case reaped of
          Some child_pid \<Rightarrow> (Ok (word_of_nat child_pid), k)
        | None \<Rightarrow> (Err (SysFd WouldBlock), k\<lparr>k_table := block_current (k_table k)\<rparr>)))"

section \<open>Dispatch\<close>

definition handler :: "(nat \<Rightarrow> bool) \<Rightarrow> TrapFrame \<Rightarrow> kernel \<Rightarrow> (u64, SysError) outcome \<times> kernel" where
  "handler alloc_ok tf k =
     (let n = a0 tf in
      if n = SYS_WRITE then sys_write tf k
      else if n = SYS_EXIT then sys_exit tf k
      else if n = SYS_FILE_WRITE then sys_file_write tf k
      else if n = SYS_FILE_READ then sys_file_read tf k
      else if n = SYS_FILE_CREATE then sys_file_create tf k
      else if n = SYS_FILE_DELETE then sys_file_delete tf k
      else if n = SYS_DIR_CREATE then sys_dir_create tf k
      else if n = SYS_DIR_DELETE then sys_dir_delete tf k
      else if n = SYS_OPEN then sys_open tf k
      else if n = SYS_CLOSE then sys_close tf k
      else if n = SYS_READ then sys_read tf k
      else if n = SYS_DUP2 then sys_dup2 tf k
      else if n = SYS_PIPE then sys_pipe tf k
      else if n = SYS_SPAWN then sys_spawn alloc_ok tf k
      else if n = SYS_WAIT then sys_wait tf k
      else (Err NoSys, k))"

text \<open>The result as \<^verbatim>\<open>dispatch\<close> returns it: a panic or a hang leaves no value.\<close>

fun code_of :: "(u64, SysError) outcome \<Rightarrow> (u64, unit) outcome" where
  "code_of (Ok len) = Ok len"
| "code_of (Err e) = Ok (word_of_int (sys_errno e))"
| "code_of Panic = Panic"
| "code_of Hang = Hang"

definition dispatch :: "(nat \<Rightarrow> bool) \<Rightarrow> TrapFrame \<Rightarrow> kernel \<Rightarrow> (u64, unit) outcome \<times> kernel" where
  "dispatch alloc_ok tf k = (case handler alloc_ok tf k of (result, k) \<Rightarrow> (code_of result, k))"

definition handle_ecall :: "(nat \<Rightarrow> bool) \<Rightarrow> TrapFrame \<Rightarrow> kernel \<Rightarrow> (TrapFrame, unit) outcome \<times> kernel" where
  "handle_ecall alloc_ok tf k =
     (let k = k\<lparr>k_machine := (k_machine k)\<lparr>sepc := sepc (k_machine k) + 4\<rparr>\<rparr>;
          syscall_num = a0 tf;
          pid = current_pid (k_table k)
      in
      tryS (dispatch alloc_ok tf k) (\<lambda>retval k.
        let k = report (call_note pid syscall_num retval) k in
        case maybe_switch (tf\<lparr>a0 := retval\<rparr>) (k_machine k) (k_table k) of
          (_, tf, m, t) \<Rightarrow>
            let k = k\<lparr>k_machine := m, k_table := t\<rparr>; after_pid = current_pid t in
            (Ok tf, if after_pid \<noteq> pid then report (switched_note after_pid) k else k)))"

end
