(* ===== verification/KernelInv.thy ===== *)
theory KernelInv
  imports Syscall
begin

text \<open>
  The invariant of the kernel between system calls, and that every call that returns keeps it: the
  process table is well formed and not locked, and the reference counts of the pipe table are what
  the descriptors of all processes amount to, plus what earlier failures have leaked.
\<close>

section \<open>References of all processes\<close>

definition held :: "ProcessTable \<Rightarrow> counts" where
  "held t i b = (\<Sum>p \<in> procs t. refs (p_fd_table p) i b)"

text \<open>Those of all processes but one.\<close>

definition others :: "Process \<Rightarrow> ProcessTable \<Rightarrow> counts" where
  "others p t i b = (\<Sum>q \<in> procs t - {p}. refs (p_fd_table q) i b)"

lemma finite_procs [simp]: "finite (procs t)"
  by (simp flip: set_get_all)

lemma held_split: "p \<in> procs t \<Longrightarrow> held t = plus (others p t) (refs (p_fd_table p))"
  by (simp add: held_def others_def plus_def fun_eq_iff sum.remove)

lemma procs_get_mut:
  assumes "table_ok t"
  shows "procs (get_mut pid f t) = (\<lambda>p. if p_pid p = pid then f p else p) ` procs t"
  using get_all_get_mut [OF assms, of pid f] by (simp flip: set_get_all)

lemma held_get_mut:
  assumes ok: "table_ok t" and p: "get t pid = Some p" and f: "\<And>p. p_pid (f p) = p_pid p"
  shows "held (get_mut pid f t) = plus (others p t) (refs (p_fd_table (f p)))"
proof -
  let ?g = "\<lambda>q. if p_pid q = pid then f q else q"
  have "inj_on p_pid (procs t)"
    using ok by (simp add: table_ok_def distinct_map flip: set_get_all)
  then have inj: "inj_on ?g (procs t)"
    by (intro inj_onI) (metis f inj_onD)
  have mem: "p \<in> procs t" "p_pid p = pid" using p get_iff [OF ok] by simp_all
  have "p_pid q \<noteq> pid" if "q \<in> procs t - {p}" for q
    using that mem get_iff [OF ok, of pid q] p by auto
  then have "(\<Sum>q \<in> procs t - {p}. refs (p_fd_table (?g q)) i b) = others p t i b" for i b
    by (simp add: others_def)
  moreover have "held (get_mut pid f t) i b = (\<Sum>q \<in> procs t. refs (p_fd_table (?g q)) i b)" for i b
    unfolding held_def procs_get_mut [OF ok] by (subst sum.reindex [OF inj]) (simp add: comp_def)
  ultimately have "held (get_mut pid f t) i b = others p t i b + refs (p_fd_table (f p)) i b" for i b
    using mem sum.remove [of "procs t" p "\<lambda>q. refs (p_fd_table (?g q)) i b"] by simp
  then show ?thesis by (simp add: plus_def fun_eq_iff)
qed

lemma held_same:
  assumes "table_ok t" and "\<And>p. p_pid (f p) = p_pid p" and "\<And>p. p_fd_table (f p) = p_fd_table p"
  shows "held (get_mut pid f t) = held t"
proof (cases "get t pid")
  case None
  then have "\<forall>p \<in> procs t. p_pid p \<noteq> pid" using get_iff [OF assms(1)] by force
  then have "(\<lambda>p. if p_pid p = pid then f p else p) ` procs t = procs t" by force
  then show ?thesis by (simp add: held_def fun_eq_iff procs_get_mut [OF assms(1)])
next
  case (Some p)
  from held_get_mut [OF assms(1) this assms(2)] held_split [OF get_procs [OF Some]] assms(3) show ?thesis by simp
qed

lemma held_unblock: "table_ok t \<Longrightarrow> held (unblock pid t) = held t"
  by (simp add: unblock_def held_same)

lemma held_block: "table_ok t \<Longrightarrow> held (block_current t) = held t"
  by (simp add: block_current_def held_same)

lemma held_set_current [simp]: "held (set_current pid t) = held t"
  by (simp add: held_def [abs_def])

lemma held_switch:
  assumes ok: "table_ok t" and ms: "maybe_switch tf m t = (sw, tf', m', t')"
  shows "held t' = held t"
  using ok
proof (cases rule: maybe_switch_cases [where tf = tf and m = m])
  case (switch b pid p)
  let ?t = "save_current b tf m t"
  have t': "t' = get_mut pid started_running (set_current pid ?t)"
    using ms switch(5) by (simp add: switch_to_eq [OF switch(3)])
  have "set_current pid (get_mut pid started_running ?t) = get_mut pid started_running (set_current pid ?t)"
    by (simp add: set_current_def get_mut_def split: option.split del: position_None)
  with t' have "held t' = held (get_mut pid started_running ?t)" by (metis held_set_current)
  also have "\<dots> = held ?t" by (rule held_same [OF table_ok_save(1) [OF ok]]) (simp_all add: started_running_def)
  finally show ?thesis by (simp add: save_current_eq [OF ok] held_same [OF ok])
qed (use ms in \<open>simp_all add: save_current_eq [OF ok] held_same [OF ok]\<close>)

section \<open>The invariant\<close>

definition kernel_ok :: "counts \<Rightarrow> kernel \<Rightarrow> bool" where
  "kernel_ok leak k \<longleftrightarrow> \<not> k_locked k \<and> table_ok (k_table k) \<and> counted (plus leak (held (k_table k))) k"

text \<open>No reference count is near the end of its range.\<close>

definition room :: "kernel \<Rightarrow> bool" where
  "room k \<longleftrightarrow> (\<forall>p. Some p \<in> set (k_pipes k) \<longrightarrow> read_refcount p < 2 ^ 63 \<and> write_refcount p < 2 ^ 63)"

lemma kernel_ok_fields [simp]:
  "kernel_ok leak (k\<lparr>k_fs := g\<rparr>) = kernel_ok leak k" "kernel_ok leak (k\<lparr>k_machine := m\<rparr>) = kernel_ok leak k"
  "kernel_ok leak (set_umem mm k) = kernel_ok leak k" "kernel_ok leak (uart_write_bytes w b k) = kernel_ok leak k"
  "kernel_ok leak (reports bs k) = kernel_ok leak k"
  by (simp_all add: kernel_ok_def counted_def set_umem_def)

lemma counted_fields [simp]:
  "counted n (k\<lparr>k_fs := g\<rparr>) = counted n k" "counted n (k\<lparr>k_machine := m\<rparr>) = counted n k"
  "counted n (k\<lparr>k_rx := x\<rparr>) = counted n k" "counted n (k\<lparr>k_tx := y\<rparr>) = counted n k"
  "counted n (k\<lparr>k_locked := l\<rparr>) = counted n k" "counted n (set_umem mm k) = counted n k"
  by (simp_all add: counted_def set_umem_def)

lemma room_bound:
  assumes "counted n k" and "room k"
  shows "n i b < 2 ^ 63"
proof (cases "i < MAX_PIPES")
  case True
  then have pc: "pipe_counted n i (k_pipes k ! i)" and len: "length (k_pipes k) = MAX_PIPES"
    using assms(1) by (simp_all add: counted_def)
  show ?thesis
  proof (cases "k_pipes k ! i")
    case None
    then show ?thesis using pc by (cases b) (simp_all add: pipe_counted_def)
  next
    case (Some p)
    then have "Some p \<in> set (k_pipes k)" using True len by (metis nth_mem)
    then show ?thesis using pc Some assms(2) by (cases b) (auto simp: pipe_counted_def room_def)
  qed
next
  case False
  then show ?thesis using assms(1) by (simp add: counted_def)
qed

text \<open>A call that returns at all leaves the invariant intact, with the same leak.\<close>

definition keeps :: "counts \<Rightarrow> ('a, 'e) outcome \<times> kernel \<Rightarrow> bool" where
  "keeps leak res \<longleftrightarrow> fst res = Panic \<or> fst res = Hang \<or> kernel_ok leak (snd res)"

lemma keepsI: "kernel_ok leak k \<Longrightarrow> keeps leak (r, k)"
  by (simp add: keeps_def)

lemma keeps_stop [simp]: "keeps leak (Panic, k)" "keeps leak (Hang, k)"
  by (simp_all add: keeps_def)

lemma keeps_tryS:
  assumes "keeps leak m" and "\<And>x k. m = (Ok x, k) \<Longrightarrow> kernel_ok leak k \<Longrightarrow> keeps leak (f x k)"
  shows "keeps leak (tryS m f)"
  using assms by (cases "(m, f)" rule: tryS.cases) (auto simp: keeps_def)

lemma keeps_pure:
  "kernel_ok leak k \<Longrightarrow> (\<And>x. r = Ok x \<Longrightarrow> keeps leak (f x k)) \<Longrightarrow> keeps leak (tryS (r, k) f)"
  by (rule keeps_tryS) (auto intro: keepsI)

lemma kernel_ok_block: "kernel_ok leak k \<Longrightarrow> kernel_ok leak (k\<lparr>k_table := block_current (k_table k)\<rparr>)"
  by (simp add: kernel_ok_def block_unblock_ok held_block)

section \<open>Reading and writing pipes\<close>

text \<open>Replacing a pipe by one with the same counts and no new waiters.\<close>

lemma swap_pipe:
  assumes n: "counted n k" and i: "i < MAX_PIPES" and p: "k_pipes k ! i = Some p" and wf: "pipe_wf q"
    and eq: "read_refcount q = read_refcount p" "write_refcount q = write_refcount p"
      "read_end_open q = read_end_open p" "write_end_open q = write_end_open p"
    and w: "set (waiting_readers q) \<subseteq> set (waiting_readers p)" "set (waiting_writers q) \<subseteq> set (waiting_writers p)"
  shows "steps_to n k (set_pipe i (Some q) k)"
proof -
  have pc: "pipe_counted n i (Some p)" and len: "length (k_pipes k) = MAX_PIPES"
    using n i p by (auto simp: counted_def dest: spec [of _ i])
  from pc have "pipe_counted n i (Some q)" using wf eq by (simp add: pipe_counted_def)
  then have "counted n (set_pipe i (Some q) k)" by (rule counted_set [OF n i]) simp
  moreover have "Some p \<in> set (k_pipes k)" using p i len by (metis nth_mem)
  then have "quiet k \<longrightarrow> quiet (set_pipe i (Some q) k)"
    using w by (auto simp: quiet_def dest!: set_update_subset_insert [THEN subsetD])
  ultimately show ?thesis by (simp add: steps_to_def set_pipe_rest)
qed

lemma quiet_table [simp]: "quiet (k\<lparr>k_table := t\<rparr>) = quiet k"
  by (simp add: quiet_def)

lemma wake_steps:
  assumes "steps_to n k (set_pipe i (Some q) k)" and "Some p \<in> set (k_pipes k)"
    and "set pids \<subseteq> set (waiting_readers p) \<union> set (waiting_writers p)"
  shows "(fst (wake pids (set_pipe i (Some q) k) :: (unit, FdError) outcome \<times> kernel) = Hang \<and> \<not> quiet k) \<or>
    (\<exists>k'. wake pids (set_pipe i (Some q) k) = (Ok () :: (unit, FdError) outcome, k') \<and> steps_to n k k')"
  using wake_settles [of pids "set_pipe i (Some q) k"]
proof (elim disjE exE conjE)
  assume h: "fst (wake pids (set_pipe i (Some q) k) :: (unit, FdError) outcome \<times> kernel) = Hang"
    "k_locked (set_pipe i (Some q) k)" "pids \<noteq> []"
  have "k_locked k" using h(2) by simp
  moreover have "waiting_readers p \<noteq> [] \<or> waiting_writers p \<noteq> []" using h(3) assms(3) by (cases pids) auto
  ultimately have "\<not> quiet k" using assms(2) unfolding quiet_def by blast
  with h(1) show ?thesis by simp
next
  fix t assume t: "wake pids (set_pipe i (Some q) k) = (Ok () :: (unit, FdError) outcome, (set_pipe i (Some q) k)\<lparr>k_table := t\<rparr>)"
    "same_rest (set_pipe i (Some q) k) ((set_pipe i (Some q) k)\<lparr>k_table := t\<rparr>)"
  have "same_rest k ((set_pipe i (Some q) k)\<lparr>k_table := t\<rparr>)" using same_rest_trans [OF set_pipe_rest t(2)] .
  then have "steps_to n k ((set_pipe i (Some q) k)\<lparr>k_table := t\<rparr>)" using assms(1) by (simp add: steps_to_def)
  then show ?thesis using t(1) by blast
qed

text \<open>\<open>settles\<close>: the call spins because somebody waits, or returns having taken a step.\<close>

definition settles :: "counts \<Rightarrow> kernel \<Rightarrow> (nat, FdError) outcome \<Rightarrow> kernel \<Rightarrow> bool" where
  "settles n k r k' \<longleftrightarrow> (r = Hang \<and> \<not> quiet k) \<or> (r \<noteq> Hang \<and> r \<noteq> Panic \<and> steps_to n k k')"

lemma lookup_pipe_cases:
  assumes "counted n k"
  obtains "lookup_pipe i k = Err BadFd"
    | p where "lookup_pipe i k = Ok p" "i < MAX_PIPES" "k_pipes k ! i = Some p" "Some p \<in> set (k_pipes k)" "pipe_wf p"
proof (cases "i < MAX_PIPES \<and> k_pipes k ! i \<noteq> None")
  case True
  then obtain p where p: "k_pipes k ! i = Some p" by blast
  moreover have "pipe_counted n i (Some p)" "length (k_pipes k) = MAX_PIPES"
    using assms True p by (auto simp: counted_def dest: spec [of _ i])
  ultimately show ?thesis
    using that(2) [of p] True nth_mem [of i "k_pipes k"] by (simp add: lookup_pipe_def pipe_counted_def)
next
  case False
  then show ?thesis using that(1) by (auto simp: lookup_pipe_def not_less)
qed

lemma pt_read_settles:
  assumes n: "counted n k" and run: "pt_read i buf k = (r, buf', k')"
  shows "settles n k r k'"
  using n
proof (cases rule: lookup_pipe_cases [where i = i])
  case 1
  then show ?thesis using run steps_to_refl [OF n] by (auto simp: pt_read_def settles_def)
next
  case (2 p)
  show ?thesis
  proof (cases "pipe_contents p = []")
    case True
    have "steps_to n k (set_pipe i (Some p) k)" using swap_pipe [OF n 2(2,3,5)] by simp
    then show ?thesis
      using run 2(1) pipe_read_spec(1,2) [OF 2(5) True, of buf]
      by (cases "write_end_open p") (auto simp: pt_read_def settles_def)
  next
    case False
    from pipe_read_spec(3) [OF 2(5) False, of buf] obtain m q b' where
      q: "pipe_read p buf = (Ok m, q, b')" "pipe_wf q" "same_ends p q" by blast
    have s: "steps_to n k (set_pipe i (Some q) k)" "steps_to n k (set_pipe i (Some (q\<lparr>waiting_writers := []\<rparr>)) k)"
      using q(2,3) by (auto intro!: swap_pipe [OF n 2(2,3)] simp: same_ends_def pipe_wf_def)
    have "set (waiting_writers q) \<subseteq> set (waiting_readers p) \<union> set (waiting_writers p)"
      using q(3) by (simp add: same_ends_def)
    from wake_steps [OF s(2) 2(4) this] s(1) run 2(1) q(1) show ?thesis
      by (auto simp: pt_read_def settles_def wake_writers_def tryS_Hang split: if_splits prod.splits)
  qed
qed

lemma pt_write_settles:
  assumes n: "counted n k" and run: "pt_write i buf k = (r, k')"
  shows "settles n k r k'"
  using n
proof (cases rule: lookup_pipe_cases [where i = i])
  case 1
  then show ?thesis using run steps_to_refl [OF n] by (auto simp: pt_write_def settles_def)
next
  case (2 p)
  have same: "steps_to n k (set_pipe i (Some p) k)" using swap_pipe [OF n 2(2,3,5)] by simp
  show ?thesis
  proof (cases "read_end_open p \<and> length (pipe_contents p) < 4095")
    case False
    then have "length (pipe_contents p) = 4095 \<or> \<not> read_end_open p" using available_less [OF 2(5)] by auto
    then show ?thesis
      using run 2(1) same pipe_write_refused [OF 2(5), of buf]
      by (cases "read_end_open p") (auto simp: pt_write_def settles_def)
  next
    case True
    with pipe_write_spec [OF 2(5), of buf] obtain m q where
      q: "pipe_write p buf = (Ok m, q)" "pipe_wf q" "same_ends p q" by blast
    have s: "steps_to n k (set_pipe i (Some q) k)" "steps_to n k (set_pipe i (Some (q\<lparr>waiting_readers := []\<rparr>)) k)"
      using q(2,3) by (auto intro!: swap_pipe [OF n 2(2,3)] simp: same_ends_def pipe_wf_def)
    have "set (waiting_readers q) \<subseteq> set (waiting_readers p) \<union> set (waiting_writers p)"
      using q(3) by (simp add: same_ends_def)
    from wake_steps [OF s(2) 2(4) this] s(1) run 2(1) q(1) show ?thesis
      by (auto simp: pt_write_def settles_def wake_readers_def tryS_Hang split: if_splits prod.splits)
  qed
qed

section \<open>Operations on one descriptor\<close>

text \<open>
  What \<^const>\<open>on_descriptor\<close> relies on: with the lock held, an operation that returns leaves the counts and the
  process table alone and does not turn the descriptor into a reference to another pipe end.
\<close>

type_synonym descriptor_op =
  "FileDescriptor \<Rightarrow> bytes \<Rightarrow> kernel \<Rightarrow> (nat, FdError) outcome \<times> FileDescriptor \<times> bytes \<times> kernel"

definition op_safe :: "descriptor_op \<Rightarrow> bool" where
  "op_safe op \<longleftrightarrow> (\<forall>d buf k n. counted n k \<and> k_locked k \<longrightarrow>
     (case op d buf k of (r, d', buf', k') \<Rightarrow> r = Hang \<or> r = Panic \<or>
        (counted n k' \<and> k_table k' = k_table k \<and> one (Some d') = one (Some d))))"

lemma one_not_pipe [simp]: "one (Some (FdFile f)) = (\<lambda>_ _. 0)" "one (Some (FdUart u)) = (\<lambda>_ _. 0)"
  by (auto simp: one_def fun_eq_iff end_of_def)

lemma settles_safe:
  "settles n k r k' \<Longrightarrow> k_locked k \<Longrightarrow> r = Hang \<or> r = Panic \<or> (counted n k' \<and> k_table k' = k_table k)"
  by (auto simp: settles_def steps_to_def same_rest_def)

text \<open>File descriptors touch the file system only.\<close>

definition frame :: "kernel \<Rightarrow> kernel \<Rightarrow> bool" where
  "frame k k' \<longleftrightarrow> k_table k' = k_table k \<and> k_pipes k' = k_pipes k \<and> k_locked k' = k_locked k"

lemma frame_counted: "frame k k' \<Longrightarrow> counted n k' = counted n k"
  by (simp add: frame_def counted_def)

lemma frame_kernel_ok: "frame k k' \<Longrightarrow> kernel_ok leak k' = kernel_ok leak k"
  by (simp add: frame_def kernel_ok_def counted_def)

lemma frame_fields [simp]:
  "frame k k" "frame k (k'\<lparr>k_fs := g\<rparr>) = frame k k'" "frame k (k'\<lparr>k_machine := m\<rparr>) = frame k k'"
  "frame (k\<lparr>k_fs := g\<rparr>) k' = frame k k'"
  by (simp_all add: frame_def)

lemma frame_tryS:
  "frame k (snd (snd m)) \<Longrightarrow> (\<And>x f k1. frame k k1 \<Longrightarrow> frame k (snd (snd (h x (f, k1))))) \<Longrightarrow> frame k (snd (snd (tryS m h)))"
  by (cases "(m, h)" rule: tryS.cases) auto

lemma file_read_frame: "frame k (snd (snd (snd (file_read f buf k))))"
  by (cases "fs_read_file (k_fs k) (f_path f)"; cases "fst (fs_read_file (k_fs k) (f_path f))")
     (auto simp: file_read_def Let_def)

lemma file_write_frame: "frame k (snd (snd (file_write f buf k)))"
  unfolding file_write_def Let_def
  by (auto intro!: frame_tryS split: prod.splits)

lemma op_safe_read: "op_safe descriptor_read"
  unfolding op_safe_def
proof (intro allI impI, elim conjE)
  fix d buf k n assume n: "counted n k" and l: "k_locked k"
  show "case descriptor_read d buf k of (r, d', buf', k') \<Rightarrow> r = Hang \<or> r = Panic \<or>
      (counted n k' \<and> k_table k' = k_table k \<and> one (Some d') = one (Some d))"
  proof (cases d)
    case (FdUart m)
    then show ?thesis
      using n by (cases m; cases "k_rx k") (auto simp: read_byte_blocking_def)
  next
    case (FdFile f)
    obtain r f' b' k' where r: "file_read f buf k = (r, f', b', k')" by (metis prod_cases4)
    then have "frame k k'" using file_read_frame [of k f buf] by simp
    then show ?thesis using FdFile r n by (simp add: frame_counted) (simp add: frame_def)
  next
    case (FdPipe p)
    obtain r b' k' where r: "pt_read (pipe_id p) buf k = (r, b', k')" by (metis prod_cases3)
    from settles_safe [OF pt_read_settles [OF n r] l] r FdPipe n show ?thesis by (auto simp: pipe_fd_read_def)
  qed
qed

lemma op_safe_write: "op_safe (\<lambda>d buf k. case descriptor_write d buf k of (r, d, k) \<Rightarrow> (r, d, buf, k))"
  unfolding op_safe_def
proof (intro allI impI, elim conjE)
  fix d buf k n assume n: "counted n k" and l: "k_locked k"
  show "case (case descriptor_write d buf k of (r, d, k) \<Rightarrow> (r, d, buf, k)) of (r, d', buf', k') \<Rightarrow> r = Hang \<or> r = Panic \<or>
      (counted n k' \<and> k_table k' = k_table k \<and> one (Some d') = one (Some d))"
  proof (cases d)
    case (FdUart m)
    then show ?thesis using n by (cases m) (auto simp: uart_write_bytes_def)
  next
    case (FdFile f)
    obtain r f' k' where r: "file_write f buf k = (r, f', k')" by (metis prod_cases3)
    then have "frame k k'" using file_write_frame [of k f buf] by simp
    then show ?thesis using FdFile r n by (simp add: frame_counted) (simp add: frame_def)
  next
    case (FdPipe p)
    obtain r k' where r: "pt_write (pipe_id p) buf k = (r, k')" by (metis prod.exhaust)
    from settles_safe [OF pt_write_settles [OF n r] l] r FdPipe n show ?thesis by (auto simp: pipe_fd_write_def)
  qed
qed

text \<open>Giving a process another descriptor table.\<close>

lemma set_fds_ok:
  assumes ok: "table_ok t" and p: "get t pid = Some p" and len: "length fds = MAX_FDS"
  shows "table_ok (get_mut pid (\<lambda>p. p\<lparr>p_fd_table := fds\<rparr>) t)"
    and "held (get_mut pid (\<lambda>p. p\<lparr>p_fd_table := fds\<rparr>) t) = plus (others p t) (refs fds)"
proof -
  have "process_ok t (q\<lparr>p_fd_table := fds\<rparr>)" if "get t pid = Some q" for q
    using table_ok_process [OF ok that] len by (simp add: process_ok_def)
  then show "table_ok (get_mut pid (\<lambda>p. p\<lparr>p_fd_table := fds\<rparr>) t)" by (intro table_ok_get_mut [OF ok]) simp_all
  show "held (get_mut pid (\<lambda>p. p\<lparr>p_fd_table := fds\<rparr>) t) = plus (others p t) (refs fds)"
    using held_get_mut [OF ok p, of "\<lambda>p. p\<lparr>p_fd_table := fds\<rparr>"] by simp
qed

lemma refs_same:
  assumes "m < length t" and "one x = one (t ! m)"
  shows "refs (t[m := x]) = refs t"
  using refs_update [OF assms(1), of x] unfolding assms(2) by (simp add: plus_def fun_eq_iff)

lemma kernel_ok_get:
  assumes "kernel_ok leak k" and "get (k_table k) pid = Some p"
  shows "length (p_fd_table p) = MAX_FDS" "counted (plus (plus leak (others p (k_table k))) (refs (p_fd_table p))) k"
    "table_ok (k_table k)" "\<not> k_locked k"
  using assms table_ok_process [OF _ assms(2)] held_split [OF get_procs [OF assms(2)]]
  by (simp_all add: kernel_ok_def process_ok_def plus_ac)

lemma kernel_ok_set_fds:
  assumes ok: "kernel_ok leak k" and p: "get (k_table k) pid = Some p" and len: "length fds = MAX_FDS"
    and k': "k_table k' = k_table k" "counted (plus (plus leak' (others p (k_table k))) (refs fds)) k'"
  shows "kernel_ok leak' ((set_fds pid fds k')\<lparr>k_locked := False\<rparr>)"
  using set_fds_ok [OF kernel_ok_get(3) [OF ok p] p len] k' by (simp add: kernel_ok_def set_fds_def plus_ac(2))

lemma on_descriptor_ok:
  assumes ok: "kernel_ok leak k" and op: "op_safe op" and run: "on_descriptor op pid fd buf k = (w, buf', r, k')"
  shows "r = Hang \<or> r = Panic \<or> kernel_ok leak k'"
proof (cases "get (k_table k) pid")
  case None
  then show ?thesis using ok run by (auto simp: on_descriptor_def kernel_ok_def)
next
  case (Some p)
  note p = kernel_ok_get [OF ok Some]
  show ?thesis
  proof (cases "fd < MAX_FDS \<and> p_fd_table p ! fd \<noteq> None")
    case False
    then have "fd_get (p_fd_table p) fd = Err BadFd" by (auto simp: fd_get_def not_less)
    then show ?thesis using ok run Some by (auto simp: on_descriptor_def kernel_ok_def)
  next
    case True
    then obtain d where d: "p_fd_table p ! fd = Some d" by blast
    then have g: "fd_get (p_fd_table p) fd = Ok d" using True by (simp add: fd_get_def)
    obtain r1 d' b1 k1 where o: "op d buf (k\<lparr>k_locked := True\<rparr>) = (r1, d', b1, k1)" by (metis prod_cases4)
    have "r1 = Hang \<or> r1 = Panic \<or> (counted (plus (plus leak (others p (k_table k))) (refs (p_fd_table p))) k1 \<and>
        k_table k1 = k_table k \<and> one (Some d') = one (Some d))"
      using op [unfolded op_safe_def, rule_format, of _ "k\<lparr>k_locked := True\<rparr>" d buf] p(2) o by fastforce
    moreover have "refs ((p_fd_table p)[fd := Some d']) = refs (p_fd_table p)" if "one (Some d') = one (Some d)"
      using refs_same [of fd "p_fd_table p" "Some d'"] True p(1) d that by simp
    moreover have "r = r1" "k' = (set_fds pid ((p_fd_table p)[fd := Some d']) k1)\<lparr>k_locked := False\<rparr>"
      using run Some g o p(4) by (auto simp: on_descriptor_def)
    ultimately show ?thesis
      using kernel_ok_set_fds [OF ok Some, of "(p_fd_table p)[fd := Some d']" k1 leak] p(1) by auto
  qed
qed

lemma keeps_mark:
  assumes ok: "kernel_ok leak k"
    and w: "\<And>p. pipe_wf p \<Longrightarrow> pipe_wf (f p) \<and> read_refcount (f p) = read_refcount p \<and> write_refcount (f p) = write_refcount p \<and>
      read_end_open (f p) = read_end_open p \<and> write_end_open (f p) = write_end_open p"
  shows "keeps leak (ignore_err (tryS (lookup_pipe i k :: (Pipe, FdError) outcome, k) (\<lambda>p k. (Ok (), set_pipe i (Some (f p)) k))))"
proof -
  let ?n = "plus leak (held (k_table k))"
  have n: "counted ?n k" using ok by (simp add: kernel_ok_def)
  then show ?thesis
  proof (cases rule: lookup_pipe_cases [where i = i])
    case 1
    then show ?thesis using ok by (simp add: keepsI)
  next
    case (2 p)
    have "pipe_counted ?n i (Some p)" using n 2(2,3) by (auto simp: counted_def dest: spec [of _ i])
    then have "pipe_counted ?n i (Some (f p))" using w [OF 2(5)] by (simp add: pipe_counted_def)
    then have "counted ?n (set_pipe i (Some (f p)) k)" by (rule counted_set [OF n 2(2)]) simp
    then show ?thesis using ok 2(1) by (simp add: keeps_def kernel_ok_def)
  qed
qed

lemma keeps_mark_waiting:
  assumes "kernel_ok leak k"
  shows "keeps leak (ignore_err (mark_reader_waiting i pid k))" and "keeps leak (ignore_err (mark_writer_waiting i pid k))"
  unfolding mark_reader_waiting_def mark_writer_waiting_def
  by (rule keeps_mark [OF assms], simp add: pipe_mark_reader_waiting_def pipe_mark_writer_waiting_def pipe_wf_def)+

section \<open>The handlers\<close>

text \<open>
  \<open>ends Q res\<close>: a result that comes back leaves a kernel with the invariant, under a leak that satisfies \<open>Q\<close>
  given whether the call succeeded.
\<close>

definition ends :: "(bool \<Rightarrow> counts \<Rightarrow> bool) \<Rightarrow> ('a, 'e) outcome \<times> kernel \<Rightarrow> bool" where
  "ends Q res \<longleftrightarrow> fst res = Panic \<or> fst res = Hang \<or> (\<exists>leak. Q (is_ok (fst res)) leak \<and> kernel_ok leak (snd res))"

lemma keeps_ends: "keeps leak res = ends (\<lambda>_ l. l = leak) res"
  by (simp add: keeps_def ends_def)

lemma endsI: "kernel_ok leak k \<Longrightarrow> Q (is_ok r) leak \<Longrightarrow> ends Q (r, k)"
  by (auto simp: ends_def)

lemma ends_stop [simp]: "ends Q (Panic, k)" "ends Q (Hang, k)"
  by (simp_all add: ends_def)

lemma ends_tryS:
  assumes "ends Q m" and "\<And>x k leak. m = (Ok x, k) \<Longrightarrow> Q True leak \<Longrightarrow> kernel_ok leak k \<Longrightarrow> ends Q (f x k)"
  shows "ends Q (tryS m f)"
  using assms by (cases "(m, f)" rule: tryS.cases) (auto simp: ends_def)

lemma keeps_finish:
  assumes "r = Hang \<or> r = Panic \<or> kernel_ok leak k" and "\<And>i. kernel_ok leak k \<Longrightarrow> keeps leak (mark i)"
  shows "keeps leak (if r = Err WouldBlock
    then tryS (case w of Some i \<Rightarrow> mark i | None \<Rightarrow> (Ok (), k)) (\<lambda>_ k. (Err (SysFd WouldBlock), k\<lparr>k_table := block_current (k_table k)\<rparr>))
    else tryS (map_err SysFd r, k) (\<lambda>n k. (Ok (word_of_nat n :: u64), k)))"
proof (cases "r = Err WouldBlock")
  case True
  then have ok: "kernel_ok leak k" using assms(1) by simp
  have "keeps leak (case w of Some i \<Rightarrow> mark i | None \<Rightarrow> (Ok (), k))"
    using assms(2) [OF ok] ok by (cases w) (simp_all add: keepsI)
  then show ?thesis using True by (simp, intro keeps_tryS) (auto intro: keepsI kernel_ok_block)
next
  case False
  then show ?thesis using assms(1) by (cases r) (auto intro: keepsI)
qed

lemma keeps_sys_write:
  assumes ok: "kernel_ok leak k"
  shows "keeps leak (sys_write tf k)"
proof -
  have "keeps leak (case on_descriptor (\<lambda>d buf k. case descriptor_write d buf k of (r, d, k) \<Rightarrow> (r, d, buf, k)) pid fd bytes k of
      (w, _, r, k) \<Rightarrow> if r = Err WouldBlock
        then tryS (case w of Some i \<Rightarrow> ignore_err (mark_writer_waiting i pid k) | None \<Rightarrow> (Ok (), k))
          (\<lambda>_ k. (Err (SysFd WouldBlock), k\<lparr>k_table := block_current (k_table k)\<rparr>))
        else tryS (map_err SysFd r, k) (\<lambda>n k. (Ok (word_of_nat n :: u64), k)))" for pid fd bytes
    by (split prod.split, clarify)+
       (rule keeps_finish [OF on_descriptor_ok [OF ok op_safe_write] keeps_mark_waiting(2)])
  then show ?thesis unfolding sys_write_def Let_def using ok by (auto intro!: keeps_pure keepsI)
qed

lemma keeps_sys_read:
  assumes ok: "kernel_ok leak k"
  shows "keeps leak (sys_read tf k)"
proof -
  have "keeps leak (case on_descriptor descriptor_read pid fd bytes k of
      (w, buf, r, k) \<Rightarrow> let k = set_umem (mem_write ptr buf (umem (k_machine k))) k in if r = Err WouldBlock
        then tryS (case w of Some i \<Rightarrow> ignore_err (mark_reader_waiting i pid k) | None \<Rightarrow> (Ok (), k))
          (\<lambda>_ k. (Err (SysFd WouldBlock), k\<lparr>k_table := block_current (k_table k)\<rparr>))
        else tryS (map_err SysFd r, k) (\<lambda>n k. (Ok (word_of_nat n :: u64), k)))" for pid fd bytes ptr
    unfolding Let_def
    by (split prod.split, clarify)+
       (rule keeps_finish [OF _ keeps_mark_waiting(1)],
        auto dest: on_descriptor_ok [OF ok op_safe_read])
  then show ?thesis unfolding sys_read_def Let_def using ok by (auto intro!: keeps_pure keepsI)
qed

lemma keeps_path_calls:
  assumes "kernel_ok leak k"
  shows "keeps leak (sys_file_write tf k)" and "keeps leak (sys_file_read tf k)" and "keeps leak (sys_path_op op tf k)"
  using assms unfolding sys_file_write_def sys_file_read_def sys_path_op_def Let_def
  by (auto intro!: keeps_pure keepsI split: prod.splits)

section \<open>Calls on the descriptor table of the current process\<close>

lemma with_current_ends:
  assumes ok: "kernel_ok leak k" and Q: "Q False leak"
    and f: "\<And>p. get (k_table k) (current_pid (k_table k)) = Some p \<Longrightarrow>
      (case f (p_fd_table p) (k\<lparr>k_locked := True\<rparr>) of (r, t', k') \<Rightarrow> r = Hang \<or> r = Panic \<or>
        (length t' = MAX_FDS \<and> k_table k' = k_table k \<and>
         (\<exists>leak'. Q (is_ok r) leak' \<and> counted (plus (plus leak' (others p (k_table k))) (refs t')) k')))"
  shows "ends Q (with_current_fd_table_mut f k)"
proof (cases "current_pid (k_table k) = INVALID_PID \<or> get (k_table k) (current_pid (k_table k)) = None")
  case True
  have "k\<lparr>k_locked := False\<rparr> = k" using ok by (simp add: kernel_ok_def)
  then show ?thesis
    using True ok Q by (auto simp: with_current_fd_table_mut_def with_lock_def kernel_ok_def ends_def Let_def split: option.splits)
next
  case False
  then obtain p where p: "get (k_table k) (current_pid (k_table k)) = Some p" by blast
  obtain r t' k' where run: "f (p_fd_table p) (k\<lparr>k_locked := True\<rparr>) = (r, t', k')" by (metis prod_cases3)
  have w: "with_current_fd_table_mut f k = (map_err SysFd r, (set_fds (current_pid (k_table k)) t' k')\<lparr>k_locked := False\<rparr>)"
    using False p run ok by (simp add: with_current_fd_table_mut_def with_lock_def kernel_ok_def Let_def)
  have "is_ok (map_err SysFd r) = is_ok r" by (cases r) simp_all
  with f [OF p] run kernel_ok_set_fds [OF ok p, of t' k'] show ?thesis unfolding w ends_def by auto
qed

lemma fd_alloc_cases:
  assumes "length t = MAX_FDS"
  obtains i where "fd_alloc t d = (Ok i, t[i := Some d])" "i < MAX_FDS" "t ! i = None"
    | "fd_alloc t d = (Err TooManyOpen, t)"
proof (cases "position (\<lambda>slot. slot = None) t")
  case None
  then show ?thesis using that(2) by (simp add: fd_alloc_def del: position_None)
next
  case (Some i)
  then show ?thesis using that(1) [of i] position_SomeD [OF Some] assms by (simp add: fd_alloc_def)
qed

lemma refs_alloc: "i < length t \<Longrightarrow> t ! i = None \<Longrightarrow> refs (t[i := Some d]) = plus (refs t) (one (Some d))"
  using refs_update [of i t "Some d"] by simp

lemma keeps_sys_close:
  assumes ok: "kernel_ok leak k"
  shows "keeps leak (sys_close tf k)"
proof -
  let ?m = "unat (a1 tf)"
  have "ends (\<lambda>_ l. l = leak) (with_current_fd_table_mut (fd_close ?m) k)"
  proof (rule with_current_ends [OF ok])
    fix p assume p: "get (k_table k) (current_pid (k_table k)) = Some p"
    note g = kernel_ok_get [OF ok p]
    from fd_close_counted [of "plus leak (others p (k_table k))" "p_fd_table p" "k\<lparr>k_locked := True\<rparr>" ?m] g(1,2)
    show "case fd_close ?m (p_fd_table p) (k\<lparr>k_locked := True\<rparr>) of (r, t', k') \<Rightarrow> r = Hang \<or> r = Panic \<or>
        (length t' = MAX_FDS \<and> k_table k' = k_table k \<and>
         (\<exists>leak'. leak' = leak \<and> counted (plus (plus leak' (others p (k_table k))) (refs t')) k'))"
      by (auto simp: steps_to_def same_rest_def)
  qed simp
  then show ?thesis unfolding sys_close_def by (intro keeps_tryS) (auto simp: keeps_ends intro: endsI)
qed

lemma keeps_sys_dup2:
  assumes ok: "kernel_ok leak k" and room: "room k"
  shows "keeps leak (sys_dup2 tf k)"
proof -
  let ?o = "unat (a1 tf)" and ?n = "unat (a2 tf)"
  have "ends (\<lambda>_ l. l = leak) (with_current_fd_table_mut (dup2 ?o ?n) k)"
  proof (rule with_current_ends [OF ok])
    fix p assume p: "get (k_table k) (current_pid (k_table k)) = Some p"
    note g = kernel_ok_get [OF ok p]
    let ?k = "k\<lparr>k_locked := True\<rparr>" and ?c = "plus (plus leak (others p (k_table k))) (refs (p_fd_table p))"
    have b: "?c i b + 1 < 2 ^ 64" for i b using room_bound [OF g(2) room, of i b] by simp
    show "case dup2 ?o ?n (p_fd_table p) ?k of (r, t', k') \<Rightarrow> r = Hang \<or> r = Panic \<or>
        (length t' = MAX_FDS \<and> k_table k' = k_table k \<and>
         (\<exists>leak'. leak' = leak \<and> counted (plus (plus leak' (others p (k_table k))) (refs t')) k'))"
    proof (cases "?o < MAX_FDS \<and> ?n < MAX_FDS \<and> p_fd_table p ! ?o \<noteq> None")
      case True
      then obtain fd where fd: "p_fd_table p ! ?o = Some fd" by blast
      from dup2_counted [of "plus leak (others p (k_table k))" "p_fd_table p" ?k ?o ?n fd] b g(1,2) True fd
      show ?thesis by (auto simp: steps_to_def same_rest_def)
    next
      case False
      then have "dup2 ?o ?n (p_fd_table p) ?k = (Err BadFd, p_fd_table p, ?k)"
        by (auto simp: dup2_def not_less split: option.splits)
      then show ?thesis using g(1,2) by simp
    qed
  qed simp
  then show ?thesis unfolding sys_dup2_def by (intro keeps_tryS) (auto simp: keeps_ends intro: endsI)
qed

lemma file_open_frame: "frame k (snd (file_open path mode k))"
proof -
  have t: "frame k (snd m) \<Longrightarrow> (\<And>x k1. frame k k1 \<Longrightarrow> frame k (snd (h x k1))) \<Longrightarrow> frame k (snd (tryS m h))"
    for m :: "('x, FdError) outcome \<times> kernel" and h :: "'x \<Rightarrow> kernel \<Rightarrow> ('y, FdError) outcome \<times> kernel"
    by (cases "(m, h)" rule: tryS.cases) auto
  show ?thesis unfolding file_open_def Let_def by (auto intro!: t split: prod.splits)
qed

lemma keeps_sys_open:
  assumes ok: "kernel_ok leak k"
  shows "keeps leak (sys_open tf k)"
  unfolding sys_open_def
proof (rule keeps_pure [OF ok], split prod.split, clarify)
  fix path r k1 assume "file_open path (mode_of_flags (a3 tf)) k = (r, k1)"
  then have ok1: "kernel_ok leak k1"
    using ok frame_kernel_ok [OF file_open_frame [of k path "mode_of_flags (a3 tf)"]] by simp
  have "ends (\<lambda>_ l. l = leak) (with_current_fd_table_mut (\<lambda>t k. case fd_alloc t (FdFile f) of (r, t) \<Rightarrow> (r, t, k)) k1)" for f
  proof (rule with_current_ends [OF ok1])
    fix p assume p: "get (k_table k1) (current_pid (k_table k1)) = Some p"
    note g = kernel_ok_get [OF ok1 p]
    show "case case fd_alloc (p_fd_table p) (FdFile f) of (r, t) \<Rightarrow> (r, t, k1\<lparr>k_locked := True\<rparr>) of
        (r, t', k') \<Rightarrow> r = Hang \<or> r = Panic \<or> (length t' = MAX_FDS \<and> k_table k' = k_table k1 \<and>
         (\<exists>leak'. leak' = leak \<and> counted (plus (plus leak' (others p (k_table k1))) (refs t')) k'))"
    proof (cases rule: fd_alloc_cases [OF g(1), of "FdFile f"])
      case (1 i)
      then have "refs ((p_fd_table p)[i := Some (FdFile f)]) = refs (p_fd_table p)"
        using g(1) refs_alloc [of i "p_fd_table p" "FdFile f"] by simp
      then show ?thesis using 1 g(1,2) by simp
    next
      case 2
      then show ?thesis using g(1,2) by simp
    qed
  qed simp
  then show "keeps leak (tryS (map_err SysFd r, k1) (\<lambda>file_fd k.
      tryS (with_current_fd_table_mut (\<lambda>t k. case fd_alloc t (FdFile file_fd) of (r, t) \<Rightarrow> (r, t, k)) k) (\<lambda>fd_num k.
        (Ok (word_of_nat fd_num), k))))"
    using ok1 by (intro keeps_pure keeps_tryS) (auto simp: keeps_ends intro: endsI)
qed

section \<open>Calls that can leak\<close>

text \<open>The leak never shrinks, and a call that succeeds leaks nothing.\<close>

definition grows :: "counts \<Rightarrow> bool \<Rightarrow> counts \<Rightarrow> bool" where
  "grows leak good leak' \<longleftrightarrow> (\<forall>i b. leak i b \<le> leak' i b) \<and> (good \<longrightarrow> leak' = leak)"

lemma grows_refl [simp]: "grows leak good leak"
  by (simp add: grows_def)

lemma grows_plus [simp]: "grows leak False (plus leak n)" "grows leak False (plus (plus leak n) n')"
  by (simp_all add: grows_def plus_def)

lemma keeps_grows: "keeps leak res \<Longrightarrow> ends (grows leak) res"
  by (auto simp: keeps_def ends_def)

lemma grows_ends: "ends (grows leak) res \<Longrightarrow> ends (\<lambda>_ l. \<forall>i b. leak i b \<le> l i b) res"
  unfolding ends_def grows_def by blast

lemma alloc_pipe_ends_ends:
  fixes i leak rest
  defines "R \<equiv> one (end_of i True)" and "W \<equiv> one (end_of i False)"
  assumes n: "counted (plus (plus (plus (plus leak R) W) rest) (refs t)) k" and len: "length t = MAX_FDS" and l: "k_locked k"
    and run: "alloc_pipe_ends i t k = (r, t', k')"
  shows "r = Hang \<or> r = Panic \<or> (length t' = MAX_FDS \<and> k_table k' = k_table k \<and>
    (\<exists>leak'. grows leak (is_ok r) leak' \<and> counted (plus (plus leak' rest) (refs t')) k'))"
proof -
  let ?r = "FdPipe \<lparr>pipe_id = i, is_read_end = True\<rparr>" and ?w = "FdPipe \<lparr>pipe_id = i, is_read_end = False\<rparr>"
  have one: "one (Some ?r) = R" "one (Some ?w) = W" by (simp_all add: R_def W_def end_of_def)
  show ?thesis
  proof (cases rule: fd_alloc_cases [OF len, of ?r])
    case 2
    then have "r = Err TooManyOpen" "t' = t" "k' = k" using run by (auto simp: alloc_pipe_ends_def)
    then show ?thesis using n len by (auto intro: exI [of _ "plus (plus leak R) W"])
  next
    case (1 a)
    let ?t = "t[a := Some ?r]"
    have lt: "length ?t = MAX_FDS" using len by simp
    have rt: "refs ?t = plus (refs t) R" using refs_alloc [of a t ?r] 1(2,3) len one by simp
    show ?thesis
    proof (cases rule: fd_alloc_cases [OF lt, of ?w])
      case w: (1 c)
      have "refs (?t[c := Some ?w]) = plus (plus (refs t) R) W" using refs_alloc [of c ?t ?w] w(2,3) lt one rt by simp
      then have "counted (plus (plus leak rest) (refs (?t[c := Some ?w]))) k" using n by (simp add: plus_ac)
      moreover have "r = Ok (a, c)" "t' = ?t[c := Some ?w]" "k' = k" using run 1(1) w(1) by (auto simp: alloc_pipe_ends_def)
      ultimately show ?thesis using len by (auto intro: exI [of _ leak])
    next
      case 2
      have c: "counted (plus (plus (plus leak W) rest) (refs ?t)) k" using n rt by (simp add: plus_ac)
      have run': "alloc_pipe_ends i t k = tryS (ignore_err (fd_close a ?t k)) (\<lambda>_ s. (Err TooManyOpen, s))"
        using 1(1) 2 by (simp add: alloc_pipe_ends_def)
      from fd_close_counted [OF c lt, of a] 1(2) show ?thesis
      proof (elim disjE exE conjE)
        assume "fst (fd_close a ?t k) = Hang"
        then show ?thesis using run run' by (cases "fd_close a ?t k") auto
      next
        fix k2 assume k2: "fd_close a ?t k = (if a < MAX_FDS \<and> ?t ! a \<noteq> None then Ok () else Err BadFd,
            if a < MAX_FDS then ?t[a := None] else ?t, k2)"
          "steps_to (plus (plus (plus leak W) rest) (refs (if a < MAX_FDS then ?t[a := None] else ?t))) k k2"
        then have "r = Err TooManyOpen" "t' = ?t[a := None]" "k' = k2" using run run' 1(2) len by auto
        then show ?thesis using k2(2) 1(2) len l by (auto simp: steps_to_def same_rest_def intro: exI [of _ "plus leak W"])
      qed
    qed
  qed
qed

lemma keeps_write_word: "kernel_ok leak k \<Longrightarrow> keeps leak (write_word addr v k)"
  by (simp add: write_word_def keepsI)

lemma ends_sys_pipe:
  assumes ok: "kernel_ok leak k"
  shows "ends (grows leak) (sys_pipe tf k)"
proof (cases "a1 tf = 0")
  case True
  then show ?thesis using ok by (auto simp: sys_pipe_def intro: endsI)
next
  case False
  obtain r k1 where c: "create_pipe k = (r, k1)" by fastforce
  show ?thesis
  proof (cases r)
    case (Ok i)
    let ?l = "plus (plus leak (one (end_of i True))) (one (end_of i False))"
    have "counted (plus leak (held (k_table k))) k" using ok by (simp add: kernel_ok_def)
    from create_pipe_counted [OF this] c Ok have "k_table k1 = k_table k" "k_locked k1 = k_locked k"
      "counted (plus (plus (plus leak (held (k_table k))) (one (end_of i True))) (one (end_of i False))) k1"
      by auto
    then have ok1: "kernel_ok ?l k1" using ok by (simp add: kernel_ok_def plus_ac)
    have e: "ends (grows leak) (with_current_fd_table_mut (alloc_pipe_ends i) k1)"
    proof (rule with_current_ends [OF ok1])
      fix p assume p: "get (k_table k1) (current_pid (k_table k1)) = Some p"
      note g = kernel_ok_get [OF ok1 p]
      show "case alloc_pipe_ends i (p_fd_table p) (k1\<lparr>k_locked := True\<rparr>) of (r, t', k') \<Rightarrow> r = Hang \<or> r = Panic \<or>
        (length t' = MAX_FDS \<and> k_table k' = k_table k1 \<and>
         (\<exists>leak'. grows leak (is_ok r) leak' \<and> counted (plus (plus leak' (others p (k_table k1))) (refs t')) k'))"
        using alloc_pipe_ends_ends [of leak i "others p (k_table k1)" "p_fd_table p" "k1\<lparr>k_locked := True\<rparr>"] g(1,2)
        by (split prod.split) fastforce
    qed simp
    have w: "ends (grows leak) (tryS (write_word x v k2) (\<lambda>_ k. tryS (write_word y u k) (\<lambda>_ k. (Ok 0 :: (u64, SysError) outcome, k))))"
      if "kernel_ok leak k2" for x v y u k2
      by (rule keeps_grows) (intro keeps_tryS keeps_write_word that; simp add: keeps_write_word keepsI)
    have run: "sys_pipe tf k = tryS (with_current_fd_table_mut (alloc_pipe_ends i) k1) (\<lambda>(read_fd_num, write_fd_num) k.
        tryS (write_word (unat (a1 tf)) read_fd_num k) (\<lambda>_ k. tryS (write_word (unat (a1 tf) + 8) write_fd_num k) (\<lambda>_ k. (Ok 0, k))))"
      using False c Ok by (simp add: sys_pipe_def Let_def)
    show ?thesis unfolding run by (rule ends_tryS [OF e]) (auto simp: grows_def intro: w)
  qed (use False c ok in \<open>auto simp: sys_pipe_def create_pipe_def intro: endsI split: option.splits\<close>)
qed

text \<open>Spawning.\<close>

lemma refs_with_standard [simp]: "refs with_standard = (\<lambda>_ _. 0)"
  by (auto simp: refs_def with_standard_def fd_new_def end_of_def count_list_0_iff fun_eq_iff numeral_eq_Suc)

lemma kernel_ok_unlock: "kernel_ok leak k \<Longrightarrow> k\<lparr>k_locked := False\<rparr> = k"
  by (simp add: kernel_ok_def)

lemma inherit_fds_ok:
  assumes ok: "kernel_ok leak k" and room: "room k"
  shows "\<exists>fds k'. inherit_fds k = (Ok fds, k') \<and> length fds = MAX_FDS \<and> kernel_ok (plus leak (refs fds)) k'"
proof (cases "current_pid (k_table k) = INVALID_PID \<or> get (k_table k) (current_pid (k_table k)) = None")
  case True
  then have "inherit_fds k = (Ok with_standard, k)"
    using ok kernel_ok_unlock [OF ok] by (auto simp: inherit_fds_def with_lock_def kernel_ok_def Let_def split: option.splits)
  moreover have "length with_standard = MAX_FDS" by (simp add: with_standard_def fd_new_def)
  ultimately show ?thesis using ok refs_with_standard plus_zero(1) by metis
next
  case False
  then obtain p where p: "get (k_table k) (current_pid (k_table k)) = Some p" by blast
  let ?n = "plus leak (held (k_table k))" and ?t = "p_fd_table p" and ?k = "k\<lparr>k_locked := True\<rparr>"
  have n: "counted ?n ?k" using ok by (simp add: kernel_ok_def)
  have le: "refs ?t i b \<le> ?n i b" for i b
    using held_split [OF get_procs [OF p]] by (simp add: plus_def)
  have small: "?n i b < 2 ^ 63" for i b using room_bound [of ?n k i b] ok room by (simp add: kernel_ok_def)
  have "?n i b + refs ?t i b + 1 < 2 ^ 64" for i b using small [of i b] le [of i b] by simp
  moreover have "0 < refs ?t i b \<Longrightarrow> 0 < ?n i b" for i b using le [of i b] by linarith
  ultimately obtain k1 where k1: "clone_table ?t ?k = (Ok ?t, k1)" "steps_to (plus ?n (refs ?t)) ?k k1"
    using clone_table_counted [of ?n ?t ?k] n by blast
  have "inherit_fds k = (Ok ?t, k1\<lparr>k_locked := False\<rparr>)"
    using False p k1(1) ok by (simp add: inherit_fds_def with_lock_def kernel_ok_def Let_def)
  moreover have "kernel_ok (plus leak (refs ?t)) (k1\<lparr>k_locked := False\<rparr>)"
    using k1(2) ok by (auto simp: kernel_ok_def steps_to_def same_rest_def plus_ac)
  ultimately show ?thesis using kernel_ok_get(1) [OF ok p] by blast
qed

lemma held_insert:
  assumes "procs t' = insert p (procs t)" and "p \<notin> procs t"
  shows "held t' = plus (held t) (refs (p_fd_table p))"
  using assms by (simp add: held_def plus_def fun_eq_iff)

lemma ends_spawn:
  assumes ok: "kernel_ok (plus leak (refs fds)) k" and len: "length fds = MAX_FDS" "length memory = USER_WINDOW_SIZE"
  shows "ends (grows leak) (create_child entry sp path args fds memory argc argv k)"
proof -
  let ?t = "k_table k"
  obtain r t' where s: "spawn entry sp path args fds memory argc argv ?t = (r, t')" by fastforce
  have t: "table_ok ?t" using ok by (simp add: kernel_ok_def)
  have c: "case (r, t') of
      (Ok pid, t') \<Rightarrow> pid = next_pid ?t \<and> get ?t pid = None \<and> table_ok t' \<and> current_pid t' = current_pid ?t \<and>
        procs t' = insert (process_new pid (current_pid ?t) entry sp path args fds memory argc argv) (procs ?t) \<and>
        (\<forall>q. get t' q = (if q = pid then Some (process_new pid (current_pid ?t) entry sp path args fds memory argc argv)
                         else get ?t q))
    | (Err e, t') \<Rightarrow> e = TooManyProcesses \<and> t' = ?t \<and> card (procs ?t) = MAX_PROCESSES
    | (Panic, t') \<Rightarrow> next_pid ?t = 2 ^ 64 - 1 | (Hang, t') \<Rightarrow> False"
    using spawn_cases [OF t len(1) disjI2 [OF len(2)], of entry sp path args argc argv] unfolding s .
  obtain tx where run: "create_child entry sp path args fds memory argc argv k = (map_err SysProc r, k\<lparr>k_tx := tx, k_table := t', k_locked := False\<rparr>)"
    using s ok by (simp add: create_child_def uart_write_bytes_def with_lock_def kernel_ok_def)
  show ?thesis
  proof (cases r)
    case (Ok pid)
    let ?P = "process_new pid (current_pid ?t) entry sp path args fds memory argc argv"
    have "?P \<notin> procs ?t"
      using c Ok get_iff [OF t, of pid ?P] by (auto simp: process_new_def)
    then have "held t' = plus (held ?t) (refs fds)"
      using held_insert [of t' ?P ?t] c Ok by (simp add: process_new_def)
    then have "kernel_ok leak (k\<lparr>k_tx := tx, k_table := t', k_locked := False\<rparr>)"
      using ok c Ok by (simp add: kernel_ok_def plus_ac)
    then show ?thesis unfolding run using Ok by (auto intro: endsI)
  next
    case (Err e)
    then show ?thesis unfolding run
      using ok c kernel_ok_unlock [OF ok] by (auto intro!: endsI [of "plus leak (refs fds)"] simp: kernel_ok_def)
  qed (use c in \<open>auto simp: run\<close>)
qed

lemma ends_on_umem:
  assumes "kernel_ok leak' k" and "grows leak False leak'"
    and "\<And>x k. kernel_ok leak' k \<Longrightarrow> ends (grows leak) (f x k)"
  shows "ends (grows leak) (tryS (on_umem g k) f)"
proof -
  obtain r m where g: "g (umem (k_machine k)) = (r, m)" by fastforce
  then show ?thesis
    using assms by (cases r) (auto simp: on_umem_def intro: endsI)
qed

lemma ends_spawn_stack:
  assumes "kernel_ok leak' k" and "grows leak False leak'"
    and "\<And>x k. kernel_ok leak' k \<Longrightarrow> ends (grows leak) (f x k)"
  shows "ends (grows leak) (tryS (spawn_stack args k) f)"
proof -
  obtain r m where g: "build_user_stack args (umem (k_machine k)) = (r, m)" by fastforce
  then show ?thesis
    using assms by (cases r) (auto simp: spawn_stack_def k_build_user_stack_def Let_def intro: endsI)
qed

lemma ends_pure:
  assumes "kernel_ok leak k" and "\<And>x. r = Ok x \<Longrightarrow> ends (grows leak) (f x k)"
  shows "ends (grows leak) (tryS (r, k) f)"
  using assms by (cases r) (auto intro: endsI)

lemma ends_tryS_leak:
  assumes "ends (grows leak) m" and "\<And>x k. kernel_ok leak k \<Longrightarrow> ends (grows leak) (f x k)"
  shows "ends (grows leak) (tryS m f)"
  by (rule ends_tryS [OF assms(1)]) (auto simp: grows_def intro: assms(2))

lemma ends_sys_spawn:
  assumes ok: "kernel_ok leak k" and room: "room k"
  shows "ends (grows leak) (sys_spawn alloc_ok tf k)"
  unfolding sys_spawn_def Let_def
proof (rule ends_pure [OF ok], rule ends_pure, simp add: ok, split prod.split, clarify, rule ends_pure)
  fix path args r g program
  let ?k = "(report (spawn_note (ascii ''path='' @ path @ ascii '', argc='' @ show_nat (unat (a4 tf)))) k)\<lparr>k_fs := g\<rparr>"
  show "kernel_ok leak ?k" using ok by simp
  moreover have "room ?k" using room by (simp add: room_def)
  ultimately obtain fds k1 where k1: "inherit_fds ?k = (Ok fds, k1)" "length fds = MAX_FDS"
    "kernel_ok (plus leak (refs fds)) k1" using inherit_fds_ok by blast
  let ?done = "\<lambda>child_pid k. (Ok (word_of_nat child_pid) :: (u64, SysError) outcome,
    reports [spawn_note (ascii ''created child_pid='' @ show_nat child_pid), spawn_note (ascii ''returning to parent'')] k)"
  show "ends (grows leak) (tryS (inherit_fds ?k) (\<lambda>fd_table k.
      tryS (on_umem (load_into_user_window program) k) (\<lambda>_ k'.
        tryS (spawn_stack args k') (\<lambda>(sp, built_argc, built_argv_ptr) k''.
          tryS (create_child (word_of_nat (lp_entry program)) (word_of_nat sp) path args fd_table
                    (snapshot_user_window (umem (k_machine k''))) built_argc built_argv_ptr
              (set_umem (restore_user_window (snapshot_user_window (umem (k_machine k))) (umem (k_machine k''))) k'')) ?done))))"
    unfolding k1(1) tryS.simps
  proof (rule ends_on_umem [OF k1(3) grows_plus(1)], rule ends_spawn_stack [OF _ grows_plus(1)], assumption)
    fix x k2 assume "kernel_ok (plus leak (refs fds)) k2"
    then show "ends (grows leak) ((case x of (sp, built_argc, built_argv_ptr) \<Rightarrow> \<lambda>k''.
        tryS (create_child (word_of_nat (lp_entry program)) (word_of_nat sp) path args fds
                    (snapshot_user_window (umem (k_machine k''))) built_argc built_argv_ptr
              (set_umem (restore_user_window (snapshot_user_window (umem (k_machine k1))) (umem (k_machine k''))) k'')) ?done) k2)"
      by (cases x) (auto intro!: ends_tryS_leak [OF ends_spawn [OF _ k1(2)]] intro: endsI)
  qed
qed

text \<open>Waiting, and exiting.\<close>

lemma held_remove: "procs t' = procs t - {c} \<Longrightarrow> held t' = others c t"
  by (simp add: held_def others_def fun_eq_iff)

lemma ends_sys_wait:
  assumes ok: "kernel_ok leak k"
  shows "ends (\<lambda>_ l. \<forall>i b. leak i b \<le> l i b) (sys_wait tf k)"
proof -
  let ?t = "k_table k" and ?pid = "current_pid (k_table k)"
  have t: "table_ok ?t" using ok by (simp add: kernel_ok_def)
  obtain r t' where w: "wait ?pid ?t = (r, t')" by fastforce
  note c = wait_cases [OF t, of ?pid, unfolded w]
  show ?thesis
  proof (cases "?pid = INVALID_PID \<or> \<not> has_children ?pid ?t \<or> r = None")
    case True
    then have "sys_wait tf k = (Err Child, k) \<or> sys_wait tf k = (Err (SysFd WouldBlock), k\<lparr>k_table := block_current ?t\<rparr>)"
      using ok w kernel_ok_unlock [OF ok] by (auto simp: sys_wait_def with_lock_def kernel_ok_def Let_def)
    then show ?thesis using ok kernel_ok_block [OF ok] by (auto intro: endsI)
  next
    case False
    then obtain pid code where r: "r = Some (pid, code)" by auto
    with c obtain ch where ch: "ch \<in> procs ?t" "table_ok t'" "procs t' = procs ?t - {ch}" by auto
    let ?l = "plus leak (refs (p_fd_table ch))" and ?k = "k\<lparr>k_table := t'\<rparr>"
    have ok': "kernel_ok ?l ?k"
      using ok ch(2) held_remove [OF ch(3)] held_split [OF ch(1)] by (simp add: kernel_ok_def plus_ac)
    have f: "ends (\<lambda>_ l. \<forall>i b. leak i b \<le> l i b) (Ok x :: (u64, SysError) outcome, k2)" if "frame (?k\<lparr>k_locked := False\<rparr>) k2" for x k2
      using frame_kernel_ok [OF that, of ?l] ok' by (intro endsI [of ?l]) (simp_all add: kernel_ok_def plus_def)
    have "\<not> k_locked k" using ok by (simp add: kernel_ok_def)
    with False r w show ?thesis
      by (auto intro!: f simp: sys_wait_def with_lock_def Let_def write_word_def set_umem_def frame_def)
  qed
qed

lemma exit_process_ok:
  assumes ok: "kernel_ok leak k" and p: "get (k_table k) pid = Some p"
    and run: "exit_process pid code (k\<lparr>k_locked := True\<rparr>) = (r, k1)"
  shows "if stranding (plus leak (others p (k_table k))) (p_fd_table p) k then r = Hang
    else r = Ok () \<and> k_locked k1 \<and> kernel_ok leak (k1\<lparr>k_locked := False\<rparr>) \<and> k_tx k1 = k_tx k \<and> k_fs k1 = k_fs k \<and>
      k_table k1 = get_mut pid (\<lambda>p. process_exit code (p\<lparr>p_fd_table := fd_new\<rparr>)) (k_table k)"
proof -
  note g = kernel_ok_get [OF ok p]
  let ?k = "k\<lparr>k_locked := True\<rparr>" and ?n = "plus leak (others p (k_table k))"
  let ?f = "\<lambda>p. process_exit code (p\<lparr>p_fd_table := fd_new\<rparr>)"
  have "counted (plus ?n (refs (p_fd_table p))) ?k" using g(2) by simp
  note spins = close_all_spins [OF this _ g(1)]
  show ?thesis
  proof (cases "stranding ?n (p_fd_table p) k")
    case True
    then show ?thesis using spins run p by (cases "close_all (p_fd_table p) ?k") (auto simp: exit_process_def)
  next
    case False
    then obtain k2 where k2: "close_all (p_fd_table p) ?k = (Ok (), fd_new, k2)" "steps_to ?n ?k k2" using spins by auto
    then have same: "k_table k2 = k_table k" "k_locked k2" "counted ?n k2" "k_tx k2 = k_tx k" "k_fs k2 = k_fs k"
      by (auto simp: steps_to_def same_rest_def)
    have k1: "r = Ok ()" "k1 = k2\<lparr>k_table := get_mut pid ?f (k_table k)\<rparr>"
      using run p k2(1) same(1) by (auto simp: exit_process_def)
    have "process_ok (k_table k) (?f q)" if "get (k_table k) pid = Some q" for q
      using table_ok_process [OF g(3) that] by (simp add: process_ok_def process_exit_def fd_new_def)
    then have "table_ok (get_mut pid ?f (k_table k))"
      by (intro table_ok_get_mut [OF g(3)]) (simp_all add: process_exit_def)
    moreover have "held (get_mut pid ?f (k_table k)) = others p (k_table k)"
      using held_get_mut [OF g(3) p, of ?f] by (simp add: process_exit_def)
    ultimately have "kernel_ok leak (k1\<lparr>k_locked := False\<rparr>)" using same(3) k1(2) by (simp add: kernel_ok_def)
    then show ?thesis using False k1 same by simp
  qed
qed

lemma sys_exit_run:
  assumes ok: "kernel_ok leak k" and p: "get (k_table k) (current_pid (k_table k)) = Some p"
  shows "if p_parent_pid p \<noteq> INVALID_PID \<or> stranding (plus leak (others p (k_table k))) (p_fd_table p) k
    then fst (sys_exit tf k) = Hang
    else \<exists>k1. sys_exit tf k = (Ok (a1 tf), k1) \<and> kernel_ok leak k1 \<and> k_fs k1 = k_fs k \<and>
      k_tx k1 = k_tx k @ [(ByKernel, console (exit_note (current_pid (k_table k)) (a1 tf)))] \<and>
      k_table k1 = get_mut (current_pid (k_table k)) (\<lambda>p. process_exit (a1 tf) (p\<lparr>p_fd_table := fd_new\<rparr>)) (k_table k)"
proof -
  let ?pid = "current_pid (k_table k)" and ?f = "\<lambda>p. process_exit (a1 tf) (p\<lparr>p_fd_table := fd_new\<rparr>)"
  have pid: "?pid \<noteq> INVALID_PID" using pid_valid [OF kernel_ok_get(3) [OF ok p] get_procs [OF p]] get_pid [OF p] by simp
  obtain r k1 where e: "exit_process ?pid (a1 tf) (k\<lparr>k_locked := True\<rparr>) = (r, k1)" by fastforce
  note simps = sys_exit_def with_lock_def Let_def kernel_ok_get(4) [OF ok p] pid e
  show ?thesis
  proof (cases "stranding (plus leak (others p (k_table k))) (p_fd_table p) k")
    case True
    then have "r = Hang" using exit_process_ok [OF ok p e] by simp
    with True show ?thesis by (simp add: simps)
  next
    case False
    then have k1: "r = Ok ()" "k_locked k1" "kernel_ok leak (k1\<lparr>k_locked := False\<rparr>)" "k_tx k1 = k_tx k" "k_fs k1 = k_fs k"
      "k_table k1 = get_mut ?pid ?f (k_table k)" using exit_process_ok [OF ok p e] by simp_all
    have g: "get (k_table k1) ?pid = Some (?f p)" using p k1(6) by (simp add: pt.lookup_modify process_exit_def)
    have pp: "p_parent_pid (?f p) = p_parent_pid p" by (simp add: process_exit_def)
    show ?thesis using False k1 g by (cases "p_parent_pid p = INVALID_PID") (simp_all add: simps k_unblock_def pp)
  qed
qed

lemma keeps_sys_exit:
  assumes ok: "kernel_ok leak k"
  shows "keeps leak (sys_exit tf k)"
proof (cases "get (k_table k) (current_pid (k_table k))")
  case None
  then have "sys_exit tf k = (Ok (a1 tf), report (exit_note (current_pid (k_table k)) (a1 tf)) k)"
    using ok kernel_ok_unlock [OF ok] by (auto simp: sys_exit_def with_lock_def kernel_ok_def Let_def exit_process_def)
  then show ?thesis using ok by (simp add: keepsI)
next
  case (Some p)
  from sys_exit_run [OF ok this, of tf] show ?thesis by (auto simp: keeps_def split: if_splits)
qed

lemma keeps_handler:
  assumes ok: "kernel_ok leak k" and room: "room k" and n: "a0 tf \<notin> {SYS_PIPE, SYS_SPAWN, SYS_WAIT}"
  shows "keeps leak (handler alloc_ok tf k)"
  using n unfolding handler_def Let_def sys_file_create_def sys_file_delete_def sys_dir_create_def sys_dir_delete_def
  by (simp add: keeps_sys_write [OF ok] keeps_sys_exit [OF ok] keeps_path_calls [OF ok] keeps_sys_open [OF ok]
      keeps_sys_close [OF ok] keeps_sys_read [OF ok] keeps_sys_dup2 [OF ok room] keepsI [OF ok])

lemma handler_leaky:
  "a0 tf = SYS_PIPE \<Longrightarrow> handler alloc_ok tf k = sys_pipe tf k"
  "a0 tf = SYS_SPAWN \<Longrightarrow> handler alloc_ok tf k = sys_spawn alloc_ok tf k"
  "a0 tf = SYS_WAIT \<Longrightarrow> handler alloc_ok tf k = sys_wait tf k"
  by (simp_all add: handler_def sys_numbers)

section \<open>Properties\<close>

text \<open>
  C11. The invariant of the kernel. Let every reference count be what the descriptors of all processes and a
  leak account for, the process table be well formed and its lock free. Then whatever system call a
  process makes, with whatever arguments, if the kernel returns to user mode at all, the same holds
  again, also after the context switch. The leak never shrinks, and only the calls that create
  pipes, spawn or reap processes can make it grow.
\<close>

theorem syscalls_keep_invariant:
  assumes "kernel_ok leak k" and "room k" and "handle_ecall alloc_ok tf k = (Ok tf', k')"
  shows "\<exists>leak'. kernel_ok leak' k' \<and> (\<forall>i b. leak i b \<le> leak' i b) \<and>
    (a0 tf \<notin> {SYS_PIPE, SYS_SPAWN, SYS_WAIT} \<longrightarrow> leak' = leak)"
proof -
  let ?Q = "\<lambda>_ l. (\<forall>i b. leak i b \<le> l i b) \<and> (a0 tf \<notin> {SYS_PIPE, SYS_SPAWN, SYS_WAIT} \<longrightarrow> l = leak)"
  let ?k = "k\<lparr>k_machine := (k_machine k)\<lparr>sepc := sepc (k_machine k) + 4\<rparr>\<rparr>"
  have ok: "kernel_ok leak ?k" and room: "room ?k" using assms(1,2) by (simp_all add: room_def)
  have weaken: "ends ?Q res" if "ends Q res" "\<And>g l. Q g l \<Longrightarrow> ?Q g l" for Q and res :: "(u64, SysError) outcome \<times> kernel"
    using that unfolding ends_def by blast
  have "ends ?Q (handler alloc_ok tf ?k)"
  proof (cases "a0 tf \<in> {SYS_PIPE, SYS_SPAWN, SYS_WAIT}")
    case True
    then have "ends (\<lambda>_ l. \<forall>i b. leak i b \<le> l i b) (handler alloc_ok tf ?k)"
      using grows_ends [OF ends_sys_pipe [OF ok, of tf]] grows_ends [OF ends_sys_spawn [OF ok room, of alloc_ok tf]]
        ends_sys_wait [OF ok, of tf] handler_leaky [of tf alloc_ok ?k]
      by (elim insertE emptyE) (simp_all only:)
    then show ?thesis by (rule weaken) (use True in blast)
  next
    case False
    from keeps_handler [OF ok room this] show ?thesis unfolding keeps_ends by (rule weaken) simp
  qed
  moreover obtain r k1 where h: "handler alloc_ok tf ?k = (r, k1)" by fastforce
  moreover obtain v where v: "code_of r = Ok v" using assms(3) h by (cases r) (auto simp: handle_ecall_def dispatch_def)
  then have "r \<noteq> Panic" "r \<noteq> Hang" by auto
  ultimately obtain leak' where l: "?Q True leak'" "kernel_ok leak' k1" by (auto simp: ends_def)
  obtain sw tf2 m t where ms: "maybe_switch (tf\<lparr>a0 := v\<rparr>) (k_machine k1) (k_table k1) = (sw, tf2, m, t)" by (metis prod_cases4)
  have "k_table k' = t \<and> k_locked k' = k_locked k1 \<and> k_pipes k' = k_pipes k1"
    using assms(3) h v ms by (auto simp: handle_ecall_def dispatch_def Let_def split: if_splits)
  then have "kernel_ok leak' k'"
    using l(2) maybe_switch_ok(1) [OF _ ms] held_switch [OF _ ms] by (simp add: kernel_ok_def counted_def)
  with l(1) show ?thesis by blast
qed

text \<open>A kernel with two processes and no pipes.\<close>

lemma handle_ecall_returns:
  assumes "\<exists>k1. handler alloc_ok tf (k\<lparr>k_machine := (k_machine k)\<lparr>sepc := sepc (k_machine k) + 4\<rparr>\<rparr>) = (r, k1)"
    and "r \<noteq> Panic" and "r \<noteq> Hang"
  shows "\<exists>tf' k'. handle_ecall alloc_ok tf k = (Ok tf', k')"
  using assms by (cases r) (auto simp: handle_ecall_def dispatch_def Let_def split: prod.split)

definition demo_running :: kernel where
  "demo_running = demo_kernel\<lparr>k_table := demo_table, k_locked := False, k_pipes := replicate 8 None, k_fs := Some blank_fs\<rparr>"

lemma demo_running_ok: "kernel_ok (\<lambda>_ _. 0) demo_running" "room demo_running"
proof -
  have "refs (p_fd_table p) = (\<lambda>_ _. 0)" if "p \<in> procs demo_table" for p
    using that unfolding procs_def demo_processes by (auto simp: process_new_def)
  then have "held demo_table = (\<lambda>_ _. 0)" by (simp add: held_def fun_eq_iff)
  then show "kernel_ok (\<lambda>_ _. 0) demo_running"
    by (simp add: kernel_ok_def demo_running_def demo_table_ok counted_def pipe_counted_def)
  show "room demo_running" by (auto simp: room_def demo_running_def)
qed

theorem syscalls_keep_invariant_witness:
  "\<exists>tf' k' leak'. handle_ecall (\<lambda>_. True) (zero_frame\<lparr>a0 := SYS_CLOSE, a1 := 1\<rparr>) demo_running = (Ok tf', k') \<and>
     kernel_ok leak' k'"
proof -
  let ?tf = "zero_frame\<lparr>a0 := SYS_CLOSE, a1 := 1\<rparr>"
  let ?k = "demo_running\<lparr>k_machine := (k_machine demo_running)\<lparr>sepc := sepc (k_machine demo_running) + 4\<rparr>\<rparr>"
  have k: "get (k_table ?k) (current_pid (k_table ?k)) = Some (process_new 1 INVALID_PID 100 200 [] [] with_standard [] 0 0)"
    "current_pid (k_table ?k) = 1" "\<not> k_locked ?k"
    using demo_get demo_table_ok(3) by (simp_all add: demo_running_def)
  have "fst (sys_close ?tf ?k) = Ok 0"
    using k by (simp add: sys_close_def with_current_fd_table_mut_def with_lock_def Let_def process_new_def fd_close_def
        release_def with_standard_def fd_new_def INVALID_PID_def)
  then have "\<exists>k1. handler (\<lambda>_. True) ?tf ?k = (Ok 0, k1)"
    by (cases "sys_close ?tf ?k") (simp add: handler_def sys_numbers)
  from handle_ecall_returns [OF this] obtain tf' k' where "handle_ecall (\<lambda>_. True) ?tf demo_running = (Ok tf', k')"
    by auto
  with syscalls_keep_invariant [OF demo_running_ok this] show ?thesis by blast
qed

end
