(* ===== verification/SyscallProps.thy ===== *)
theory SyscallProps
  imports KernelInv
begin

text \<open>
  What the system calls do, seen from a process: exiting, writing to and reading from pipes and
  files, spawning, and the value that comes back in \<^verbatim>\<open>a0\<close>.
\<close>

section \<open>Pipes\<close>

text \<open>The calling process has descriptor \<open>fd\<close>, and it is one end of a pipe.\<close>

definition has_pipe :: "kernel \<Rightarrow> nat \<Rightarrow> nat \<Rightarrow> bool \<Rightarrow> Pipe \<Rightarrow> bool" where
  "has_pipe k fd i is_read q \<longleftrightarrow> fd < MAX_FDS \<and> i < MAX_PIPES \<and> k_pipes k ! i = Some q \<and>
     (\<exists>p. get (k_table k) (current_pid (k_table k)) = Some p \<and>
        p_fd_table p ! fd = Some (FdPipe \<lparr>pipe_id = i, is_read_end = is_read\<rparr>))"

text \<open>The state of a process.\<close>

definition state_of :: "kernel \<Rightarrow> Pid \<Rightarrow> ProcessState option" where
  "state_of k pid = map_option p_state (get (k_table k) pid)"

lemma on_descriptor_pipe:
  assumes ok: "kernel_ok leak k" and h: "has_pipe k fd i b q"
    and run: "operation (FdPipe \<lparr>pipe_id = i, is_read_end = b\<rparr>) buf (k\<lparr>k_locked := True\<rparr>) =
      (r, FdPipe \<lparr>pipe_id = i, is_read_end = b\<rparr>, buf', k1)"
    and same: "k_table k1 = k_table k"
  shows "\<exists>t. on_descriptor operation (current_pid (k_table k)) fd buf k = (Some i, buf', r, k1\<lparr>k_table := t, k_locked := False\<rparr>) \<and>
    current_pid t = current_pid (k_table k) \<and> (\<forall>pid. get t pid = get (k_table k) pid)"
proof -
  let ?pid = "current_pid (k_table k)" and ?d = "FdPipe \<lparr>pipe_id = i, is_read_end = b\<rparr>"
  from h obtain p where p: "get (k_table k) ?pid = Some p" "p_fd_table p ! fd = Some ?d" "fd < MAX_FDS"
    by (auto simp: has_pipe_def)
  have upd: "(p_fd_table p)[fd := Some ?d] = p_fd_table p" by (metis list_update_id p(2))
  have "get (get_mut ?pid (\<lambda>q. q\<lparr>p_fd_table := p_fd_table p\<rparr>) (k_table k)) pid = get (k_table k) pid" for pid
    using p(1) by (simp add: pt.lookup_modify)
  moreover have "on_descriptor operation ?pid fd buf k =
      (Some i, buf', r, (set_fds ?pid (p_fd_table p) k1)\<lparr>k_locked := False\<rparr>)"
    using p run upd kernel_ok_get(4) [OF ok p(1)] by (simp add: on_descriptor_def fd_get_def pipe_of_def)
  ultimately show ?thesis
    using same by (intro exI [of _ "get_mut ?pid (\<lambda>q. q\<lparr>p_fd_table := p_fd_table p\<rparr>) (k_table k)"]) (simp add: set_fds_def)
qed

lemma has_pipe_wf:
  assumes "kernel_ok leak k" and "has_pipe k fd i b q"
  shows "pipe_wf q" "i < MAX_PIPES" "k_pipes k ! i = Some q" "\<not> k_locked k" "length (k_pipes k) = MAX_PIPES"
    "lookup_pipe i (k\<lparr>k_locked := True\<rparr>) = Ok q"
  using assms by (auto simp: kernel_ok_def counted_def has_pipe_def pipe_counted_def lookup_pipe_def dest: spec [of _ i])

lemma pt_write_locked:
  assumes ok: "kernel_ok leak k" and h: "has_pipe k fd i b q" and data: "data \<noteq> []"
  shows "\<not> read_end_open q \<Longrightarrow> pt_write i data (k\<lparr>k_locked := True\<rparr>) = (Err BrokenPipe, (set_pipe i (Some q) k)\<lparr>k_locked := True\<rparr>)"
    and "read_end_open q \<Longrightarrow> length (pipe_contents q) = 4095 \<Longrightarrow>
      pt_write i data (k\<lparr>k_locked := True\<rparr>) = (Err WouldBlock, (set_pipe i (Some q) k)\<lparr>k_locked := True\<rparr>)"
    and "read_end_open q \<Longrightarrow> length (pipe_contents q) \<noteq> 4095 \<Longrightarrow> \<exists>q'. pipe_wf q' \<and> same_ends q q' \<and>
      pipe_contents q' = pipe_contents q @ take (4095 - length (pipe_contents q)) data \<and>
      pt_write i data (k\<lparr>k_locked := True\<rparr>) =
        (if waiting_readers q = [] then Ok (min (length data) (4095 - length (pipe_contents q))) else Hang,
         (set_pipe i (Some (q'\<lparr>waiting_readers := []\<rparr>)) k)\<lparr>k_locked := True\<rparr>)"
proof -
  note w = has_pipe_wf [OF ok h]
  have comm: "set_pipe i x (k\<lparr>k_locked := True\<rparr>) = (set_pipe i x k)\<lparr>k_locked := True\<rparr>" for x by (simp add: set_pipe_def)
  show "\<not> read_end_open q \<Longrightarrow> pt_write i data (k\<lparr>k_locked := True\<rparr>) = (Err BrokenPipe, (set_pipe i (Some q) k)\<lparr>k_locked := True\<rparr>)"
    using pipe_write_refused(1) [OF w(1), of data] w(6) by (simp add: pt_write_def comm)
  show "read_end_open q \<Longrightarrow> length (pipe_contents q) = 4095 \<Longrightarrow>
      pt_write i data (k\<lparr>k_locked := True\<rparr>) = (Err WouldBlock, (set_pipe i (Some q) k)\<lparr>k_locked := True\<rparr>)"
    using pipe_write_refused(2) [OF w(1), of data] w(6) by (simp add: pt_write_def comm)
  assume op: "read_end_open q" and ne: "length (pipe_contents q) \<noteq> 4095"
  have room: "length (pipe_contents q) < 4095" using ne available_less [OF w(1)] by simp
  from pipe_write_spec [OF w(1) room op, of data] obtain q' where q':
    "pipe_write q data = (Ok (min (length data) (4095 - length (pipe_contents q))), q')" "pipe_wf q'"
    "pipe_contents q' = pipe_contents q @ take (4095 - length (pipe_contents q)) data" "same_ends q q'" by blast
  have pos: "0 < min (length data) (4095 - length (pipe_contents q))" using data room by simp
  have "pt_write i data (k\<lparr>k_locked := True\<rparr>) =
      tryS (wake (waiting_readers q) ((set_pipe i (Some (q'\<lparr>waiting_readers := []\<rparr>)) k)\<lparr>k_locked := True\<rparr>))
        (\<lambda>_ k. (Ok (min (length data) (4095 - length (pipe_contents q))), k))"
    using q'(1,4) w(6) pos by (simp add: pt_write_def wake_readers_def comm same_ends_def del: length_pipe_contents)
  then show "\<exists>q'. pipe_wf q' \<and> same_ends q q' \<and>
      pipe_contents q' = pipe_contents q @ take (4095 - length (pipe_contents q)) data \<and>
      pt_write i data (k\<lparr>k_locked := True\<rparr>) =
        (if waiting_readers q = [] then Ok (min (length data) (4095 - length (pipe_contents q))) else Hang,
         (set_pipe i (Some (q'\<lparr>waiting_readers := []\<rparr>)) k)\<lparr>k_locked := True\<rparr>)"
    using q'(2-4) by (intro exI [of _ q']) (simp add: wake_locked)
qed

lemma sys_write_pipe:
  assumes ok: "kernel_ok leak k" and h: "has_pipe k (unat (a1 tf)) i False q"
    and args: "a2 tf \<noteq> 0" "a3 tf \<noteq> 0" "unat (a3 tf) < 2 ^ 63"
    and run: "pt_write i (mem_read (unat (a2 tf)) (unat (a3 tf)) (umem (k_machine k))) (k\<lparr>k_locked := True\<rparr>) = (r, k1\<lparr>k_locked := True\<rparr>)"
    and same: "k_table k1 = k_table k" "k_locked k1 = False"
  shows "\<exists>t. current_pid t = current_pid (k_table k) \<and> (\<forall>pid. get t pid = get (k_table k) pid) \<and>
    sys_write tf k = (if r = Err WouldBlock then
        tryS (ignore_err (mark_writer_waiting i (current_pid (k_table k)) (k1\<lparr>k_table := t\<rparr>))) (\<lambda>_ k.
          (Err (SysFd WouldBlock), k\<lparr>k_table := block_current (k_table k)\<rparr>))
      else tryS (map_err SysFd r, k1\<lparr>k_table := t\<rparr>) (\<lambda>n k. (Ok (word_of_nat n), k)))"
proof -
  let ?data = "mem_read (unat (a2 tf)) (unat (a3 tf)) (umem (k_machine k))"
  let ?op = "\<lambda>d buf k. case descriptor_write d buf k of (r, d, k) \<Rightarrow> (r, d, buf, k)"
  have "?op (FdPipe \<lparr>pipe_id = i, is_read_end = False\<rparr>) ?data (k\<lparr>k_locked := True\<rparr>) =
      (r, FdPipe \<lparr>pipe_id = i, is_read_end = False\<rparr>, ?data, k1\<lparr>k_locked := True\<rparr>)"
    using run by (simp add: pipe_fd_write_def)
  from on_descriptor_pipe [of leak k "unat (a1 tf)" i False q ?op, OF ok h this] same(1) obtain t where
    t: "on_descriptor ?op (current_pid (k_table k)) (unat (a1 tf)) ?data k = (Some i, ?data, r, k1\<lparr>k_locked := True, k_table := t, k_locked := False\<rparr>)"
      "current_pid t = current_pid (k_table k)" "\<forall>pid. get t pid = get (k_table k) pid" by auto
  have "k1\<lparr>k_locked := True, k_table := t, k_locked := False\<rparr> = k1\<lparr>k_table := t\<rparr>" using same(2) by simp
  then show ?thesis
    using t args by (intro exI [of _ t]) (simp add: sys_write_def from_raw_parts_def Let_def)
qed

lemma pt_read_locked:
  assumes ok: "kernel_ok leak k" and h: "has_pipe k fd i b q" and buf: "buf \<noteq> []"
  shows "pipe_contents q = [] \<Longrightarrow> pt_read i buf (k\<lparr>k_locked := True\<rparr>) =
      (if write_end_open q then Err WouldBlock else Ok 0, buf, (set_pipe i (Some q) k)\<lparr>k_locked := True\<rparr>)"
    and "pipe_contents q \<noteq> [] \<Longrightarrow> \<exists>q'. pipe_wf q' \<and> same_ends q q' \<and> pipe_contents q' = drop (length buf) (pipe_contents q) \<and>
      pt_read i buf (k\<lparr>k_locked := True\<rparr>) =
        (if waiting_writers q = [] then Ok (min (length buf) (length (pipe_contents q))) else Hang,
         take (length buf) (pipe_contents q) @ drop (length (pipe_contents q)) buf,
         (set_pipe i (Some (q'\<lparr>waiting_writers := []\<rparr>)) k)\<lparr>k_locked := True\<rparr>)"
proof -
  note w = has_pipe_wf [OF ok h]
  have comm: "set_pipe i x (k\<lparr>k_locked := True\<rparr>) = (set_pipe i x k)\<lparr>k_locked := True\<rparr>" for x by (simp add: set_pipe_def)
  show "pipe_contents q = [] \<Longrightarrow> pt_read i buf (k\<lparr>k_locked := True\<rparr>) =
      (if write_end_open q then Err WouldBlock else Ok 0, buf, (set_pipe i (Some q) k)\<lparr>k_locked := True\<rparr>)"
    using pipe_read_spec(1,2) [OF w(1), of buf] w(6) by (cases "write_end_open q") (simp_all add: pt_read_def comm)
  assume ne: "pipe_contents q \<noteq> []"
  from pipe_read_spec(3) [OF w(1) this, of buf] obtain q' where q':
    "pipe_read q buf = (Ok (min (length buf) (length (pipe_contents q))), q',
       take (length buf) (pipe_contents q) @ drop (length (pipe_contents q)) buf)"
    "pipe_wf q'" "pipe_contents q' = drop (length buf) (pipe_contents q)" "same_ends q q'" by blast
  have pos: "0 < min (length buf) (length (pipe_contents q))" using buf ne by (simp del: length_pipe_contents)
  have "pt_read i buf (k\<lparr>k_locked := True\<rparr>) =
      (case wake (waiting_writers q) ((set_pipe i (Some (q'\<lparr>waiting_writers := []\<rparr>)) k)\<lparr>k_locked := True\<rparr>) of
        (w, k) \<Rightarrow> tryS (w, take (length buf) (pipe_contents q) @ drop (length (pipe_contents q)) buf, k)
          (\<lambda>_ s. (Ok (min (length buf) (length (pipe_contents q))), s)))"
    using q'(1,4) w(6) pos by (simp add: pt_read_def wake_writers_def comm same_ends_def del: length_pipe_contents)
  then show "\<exists>q'. pipe_wf q' \<and> same_ends q q' \<and> pipe_contents q' = drop (length buf) (pipe_contents q) \<and>
      pt_read i buf (k\<lparr>k_locked := True\<rparr>) =
        (if waiting_writers q = [] then Ok (min (length buf) (length (pipe_contents q))) else Hang,
         take (length buf) (pipe_contents q) @ drop (length (pipe_contents q)) buf,
         (set_pipe i (Some (q'\<lparr>waiting_writers := []\<rparr>)) k)\<lparr>k_locked := True\<rparr>)"
    using q'(2-4) by (intro exI [of _ q']) (simp add: wake_locked)
qed

lemma sys_read_pipe:
  assumes ok: "kernel_ok leak k" and h: "has_pipe k (unat (a1 tf)) i True q"
    and args: "a2 tf \<noteq> 0" "a3 tf \<noteq> 0" "unat (a3 tf) < 2 ^ 63"
    and run: "pt_read i (mem_read (unat (a2 tf)) (unat (a3 tf)) (umem (k_machine k))) (k\<lparr>k_locked := True\<rparr>) = (r, buf', k1\<lparr>k_locked := True\<rparr>)"
    and same: "k_table k1 = k_table k" "k_locked k1 = False"
  shows "\<exists>t. current_pid t = current_pid (k_table k) \<and> (\<forall>pid. get t pid = get (k_table k) pid) \<and>
    sys_read tf k = (let k2 = set_umem (mem_write (unat (a2 tf)) buf' (umem (k_machine k1))) (k1\<lparr>k_table := t\<rparr>) in
      if r = Err WouldBlock then
        tryS (ignore_err (mark_reader_waiting i (current_pid (k_table k)) k2)) (\<lambda>_ k.
          (Err (SysFd WouldBlock), k\<lparr>k_table := block_current (k_table k)\<rparr>))
      else tryS (map_err SysFd r, k2) (\<lambda>n k. (Ok (word_of_nat n), k)))"
proof -
  let ?buf = "mem_read (unat (a2 tf)) (unat (a3 tf)) (umem (k_machine k))"
  have "descriptor_read (FdPipe \<lparr>pipe_id = i, is_read_end = True\<rparr>) ?buf (k\<lparr>k_locked := True\<rparr>) =
      (r, FdPipe \<lparr>pipe_id = i, is_read_end = True\<rparr>, buf', k1\<lparr>k_locked := True\<rparr>)"
    using run by (simp add: pipe_fd_read_def)
  from on_descriptor_pipe [of leak k "unat (a1 tf)" i True q descriptor_read, OF ok h this] same(1) obtain t where
    t: "on_descriptor descriptor_read (current_pid (k_table k)) (unat (a1 tf)) ?buf k = (Some i, buf', r, k1\<lparr>k_locked := True, k_table := t, k_locked := False\<rparr>)"
      "current_pid t = current_pid (k_table k)" "\<forall>pid. get t pid = get (k_table k) pid" by auto
  have "k1\<lparr>k_locked := True, k_table := t, k_locked := False\<rparr> = k1\<lparr>k_table := t\<rparr>" using same(2) by simp
  then show ?thesis
    using t args by (intro exI [of _ t]) (simp add: sys_read_def from_raw_parts_def Let_def)
qed

text \<open>Blocking registers the process with the pipe and takes it off the schedule.\<close>

lemma mark_ignored:
  assumes "i < MAX_PIPES" and "k_pipes k ! i = Some q"
  shows "ignore_err (mark_writer_waiting i pid k) = (Ok (), set_pipe i (Some (pipe_mark_writer_waiting pid q)) k)"
    and "ignore_err (mark_reader_waiting i pid k) = (Ok (), set_pipe i (Some (pipe_mark_reader_waiting pid q)) k)"
  using assms by (simp_all add: mark_writer_waiting_def mark_reader_waiting_def lookup_pipe_def)

lemma blocked_state:
  assumes "get t (current_pid t) = Some p" and "current_pid t \<noteq> INVALID_PID"
  shows "map_option p_state (get (block_current t) (current_pid t)) = Some Blocked"
  using assms by (simp add: block_current_def pt.lookup_modify)

lemma has_pipe_valid:
  assumes "kernel_ok leak k" and "has_pipe k fd i b q"
  shows "current_pid (k_table k) \<noteq> INVALID_PID" "\<exists>p. get (k_table k) (current_pid (k_table k)) = Some p"
  using assms pid_valid get_procs get_pid by (fastforce simp: has_pipe_def kernel_ok_def)+

text \<open>A kernel whose first process holds both ends of a pipe, as descriptors 3 and 4.\<close>

definition demo_piped :: kernel where
  "demo_piped = demo_running\<lparr>k_pipes := (k_pipes demo_running)[0 := Some pipe_new],
     k_table := get_mut 1 (\<lambda>p. p\<lparr>p_fd_table := with_standard[3 := end_of 0 True, 4 := end_of 0 False]\<rparr>) demo_table\<rparr>"

lemma demo_piped_ok:
  "kernel_ok (\<lambda>_ _. 0) demo_piped" "has_pipe demo_piped 3 0 True pipe_new" "has_pipe demo_piped 4 0 False pipe_new"
proof -
  let ?f = "with_standard[3 := end_of 0 True, 4 := end_of 0 False]" and ?p = "process_new 1 INVALID_PID 100 200 [] [] with_standard [] 0 0"
  have len: "length ?f = MAX_FDS" by (simp add: with_standard_def fd_new_def)
  note s = set_fds_ok [OF demo_table_ok(1) demo_get len]
  have "refs (p_fd_table p) = (\<lambda>_ _. 0)" if "p \<in> procs demo_table" for p
    using that unfolding procs_def demo_processes by (auto simp: process_new_def)
  then have o: "others ?p demo_table = (\<lambda>_ _. 0)" by (simp add: others_def fun_eq_iff)
  have r: "refs ?f i b = (if i = 0 then 1 else 0)" for i b
    by (cases b) (auto simp: refs_def with_standard_def fd_new_def end_of_def numeral_eq_Suc)
  have "pipe_counted (refs ?f) i ((replicate 8 None)[0 := Some pipe_new] ! i)" if "i < 8" for i
    using that pipe_new_wf(1) by (cases i) (auto simp: pipe_counted_def r pipe_new_def)
  then show "kernel_ok (\<lambda>_ _. 0) demo_piped"
    using s o r by (simp add: kernel_ok_def demo_piped_def demo_running_def counted_def)
  have "get (k_table demo_piped) 1 = Some (?p\<lparr>p_fd_table := ?f\<rparr>)" "current_pid (k_table demo_piped) = 1"
    using demo_get demo_table_ok(3) by (simp_all add: demo_piped_def pt.lookup_modify)
  moreover have "?f ! 3 = end_of 0 True" "?f ! 4 = end_of 0 False" "k_pipes demo_piped ! 0 = Some pipe_new"
    by (simp_all add: with_standard_def fd_new_def demo_piped_def demo_running_def)
  ultimately show "has_pipe demo_piped 3 0 True pipe_new" "has_pipe demo_piped 4 0 False pipe_new"
    by (simp_all add: has_pipe_def end_of_def)
qed

section \<open>Properties\<close>

text \<open>
  C12. Writing to a pipe with \<^verbatim>\<open>SYS_WRITE\<close>, on every branch. A pipe nobody can read any more is reported as broken;
  a full one blocks the caller, which is registered with the pipe and gets EAGAIN; otherwise as many
  bytes as fit are appended, in order, to what the pipe holds. The last case only completes when no
  process is waiting to read: waking one needs the lock of the process table, which the handler
  holds, and then the call never returns.
\<close>

theorem pipe_write_call:
  assumes "kernel_ok leak k" and "has_pipe k (unat (a1 tf)) i False q"
    and "a2 tf \<noteq> 0" and "a3 tf \<noteq> 0" and "unat (a3 tf) < 2 ^ 63"
    and "data = mem_read (unat (a2 tf)) (unat (a3 tf)) (umem (k_machine k))"
  shows "case sys_write tf k of (r, k') \<Rightarrow>
    if \<not> read_end_open q then r = Err (SysFd BrokenPipe) \<and> k_pipes k' = k_pipes k
    else if length (pipe_contents q) = 4095 then r = Err (SysFd WouldBlock) \<and>
      state_of k' (current_pid (k_table k)) = Some Blocked \<and>
      k_pipes k' ! i = Some (pipe_mark_writer_waiting (current_pid (k_table k)) q)
    else if waiting_readers q \<noteq> [] then r = Hang
    else \<exists>q'. r = Ok (word_of_nat (min (length data) (4095 - length (pipe_contents q)))) \<and> k_pipes k' ! i = Some q' \<and>
      pipe_contents q' = pipe_contents q @ take (4095 - length (pipe_contents q)) data"
proof -
  note w = has_pipe_wf [OF assms(1,2)]
  have "data \<noteq> []" using assms(4,6) by (simp add: mem_read_def unat_eq_zero)
  note pw = pt_write_locked [OF assms(1,2) this] and run = sys_write_pipe [OF assms(1-5)]
  have upd: "(k_pipes k)[i := Some q] = k_pipes k" using w(3) by (metis list_update_id)
  consider (broken) "\<not> read_end_open q" | (full) "read_end_open q" "length (pipe_contents q) = 4095"
    | (put) "read_end_open q" "length (pipe_contents q) \<noteq> 4095" by blast
  then show ?thesis
  proof cases
    case broken
    from run [OF pw(1) [OF broken, unfolded assms(6)]] w(4) broken upd show ?thesis by auto
  next
    case full
    from run [OF pw(2) [OF full, unfolded assms(6)]] w(4) obtain t where
      t: "current_pid t = current_pid (k_table k)" "\<forall>pid. get t pid = get (k_table k) pid"
        "sys_write tf k = tryS (ignore_err (mark_writer_waiting i (current_pid (k_table k)) ((set_pipe i (Some q) k)\<lparr>k_table := t\<rparr>)))
          (\<lambda>_ k. (Err (SysFd WouldBlock), k\<lparr>k_table := block_current (k_table k)\<rparr>))" by auto
    moreover have "map_option p_state (get (block_current t) (current_pid (k_table k))) = Some Blocked"
      using blocked_state [of t] has_pipe_valid [OF assms(1,2)] t(1,2) by auto
    ultimately show ?thesis
      using full w(2,5) by (simp add: state_of_def mark_ignored(1) [OF w(2), where q = q])
  next
    case put
    from pw(3) [OF put] obtain q' where q': "pipe_contents q' = pipe_contents q @ take (4095 - length (pipe_contents q)) data"
      "pt_write i data (k\<lparr>k_locked := True\<rparr>) =
        (if waiting_readers q = [] then Ok (min (length data) (4095 - length (pipe_contents q))) else Hang,
         (set_pipe i (Some (q'\<lparr>waiting_readers := []\<rparr>)) k)\<lparr>k_locked := True\<rparr>)" by blast
    have c: "pipe_contents (q'\<lparr>waiting_readers := []\<rparr>) = pipe_contents q'" by (simp add: pipe_contents_def available_def)
    from run [OF q'(2) [unfolded assms(6)]] w(2,4,5) put q'(1) c show ?thesis
      by (cases "waiting_readers q = []") (auto simp: assms(6) simp del: length_pipe_contents)
  qed
qed

theorem pipe_write_call_witness:
  "fst (sys_write (zero_frame\<lparr>a1 := 4, a2 := 16, a3 := 5\<rparr>) demo_piped) = Ok 5"
  using pipe_write_call [OF demo_piped_ok(1), of "zero_frame\<lparr>a1 := 4, a2 := 16, a3 := 5\<rparr>" 0 pipe_new, OF _ _ _ _ refl]
    demo_piped_ok(3) pipe_new_wf(2)
  by (auto simp: pipe_new_def simp del: length_pipe_contents split: prod.splits)

text \<open>
  C13. Reading from a pipe with \<^verbatim>\<open>SYS_READ\<close>, on every branch. An empty pipe is the end of file once nobody can write
  to it any more, and blocks the caller otherwise; a pipe that holds bytes moves the oldest of them,
  as many as the buffer takes, to the caller's memory and leaves the others. As with writing, that
  case never returns when a writer is waiting.
\<close>

theorem pipe_read_call:
  assumes "kernel_ok leak k" and "has_pipe k (unat (a1 tf)) i True q"
    and "a2 tf \<noteq> 0" and "a3 tf \<noteq> 0" and "unat (a3 tf) < 2 ^ 63"
  shows "case sys_read tf k of (r, k') \<Rightarrow>
    if pipe_contents q = [] then
      if write_end_open q then r = Err (SysFd WouldBlock) \<and> state_of k' (current_pid (k_table k)) = Some Blocked \<and>
        k_pipes k' ! i = Some (pipe_mark_reader_waiting (current_pid (k_table k)) q)
      else r = Ok 0 \<and> k_pipes k' = k_pipes k
    else if waiting_writers q \<noteq> [] then r = Hang
    else \<exists>n q'. n = min (unat (a3 tf)) (length (pipe_contents q)) \<and> r = Ok (word_of_nat n) \<and> k_pipes k' ! i = Some q' \<and>
      pipe_contents q' = drop n (pipe_contents q) \<and>
      mem_read (unat (a2 tf)) n (umem (k_machine k')) = take n (pipe_contents q)"
proof -
  note w = has_pipe_wf [OF assms(1,2)]
  let ?buf = "mem_read (unat (a2 tf)) (unat (a3 tf)) (umem (k_machine k))"
  have len: "length ?buf = unat (a3 tf)" by (simp add: mem_read_def)
  have "?buf \<noteq> []" using assms(4) by (simp add: mem_read_def unat_eq_zero)
  note pr = pt_read_locked [OF assms(1,2) this] and run = sys_read_pipe [OF assms(1-5)]
  have upd: "(k_pipes k)[i := Some q] = k_pipes k" using w(3) by (metis list_update_id)
  show ?thesis
  proof (cases "pipe_contents q = []")
    case True
    from run [OF pr(1) [OF True]] w(4) obtain t where
      t: "current_pid t = current_pid (k_table k)" "\<forall>pid. get t pid = get (k_table k) pid"
        "sys_read tf k = (let k2 = set_umem (mem_write (unat (a2 tf)) ?buf (umem (k_machine (set_pipe i (Some q) k)))) ((set_pipe i (Some q) k)\<lparr>k_table := t\<rparr>) in
          if (if write_end_open q then Err WouldBlock else Ok 0) = Err WouldBlock then
            tryS (ignore_err (mark_reader_waiting i (current_pid (k_table k)) k2)) (\<lambda>_ k.
              (Err (SysFd WouldBlock), k\<lparr>k_table := block_current (k_table k)\<rparr>))
          else tryS (map_err SysFd (if write_end_open q then Err WouldBlock else Ok 0), k2) (\<lambda>n k. (Ok (word_of_nat n), k)))" by auto
    moreover have "map_option p_state (get (block_current t) (current_pid (k_table k))) = Some Blocked"
      using blocked_state [of t] has_pipe_valid [OF assms(1,2)] t(1,2) by auto
    ultimately show ?thesis
      using True w(2,3,5) upd
      by (cases "write_end_open q") (simp_all add: state_of_def mark_ignored(2) [OF w(2), where q = q] Let_def set_umem_def)
  next
    case False
    from pr(2) [OF False] obtain q' where q': "pipe_contents q' = drop (length ?buf) (pipe_contents q)"
      "pt_read i ?buf (k\<lparr>k_locked := True\<rparr>) =
        (if waiting_writers q = [] then Ok (min (length ?buf) (length (pipe_contents q))) else Hang,
         take (length ?buf) (pipe_contents q) @ drop (length (pipe_contents q)) ?buf,
         (set_pipe i (Some (q'\<lparr>waiting_writers := []\<rparr>)) k)\<lparr>k_locked := True\<rparr>)" by blast
    let ?out = "take (length ?buf) (pipe_contents q) @ drop (length (pipe_contents q)) ?buf"
    let ?n = "min (unat (a3 tf)) (length (pipe_contents q))"
    have c: "pipe_contents (q'\<lparr>waiting_writers := []\<rparr>) = pipe_contents q'" by (simp add: pipe_contents_def available_def)
    have d: "drop (unat (a3 tf)) (pipe_contents q) = drop ?n (pipe_contents q)"
      by (simp add: min_def del: length_pipe_contents)
    have "length ?out = unat (a3 tf)" by (simp add: len min_def del: length_pipe_contents)
    then have m: "mem_read (unat (a2 tf)) ?n (mem_write (unat (a2 tf)) ?out x) = take ?n ?out" for x
      by (intro mem_read_write_prefix) simp
    have o: "take ?n ?out = take ?n (pipe_contents q)" by (simp add: len min_def del: length_pipe_contents)
    from run [OF q'(2)] w(2,4,5) False q'(1) c d m o len show ?thesis
      by (cases "waiting_writers q = []") (auto simp: Let_def set_umem_def simp del: length_pipe_contents)
  qed
qed

theorem pipe_read_call_witness:
  "case sys_read (zero_frame\<lparr>a1 := 3, a2 := 16, a3 := 5\<rparr>) demo_piped of (r, k') \<Rightarrow>
     r = Err (SysFd WouldBlock) \<and> state_of k' 1 = Some Blocked"
  using pipe_read_call [OF demo_piped_ok(1), of "zero_frame\<lparr>a1 := 3, a2 := 16, a3 := 5\<rparr>" 0 pipe_new]
    demo_piped_ok(2) pipe_new_wf(2) demo_table_ok(3)
  by (auto simp: pipe_new_def demo_piped_def split: prod.splits)

text \<open>
  C14. \<^verbatim>\<open>SYS_EXIT\<close> of the running process, in every case. It returns exactly when the process has no parent and
  does not strand anybody: no waiting reader or writer is left without the other end by its exit. Then
  its descriptors are closed and all its references returned, it is a zombie with its exit code,
  every other process and the file system are as before, and the kernel's message is all that is
  printed. Otherwise the handler tries to wake a process (the parent, or whoever waits for the end
  that just closed) while it holds the lock of the process table, and the kernel stops.
\<close>

theorem exit_call:
  assumes "kernel_ok leak k" and "get (k_table k) (current_pid (k_table k)) = Some p" and "a0 tf = SYS_EXIT"
  shows "if p_parent_pid p \<noteq> INVALID_PID \<or> stranding (plus leak (others p (k_table k))) (p_fd_table p) k
    then fst (dispatch alloc_ok tf k) = Hang
    else \<exists>k'. dispatch alloc_ok tf k = (Ok (a1 tf), k') \<and> kernel_ok leak k' \<and> k_fs k' = k_fs k \<and>
      k_tx k' = k_tx k @ [(ByKernel, console (exit_note (current_pid (k_table k)) (a1 tf)))] \<and>
      get (k_table k') (current_pid (k_table k)) = Some (process_exit (a1 tf) (p\<lparr>p_fd_table := fd_new\<rparr>)) \<and>
      (\<forall>q. q \<noteq> current_pid (k_table k) \<longrightarrow> get (k_table k') q = get (k_table k) q)"
proof -
  have "dispatch alloc_ok tf k = (case sys_exit tf k of (r, k) \<Rightarrow> (code_of r, k))"
    using assms(3) by (simp add: dispatch_def handler_def sys_numbers)
  with sys_exit_run [OF assms(1,2), of tf] assms(2) show ?thesis
    by (cases "sys_exit tf k") (auto simp: pt.lookup_modify process_exit_def split: if_splits)
qed

theorem exit_call_witness:
  "\<exists>k'. dispatch (\<lambda>_. True) (zero_frame\<lparr>a0 := SYS_EXIT, a1 := 7\<rparr>) demo_running = (Ok 7, k') \<and> kernel_ok (\<lambda>_ _. 0) k'"
proof -
  have g: "get (k_table demo_running) (current_pid (k_table demo_running)) =
      Some (process_new 1 INVALID_PID 100 200 [] [] with_standard [] 0 0)"
    using demo_get demo_table_ok(3) by (simp add: demo_running_def)
  show ?thesis
    using exit_call [OF demo_running_ok(1) g, of "zero_frame\<lparr>a0 := SYS_EXIT, a1 := 7\<rparr>" "\<lambda>_. True"]
    by (auto simp: process_new_def stranding_def waiting_def demo_running_def split: if_splits)
qed

end
