(* ===== verification/UserLib.thy ===== *)
theory UserLib
  imports Utf8
begin

text \<open>
  The library user programs are linked with, \<^verbatim>\<open>user_bin/src/lib.rs\<close>, over the system calls as a program
  sees them. A program's state is whatever the system calls act on; its outcome is a value, the code
  it exits with (as \<^const>\<open>Err\<close>), a panic, or not returning. The retry loops take the number of system
  calls they may make; running out of it is not returning.
\<close>

section \<open>System calls as a program sees them\<close>

type_synonym ('a, 's) call = "'s \<Rightarrow> ('a, int) outcome \<times> 's"

record 's sys =
  e_write :: "nat \<Rightarrow> bytes \<Rightarrow> (int, 's) call"
  e_read :: "nat \<Rightarrow> nat \<Rightarrow> (int \<times> bytes, 's) call"
  e_open :: "bytes \<Rightarrow> u64 \<Rightarrow> (int, 's) call"
  e_close :: "nat \<Rightarrow> (int, 's) call"
  e_dup2 :: "nat \<Rightarrow> nat \<Rightarrow> (int, 's) call"
  e_pipe :: "(int \<times> nat \<times> nat, 's) call"
  e_spawn :: "bytes \<Rightarrow> bytes list \<Rightarrow> (int, 's) call"
  e_wait :: "(int, 's) call"
  e_exit :: "int \<Rightarrow> 's \<Rightarrow> 's"

text \<open>The flags of \<^verbatim>\<open>open\<close>.\<close>

definition O_READ :: u64 where "O_READ = 0x1"
definition O_WRITE :: u64 where "O_WRITE = 0x2"
definition O_CREATE :: u64 where "O_CREATE = 0x4"
definition O_APPEND :: u64 where "O_APPEND = 0x8"

lemmas open_flags = O_READ_def O_WRITE_def O_CREATE_def O_APPEND_def

section \<open>The retry loops\<close>

definition EAGAIN :: int where "EAGAIN = -11"

fun write_loop :: "'s sys \<Rightarrow> nat \<Rightarrow> nat \<Rightarrow> bytes \<Rightarrow> nat \<Rightarrow> (int, 's) call" where
  "write_loop sys 0 fd buf written_total s = (Hang, s)"
| "write_loop sys (Suc n) fd buf written_total s =
     tryS (e_write sys fd (drop written_total buf) s) (\<lambda>ret s.
       if ret = EAGAIN then write_loop sys n fd buf written_total s
       else if ret < 0 then (Ok (if 0 < written_total then int written_total else ret), s)
       else
         let wrote = min (nat ret) (length buf - written_total);
             written_total = written_total + wrote
         in if length buf \<le> written_total \<or> wrote = 0 then (Ok (int written_total), s)
            else write_loop sys n fd buf written_total s)"

definition lib_write :: "'s sys \<Rightarrow> nat \<Rightarrow> nat \<Rightarrow> bytes \<Rightarrow> (int, 's) call" where
  "lib_write sys n fd buf s = (if buf = [] then (Ok 0, s) else write_loop sys n fd buf 0 s)"

fun lib_read :: "'s sys \<Rightarrow> nat \<Rightarrow> nat \<Rightarrow> nat \<Rightarrow> (int \<times> bytes, 's) call" where
  "lib_read sys 0 fd len s = (Hang, s)"
| "lib_read sys (Suc n) fd len s =
     tryS (e_read sys fd len s) (\<lambda>(ret, data) s.
       if ret \<noteq> EAGAIN then (Ok (ret, data), s) else lib_read sys n fd len s)"

fun lib_wait :: "'s sys \<Rightarrow> nat \<Rightarrow> (int, 's) call" where
  "lib_wait sys 0 s = (Hang, s)"
| "lib_wait sys (Suc n) s =
     tryS (e_wait sys s) (\<lambda>ret s. if ret \<noteq> EAGAIN then (Ok ret, s) else lib_wait sys n s)"

text \<open>A write whose result is not looked at, and several of them.\<close>

definition say :: "'s sys \<Rightarrow> nat \<Rightarrow> nat \<Rightarrow> bytes \<Rightarrow> (unit, 's) call" where
  "say sys n fd bytes s = tryS (lib_write sys n fd bytes s) (\<lambda>_ s. (Ok (), s))"

fun says :: "'s sys \<Rightarrow> nat \<Rightarrow> nat \<Rightarrow> bytes list \<Rightarrow> (unit, 's) call" where
  "says sys n fd [] s = (Ok (), s)"
| "says sys n fd (b # bs) s = tryS (say sys n fd b s) (\<lambda>_ s. says sys n fd bs s)"

lemma says_single: "says sys n fd [b] s = say sys n fd b s"
proof -
  obtain r s' where "say sys n fd b s = (r, s')" by (metis surj_pair)
  then show ?thesis by (cases r) simp_all
qed

text \<open>
  \<^verbatim>\<open>exit\<close> traps, and is declared not to come back: the program has ended with its code, in the state the
  call leaves.
\<close>

definition lib_exit :: "'s sys \<Rightarrow> int \<Rightarrow> ('a, 's) call" where
  "lib_exit sys code s = (Err code, e_exit sys code s)"

text \<open>
  \<^verbatim>\<open>get_arg\<close> copies the argument up to its null byte, or 101 bytes of it, and reports what it does on
  standard error. The vector of arguments is given as the strings its pointers point to.
\<close>

definition get_arg_length :: "bytes \<Rightarrow> nat" where
  "get_arg_length arg = min 101 (length (takeWhile (\<lambda>b. b \<noteq> 0) arg))"

definition get_arg_notes :: "nat \<Rightarrow> bytes list" where
  "get_arg_notes len =
     (if 10 \<le> len then [ascii ''[get_arg] len=10'' @ [10]] else []) @
     (if 50 \<le> len then [ascii ''[get_arg] len=50'' @ [10]] else []) @
     (if 100 < len then [ascii ''[get_arg] len > 100!'' @ [10]] else [])"

definition get_arg :: "'s sys \<Rightarrow> nat \<Rightarrow> bytes list \<Rightarrow> nat \<Rightarrow> (bytes option, 's) call" where
  "get_arg sys n argv index s =
     tryS (say sys n 2 (ascii ''[get_arg] called'' @ [10]) s) (\<lambda>_ s.
       if length argv \<le> index then
         tryS (say sys n 2 (ascii ''[get_arg] index >= argc'' @ [10]) s) (\<lambda>_ s. (Ok None, s))
       else
         tryS (says sys n 2 (map (\<lambda>t. t @ [10]) [ascii ''[get_arg] got args slice'', ascii ''[get_arg] got ptr'',
             ascii ''[get_arg] looking for null'', ascii ''[get_arg] read first byte'']) s) (\<lambda>_ s.
           let arg = argv ! index; len = get_arg_length arg in
           if len = 0 then tryS (say sys n 2 (ascii ''[get_arg] first byte is null!'' @ [10]) s) (\<lambda>_ s. (Ok (Some []), s))
           else tryS (says sys n 2 ([ascii ''[get_arg] first byte not null, entering loop'' @ [10]] @
               get_arg_notes len @ [ascii ''[get_arg] found null!'' @ [10]]) s) (\<lambda>_ s. (Ok (Some (take len arg)), s))))"

section \<open>What a program may rely on\<close>

text \<open>
  Descriptors to write to: writing takes at least one byte, or asks to be tried again, but not
  forever: \<open>patience\<close> bounds how often in a row. What is written may be encoded on its way (the console
  sends a carriage return before a line feed). A slice has less than \<open>2 ^ 63\<close> bytes. Writing does not
  change what \<open>pending\<close> observes.
\<close>

locale program_out =
  fixes sys :: "'s sys"
    and inv :: "'s \<Rightarrow> bool"
    and pending :: "'s \<Rightarrow> 'o"
    and sent :: "'s \<Rightarrow> bytes"
    and sinks :: "nat set"
    and encode :: "bytes \<Rightarrow> bytes"
    and patience :: "'s \<Rightarrow> nat"
  assumes encode_append: "encode (a @ b) = encode a @ encode b"
    and write_law: "inv s \<Longrightarrow> fd \<in> sinks \<Longrightarrow> buf \<noteq> [] \<Longrightarrow> length buf < 2 ^ 63 \<Longrightarrow>
      \<exists>ret s'. e_write sys fd buf s = (Ok ret, s') \<and> inv s' \<and> pending s' = pending s \<and>
      (ret = EAGAIN \<and> sent s' = sent s \<and> patience s' < patience s \<or>
       (0 < ret \<and> ret \<le> int (length buf) \<and> sent s' = sent s @ encode (take (nat ret) buf) \<and> patience s' \<le> patience s))"
begin

lemma encode_Nil [simp]: "encode [] = []"
  using encode_append [of "[]" "[]"] by simp

lemma write_loop_all:
  assumes "inv s" and "fd \<in> sinks" and "w < length buf" and "patience s + (length buf - w) < n" and "length buf < 2 ^ 63"
  shows "\<exists>s'. write_loop sys n fd buf w s = (Ok (int (length buf)), s') \<and> inv s' \<and> pending s' = pending s \<and>
    sent s' = sent s @ encode (drop w buf) \<and> patience s' \<le> patience s"
  using assms
proof (induction n arbitrary: w s)
  case (Suc n)
  have "drop w buf \<noteq> []" "length (drop w buf) < 2 ^ 63" using Suc.prems by simp_all
  from write_law [OF Suc.prems(1,2) this] obtain ret s1 where
    r: "e_write sys fd (drop w buf) s = (Ok ret, s1)" "inv s1" "pending s1 = pending s"
      "ret = EAGAIN \<and> sent s1 = sent s \<and> patience s1 < patience s \<or>
       0 < ret \<and> ret \<le> int (length buf - w) \<and> sent s1 = sent s @ encode (take (nat ret) (drop w buf)) \<and> patience s1 \<le> patience s"
    by auto
  show ?case
  proof (cases "ret = EAGAIN")
    case True
    with r(4) have "sent s1 = sent s" "patience s1 < patience s" by (auto simp: EAGAIN_def)
    with Suc.IH [OF r(2) Suc.prems(2,3)] Suc.prems(4,5) r(1,3) True show ?thesis by auto
  next
    case False
    with r(4) have pos: "0 < ret" "nat ret \<le> length buf - w" "sent s1 = sent s @ encode (take (nat ret) (drop w buf))"
      "patience s1 \<le> patience s" by auto
    let ?w = "w + nat ret"
    have run: "write_loop sys (Suc n) fd buf w s =
        (if length buf \<le> ?w then (Ok (int ?w), s1) else write_loop sys n fd buf ?w s1)"
      using r(1) False pos(1,2) by (simp add: Let_def min_absorb1)
    show ?thesis
    proof (cases "length buf \<le> ?w")
      case True
      then have "?w = length buf" using pos(2) Suc.prems(3) by simp
      then show ?thesis using run r(2,3) pos True by simp
    next
      case more: False
      have "take (nat ret) (drop w buf) @ drop ?w buf = drop w buf"
        by (metis add.commute append_take_drop_id drop_drop)
      then have "encode (drop w buf) = encode (take (nat ret) (drop w buf)) @ encode (drop ?w buf)" by (metis encode_append)
      moreover have "\<exists>s'. write_loop sys n fd buf ?w s1 = (Ok (int (length buf)), s') \<and> inv s' \<and> pending s' = pending s1 \<and>
          sent s' = sent s1 @ encode (drop ?w buf) \<and> patience s' \<le> patience s1"
        using Suc.IH [OF r(2) Suc.prems(2), of ?w] Suc.prems(4,5) pos more by auto
      ultimately show ?thesis using run more r(3) pos by auto
    qed
  qed
qed simp

lemma lib_write_all:
  assumes "inv s" and "fd \<in> sinks" and "patience s + length buf < n" and "length buf < 2 ^ 63"
  shows "\<exists>s'. lib_write sys n fd buf s = (Ok (int (length buf)), s') \<and> inv s' \<and> pending s' = pending s \<and>
    sent s' = sent s @ encode buf \<and> patience s' \<le> patience s"
  using write_loop_all [OF assms(1,2), of 0 buf n] assms by (cases "buf = []") (auto simp: lib_write_def)

lemma say_all:
  assumes "inv s" and "fd \<in> sinks" and "patience s + length buf < n" and "length buf < 2 ^ 63"
  shows "\<exists>s'. say sys n fd buf s = (Ok (), s') \<and> inv s' \<and> pending s' = pending s \<and>
    sent s' = sent s @ encode buf \<and> patience s' \<le> patience s"
  using lib_write_all [OF assms] by (auto simp: say_def)

lemma says_all:
  "inv s \<Longrightarrow> fd \<in> sinks \<Longrightarrow> patience s + length (concat bufs) < n \<Longrightarrow> length (concat bufs) < 2 ^ 63 \<Longrightarrow>
   \<exists>s'. says sys n fd bufs s = (Ok (), s') \<and> inv s' \<and> pending s' = pending s \<and>
    sent s' = sent s @ encode (concat bufs) \<and> patience s' \<le> patience s"
proof (induction bufs arbitrary: s)
  case (Cons b bs)
  from say_all [OF Cons.prems(1,2), of b n] Cons.prems(3,4) obtain s1 where
    s1: "say sys n fd b s = (Ok (), s1)" "inv s1" "pending s1 = pending s" "sent s1 = sent s @ encode b" "patience s1 \<le> patience s"
    by auto
  with Cons.IH [OF s1(2) Cons.prems(2)] Cons.prems(3,4) show ?case by (auto simp: encode_append)
qed simp

end

text \<open>
  And a descriptor to read from, of which \<open>pending\<close> is what is still to come: reading returns the next
  bytes, at least one unless there are none left. When \<open>ends\<close> is false, as on the console, reading beyond
  the last byte need not return.
\<close>

locale program_io = program_out sys inv pending sent sinks encode patience
  for sys :: "'s sys" and inv and pending :: "'s \<Rightarrow> bytes" and sent and sinks and encode and patience +
  fixes infd :: nat
    and ends :: bool
  assumes read_law: "inv s \<Longrightarrow> 0 < len \<Longrightarrow> len < 2 ^ 63 \<Longrightarrow> pending s \<noteq> [] \<or> ends \<Longrightarrow>
      \<exists>ret data s'. e_read sys infd len s = (Ok (ret, data), s') \<and> inv s' \<and> sent s' = sent s \<and>
      (ret = EAGAIN \<and> pending s' = pending s \<and> patience s' < patience s \<or>
       (0 \<le> ret \<and> length data = nat ret \<and> nat ret \<le> len \<and> pending s = data @ pending s' \<and> (ret = 0 \<longrightarrow> pending s = []) \<and> patience s' \<le> patience s))"
begin

lemma lib_read_next:
  assumes "inv s" and "0 < len" and "patience s < n" and "len < 2 ^ 63" and "pending s \<noteq> [] \<or> ends"
  shows "\<exists>data s'. lib_read sys n infd len s = (Ok (int (length data), data), s') \<and> inv s' \<and> sent s' = sent s \<and>
    length data \<le> len \<and> pending s = data @ pending s' \<and> (data = [] \<longrightarrow> pending s = []) \<and> patience s' \<le> patience s"
  using assms
proof (induction n arbitrary: s)
  case (Suc n)
  from read_law [OF Suc.prems(1,2,4,5)] obtain ret data s1 where
    r: "e_read sys infd len s = (Ok (ret, data), s1)" "inv s1" "sent s1 = sent s"
      "ret = EAGAIN \<and> pending s1 = pending s \<and> patience s1 < patience s \<or>
       0 \<le> ret \<and> length data = nat ret \<and> nat ret \<le> len \<and> pending s = data @ pending s1 \<and> (ret = 0 \<longrightarrow> pending s = []) \<and> patience s1 \<le> patience s"
    by blast
  show ?case
  proof (cases "ret = EAGAIN")
    case True
    with r(4) have "pending s1 = pending s" "patience s1 < patience s" by (auto simp: EAGAIN_def)
    with Suc.IH [OF r(2) Suc.prems(2)] Suc.prems(3-5) r(1,3) True show ?thesis by auto
  next
    case False
    with r show ?thesis by auto
  qed
qed simp

end

end
