(* ===== verification/UserPrograms.thy ===== *)
theory UserPrograms
  imports UserLib
begin

text \<open>
  The programs \<^verbatim>\<open>user_bin/src/bin/wc.rs\<close> and \<^verbatim>\<open>cat.rs\<close>, and what they compute over any system that keeps the
  contract of \<^const>\<open>program_io\<close>: however the input is cut into pieces, \<^verbatim>\<open>wc\<close> counts the lines, words and bytes of
  the whole and prints them in decimal, and \<^verbatim>\<open>cat\<close> sends exactly the bytes it reads.
\<close>

section \<open>wc\<close>

definition is_whitespace :: "u8 \<Rightarrow> bool" where
  "is_whitespace byte \<longleftrightarrow> byte = 32 \<or> byte = 9 \<or> byte = 10 \<or> byte = 13"

text \<open>The functions that count in one piece.\<close>

fun count_lines_loop :: "nat \<Rightarrow> bytes \<Rightarrow> nat" where
  "count_lines_loop count [] = count"
| "count_lines_loop count (byte # data) = count_lines_loop (if byte = 10 then count + 1 else count) data"

definition count_lines :: "bytes \<Rightarrow> nat" where
  "count_lines data = count_lines_loop 0 data"

fun count_words_loop :: "nat \<times> bool \<Rightarrow> bytes \<Rightarrow> nat \<times> bool" where
  "count_words_loop (count, in_word) [] = (count, in_word)"
| "count_words_loop (count, in_word) (byte # data) =
     count_words_loop
       (if \<not> is_whitespace byte \<and> \<not> in_word then (count + 1, True)
        else if is_whitespace byte then (count, False) else (count, in_word)) data"

definition count_words :: "bytes \<Rightarrow> nat" where
  "count_words data = fst (count_words_loop (0, False) data)"

text \<open>The loop of \<^verbatim>\<open>wc_fd\<close> over one piece of input, with its four variables.\<close>

record counters =
  c_lines :: nat
  c_words :: nat
  c_bytes :: nat
  c_in_word :: bool

definition count_byte :: "u8 \<Rightarrow> counters \<Rightarrow> counters" where
  "count_byte byte c =
     (let c = (if byte = 10 then c\<lparr>c_lines := c_lines c + 1\<rparr> else c) in
      if \<not> is_whitespace byte \<and> \<not> c_in_word c then c\<lparr>c_words := c_words c + 1, c_in_word := True\<rparr>
      else if is_whitespace byte then c\<lparr>c_in_word := False\<rparr> else c)"

definition count_piece :: "bytes \<Rightarrow> counters \<Rightarrow> counters" where
  "count_piece data c = fold count_byte data (c\<lparr>c_bytes := c_bytes c + length data\<rparr>)"

fun wc_loop :: "'s sys \<Rightarrow> nat \<Rightarrow> nat \<Rightarrow> nat \<Rightarrow> counters \<Rightarrow> (counters, 's) call" where
  "wc_loop sys n 0 fd c s = (Hang, s)"
| "wc_loop sys n (Suc m) fd c s =
     tryS (lib_read sys n fd 4096 s) (\<lambda>(len, buf) s.
       if len \<le> 0 then (Ok c, s)
       else if 4096 < len then (Panic, s)
       else wc_loop sys n m fd (count_piece (take (nat len) buf) c) s)"

text \<open>\<^verbatim>\<open>print_number\<close>: the digits are collected from the last to the first in a buffer of twenty.\<close>

function digit_loop :: "nat \<Rightarrow> bytes \<Rightarrow> (bytes, int) outcome" where
  "digit_loop num buf =
     (if num = 0 then Ok buf
      else if 20 \<le> length buf then Panic
      else digit_loop (num div 10) (buf @ [48 + word_of_nat (num mod 10)]))"
  by pat_completeness auto
termination
  by (relation "measure (\<lambda>(num, _). num)") auto

declare digit_loop.simps [simp del]

definition print_number :: "'s sys \<Rightarrow> nat \<Rightarrow> nat \<Rightarrow> (unit, 's) call" where
  "print_number sys n num s =
     (if num = 0 then say sys n 1 [48] s
      else tryS (digit_loop num [], s) (\<lambda>buf s. says sys n 1 (map (\<lambda>b. [b]) (rev buf)) s))"

definition wc_print :: "'s sys \<Rightarrow> nat \<Rightarrow> counters \<Rightarrow> bytes option \<Rightarrow> (unit, 's) call" where
  "wc_print sys n c filename s =
     tryS (print_number sys n (c_lines c) s) (\<lambda>_ s. tryS (say sys n 1 [32] s) (\<lambda>_ s.
     tryS (print_number sys n (c_words c) s) (\<lambda>_ s. tryS (say sys n 1 [32] s) (\<lambda>_ s.
     tryS (print_number sys n (c_bytes c) s) (\<lambda>_ s.
     tryS (case filename of Some name \<Rightarrow> says sys n 1 [[32], name] s | None \<Rightarrow> (Ok (), s)) (\<lambda>_ s.
     say sys n 1 [10] s))))))"

definition wc_fd :: "'s sys \<Rightarrow> nat \<Rightarrow> nat \<Rightarrow> nat \<Rightarrow> bytes option \<Rightarrow> (nat \<times> nat \<times> nat, 's) call" where
  "wc_fd sys n m fd filename s =
     tryS (wc_loop sys n m fd \<lparr>c_lines = 0, c_words = 0, c_bytes = 0, c_in_word = False\<rparr> s) (\<lambda>c s.
       tryS (wc_print sys n c filename s) (\<lambda>_ s. (Ok (c_lines c, c_words c, c_bytes c), s)))"

text \<open>The arguments from number \<open>i\<close> on, with the totals so far; and the program.\<close>

fun wc_files :: "'s sys \<Rightarrow> nat \<Rightarrow> nat \<Rightarrow> bytes list \<Rightarrow> nat list \<Rightarrow> nat \<times> nat \<times> nat \<times> nat \<Rightarrow> (nat \<times> nat \<times> nat \<times> nat, 's) call" where
  "wc_files sys n m argv [] totals s = (Ok totals, s)"
| "wc_files sys n m argv (i # is) (total_lines, total_words, total_bytes, file_count) s =
     tryS (get_arg sys n argv i s) (\<lambda>arg s.
       case arg of
         None \<Rightarrow> (Ok (total_lines, total_words, total_bytes, file_count), s)
       | Some filename \<Rightarrow>
           tryS (e_open sys filename O_READ s) (\<lambda>fd s.
             if fd < 0 then
               tryS (says sys n 2 [ascii ''wc: cannot open '', filename, [10]] s) (\<lambda>_ s. lib_exit sys 1 s)
             else
               tryS (wc_fd sys n m (nat fd) (Some filename) s) (\<lambda>(lines, words, bytes) s.
                 tryS (e_close sys (nat fd) s) (\<lambda>_ s.
                   wc_files sys n m argv is
                     (total_lines + lines, total_words + words, total_bytes + bytes, file_count + 1) s))))"

definition wc_main :: "'s sys \<Rightarrow> nat \<Rightarrow> nat \<Rightarrow> bytes list \<Rightarrow> (unit, 's) call" where
  "wc_main sys n m argv s =
     (if length argv = 1 then tryS (wc_fd sys n m 0 None s) (\<lambda>_ s. lib_exit sys 0 s)
      else tryS (wc_files sys n m argv [1..<length argv] (0, 0, 0, 0) s) (\<lambda>(total_lines, total_words, total_bytes, file_count) s.
        tryS (if 1 < file_count then
            tryS (print_number sys n total_lines s) (\<lambda>_ s. tryS (say sys n 1 [32] s) (\<lambda>_ s.
            tryS (print_number sys n total_words s) (\<lambda>_ s. tryS (say sys n 1 [32] s) (\<lambda>_ s.
            tryS (print_number sys n total_bytes s) (\<lambda>_ s. say sys n 1 (ascii '' total'' @ [10]) s)))))
          else (Ok (), s)) (\<lambda>_ s. lib_exit sys 0 s)))"

section \<open>cat\<close>

fun cat_fd :: "'s sys \<Rightarrow> nat \<Rightarrow> nat \<Rightarrow> nat \<Rightarrow> (unit, 's) call" where
  "cat_fd sys n 0 fd s = (Hang, s)"
| "cat_fd sys n (Suc m) fd s =
     tryS (lib_read sys n fd 4096 s) (\<lambda>(len, buf) s.
       if len \<le> 0 then (Ok (), s)
       else if 4096 < len then (Panic, s)
       else tryS (say sys n 1 (take (nat len) buf) s) (\<lambda>_ s. cat_fd sys n m fd s))"

definition note2 :: "'s sys \<Rightarrow> nat \<Rightarrow> string \<Rightarrow> (unit, 's) call" where
  "note2 sys n text s = say sys n 2 (ascii text @ [10]) s"

fun cat_files :: "'s sys \<Rightarrow> nat \<Rightarrow> nat \<Rightarrow> bytes list \<Rightarrow> nat list \<Rightarrow> (unit, 's) call" where
  "cat_files sys n m argv [] s = (Ok (), s)"
| "cat_files sys n m argv (i # is) s =
     tryS (note2 sys n ''[cat] calling get_arg'' s) (\<lambda>_ s.
     tryS (get_arg sys n argv i s) (\<lambda>arg s.
       case arg of
         None \<Rightarrow> note2 sys n ''[cat] get_arg returned None'' s
       | Some filename \<Rightarrow>
           tryS (note2 sys n ''[cat] get_arg returned'' s) (\<lambda>_ s.
           tryS (says sys n 2 [ascii ''[cat] opening file: '', filename, [10]] s) (\<lambda>_ s.
           tryS (e_open sys filename O_READ s) (\<lambda>fd s.
             if fd < 0 then
               tryS (note2 sys n ''[cat] open failed'' s) (\<lambda>_ s.
               tryS (says sys n 2 [ascii ''cat: cannot open '', filename, [10]] s) (\<lambda>_ s. lib_exit sys 1 s))
             else
               tryS (note2 sys n ''[cat] reading from file'' s) (\<lambda>_ s.
               tryS (cat_fd sys n m (nat fd) s) (\<lambda>_ s.
               tryS (e_close sys (nat fd) s) (\<lambda>_ s. cat_files sys n m argv is s))))))))"

definition cat_main :: "'s sys \<Rightarrow> nat \<Rightarrow> nat \<Rightarrow> bytes list \<Rightarrow> (unit, 's) call" where
  "cat_main sys n m argv s =
     tryS (note2 sys n ''[cat] _start called'' s) (\<lambda>_ s.
     if length argv = 1 then
       tryS (note2 sys n ''[cat] argc=1, reading stdin'' s) (\<lambda>_ s. tryS (cat_fd sys n m 0 s) (\<lambda>_ s. lib_exit sys 0 s))
     else
       tryS (note2 sys n ''[cat] argc>1, opening files'' s) (\<lambda>_ s.
       tryS (note2 sys n ''[cat] entering while loop'' s) (\<lambda>_ s.
       tryS (cat_files sys n m argv [1..<length argv] s) (\<lambda>_ s. lib_exit sys 0 s))))"

section \<open>What is counted\<close>

text \<open>The words of a text are its maximal pieces without white space.\<close>

function fields :: "bytes \<Rightarrow> bytes list" where
  "fields [] = []"
| "fields (b # bs) = (if is_whitespace b then fields bs
     else (b # takeWhile (\<lambda>c. \<not> is_whitespace c) bs) # fields (dropWhile (\<lambda>c. \<not> is_whitespace c) bs))"
  by pat_completeness auto
termination
  by (relation "measure length") (auto simp: le_imp_less_Suc length_dropWhile_le)

lemma length_fields_le: "length (fields bs) \<le> length bs"
proof (induction bs rule: fields.induct)
  case (2 b bs)
  then show ?case using length_dropWhile_le [of "\<lambda>c. \<not> is_whitespace c" bs] by (auto split: if_splits)
qed simp

text \<open>What the scan has still to count, given whether it is inside a word.\<close>

definition words_left :: "bool \<Rightarrow> bytes \<Rightarrow> nat" where
  "words_left in_word bs = (if in_word then length (fields (dropWhile (\<lambda>c. \<not> is_whitespace c) bs)) else length (fields bs))"

lemma words_left_simps [simp]:
  "words_left w [] = 0"
  "is_whitespace b \<Longrightarrow> words_left w (b # bs) = words_left False bs"
  "\<not> is_whitespace b \<Longrightarrow> words_left False (b # bs) = Suc (words_left True bs)"
  "\<not> is_whitespace b \<Longrightarrow> words_left True (b # bs) = words_left True bs"
  by (simp_all add: words_left_def)

lemma count_words_loop_left: "fst (count_words_loop (n, w) bs) = n + words_left w bs"
  by (induction "(n, w)" bs arbitrary: n w rule: count_words_loop.induct) auto

lemma count_lines_loop_count: "count_lines_loop n bs = n + count_list bs 10"
  by (induction n bs rule: count_lines_loop.induct) auto

lemma fold_count_byte:
  "c_lines (fold count_byte bs c) = c_lines c + count_list bs 10 \<and>
   c_words (fold count_byte bs c) = c_words c + words_left (c_in_word c) bs \<and>
   c_bytes (fold count_byte bs c) = c_bytes c"
proof (induction bs arbitrary: c)
  case (Cons b bs)
  have "is_whitespace 10" by (simp add: is_whitespace_def)
  with Cons [of "count_byte b c"] show ?case
    by (cases "is_whitespace b"; cases "c_in_word c") (auto simp: count_byte_def Let_def)
qed simp

lemma count_piece_append: "count_piece (a @ b) c = count_piece b (count_piece a c)"
proof -
  have "fold count_byte xs (c\<lparr>c_bytes := k\<rparr>) = (fold count_byte xs c)\<lparr>c_bytes := k\<rparr>" for xs c k
  proof (induction xs arbitrary: c)
    case (Cons x xs)
    have "count_byte x (c\<lparr>c_bytes := k\<rparr>) = (count_byte x c)\<lparr>c_bytes := k\<rparr>" by (simp add: count_byte_def Let_def)
    then show ?case using Cons by simp
  qed simp
  then show ?thesis using fold_count_byte [of a] by (simp add: count_piece_def)
qed

section \<open>Decimal numbers\<close>

function digits :: "nat \<Rightarrow> bytes" where
  "digits num = (if num < 10 then [48 + word_of_nat num] else digits (num div 10) @ [48 + word_of_nat (num mod 10)])"
  by pat_completeness auto
termination
  by (relation "measure id") auto

declare digits.simps [simp del]

text \<open>Reading a number back.\<close>

definition value_of :: "bytes \<Rightarrow> nat" where
  "value_of ds = foldl (\<lambda>v d. 10 * v + (unat d - 48)) 0 ds"

lemma unat_digit: "k < 10 \<Longrightarrow> unat (48 + word_of_nat k :: u8) = 48 + k"
  by (simp add: unat_word_ariths unat_of_nat take_bit_eq_mod)

lemma value_of_digits: "value_of (digits num) = num"
proof (induction num rule: digits.induct)
  case (1 num)
  show ?case
  proof (cases "num < 10")
    case True
    then show ?thesis by (simp add: digits.simps [of num] value_of_def unat_digit)
  next
    case False
    then have "value_of (digits num) = 10 * value_of (digits (num div 10)) + num mod 10"
      by (simp add: digits.simps [of num] value_of_def unat_digit)
    then show ?thesis using 1 False by simp
  qed
qed

lemma digits_decimal: "d \<in> set (digits num) \<Longrightarrow> 48 \<le> unat d \<and> unat d \<le> 57"
  by (induction num rule: digits.induct) (subst (asm) (2) digits.simps, auto simp: unat_digit split: if_splits)

lemma length_digits: "num < 10 ^ k \<Longrightarrow> 0 < k \<Longrightarrow> length (digits num) \<le> k"
proof (induction k arbitrary: num)
  case (Suc k)
  show ?case
  proof (cases "num < 10")
    case True
    then show ?thesis by (simp add: digits.simps [of num])
  next
    case False
    then have "num div 10 < 10 ^ k" "0 < k" using Suc.prems(1) by (simp, cases k, auto)
    then show ?thesis using Suc.IH [of "num div 10"] False by (simp add: digits.simps [of num])
  qed
qed simp

lemma digit_loop_digits:
  "0 < num \<Longrightarrow> length buf + length (digits num) \<le> 20 \<Longrightarrow> digit_loop num buf = Ok (buf @ rev (digits num))"
proof (induction num buf rule: digit_loop.induct)
  case (1 num buf)
  have pos: "0 < length (digits num)" by (subst digits.simps) auto
  show ?case
  proof (cases "num < 10")
    case True
    then have "num div 10 = 0" "num mod 10 = num" by auto
    then show ?thesis
      using 1(2,3) pos True by (simp add: digit_loop.simps [of num] digit_loop.simps [of 0] digits.simps [of num])
  next
    case False
    then have d: "digits num = digits (num div 10) @ [48 + word_of_nat (num mod 10)]" by (simp add: digits.simps [of num])
    have "digit_loop (num div 10) (buf @ [48 + word_of_nat (num mod 10)]) =
        Ok ((buf @ [48 + word_of_nat (num mod 10)]) @ rev (digits (num div 10)))"
      using 1(1) 1(2,3) False pos d by auto
    then show ?thesis using False 1(3) pos d by (simp add: digit_loop.simps [of num])
  qed
qed

section \<open>Running the programs\<close>

definition wc_report :: "bytes \<Rightarrow> bytes option \<Rightarrow> bytes" where
  "wc_report data filename =
     digits (count_list data 10) @ [32] @ digits (length (fields data)) @ [32] @ digits (length data) @
     (case filename of Some name \<Rightarrow> 32 # name | None \<Rightarrow> []) @ [10]"

text \<open>What \<^verbatim>\<open>get_arg\<close> says when it finds an argument.\<close>

definition get_arg_text :: "bytes \<Rightarrow> bytes" where
  "get_arg_text arg = concat ([ascii ''[get_arg] called'' @ [10]] @ map (\<lambda>t. t @ [10]) [ascii ''[get_arg] got args slice'',
     ascii ''[get_arg] got ptr'', ascii ''[get_arg] looking for null'', ascii ''[get_arg] read first byte''] @
     (if arg = [] then [ascii ''[get_arg] first byte is null!'' @ [10]]
      else [ascii ''[get_arg] first byte not null, entering loop'' @ [10]] @ get_arg_notes (length arg) @
        [ascii ''[get_arg] found null!'' @ [10]]))"

lemma small_digits: "num < 10 ^ 20 \<Longrightarrow> length (digits num) \<le> 20"
  by (rule length_digits) simp_all

context program_out
begin

text \<open>Actions that send a text, and their composition; \<open>k\<close> bounds the length of a single write.\<close>

definition sends :: "nat \<Rightarrow> nat \<Rightarrow> (unit, 's) call \<Rightarrow> bytes \<Rightarrow> bool" where
  "sends n k act text \<longleftrightarrow> (\<forall>s. inv s \<and> patience s + k < n \<and> k < 2 ^ 63 \<longrightarrow> (\<exists>s'. act s = (Ok (), s') \<and> inv s' \<and> pending s' = pending s \<and>
     sent s' = sent s @ encode text \<and> patience s' \<le> patience s))"

lemma sendsD:
  "sends n k act text \<Longrightarrow> inv s \<Longrightarrow> patience s + k < n \<Longrightarrow> k < 2 ^ 63 \<Longrightarrow> \<exists>s'. act s = (Ok (), s') \<and> inv s' \<and> pending s' = pending s \<and>
     sent s' = sent s @ encode text \<and> patience s' \<le> patience s"
  by (simp add: sends_def)

lemma sends_seq: "sends n k a t \<Longrightarrow> sends n k b u \<Longrightarrow> sends n k (\<lambda>s. tryS (a s) (\<lambda>_ s. b s)) (t @ u)"
  unfolding sends_def by (fastforce simp: encode_append)

lemma sends_nothing: "sends n k (\<lambda>s. (Ok (), s)) []"
  by (simp add: sends_def)

lemma sends_say: "fd \<in> sinks \<Longrightarrow> length t \<le> k \<Longrightarrow> sends n k (say sys n fd t) t"
  unfolding sends_def using say_all by fastforce

lemma sends_says: "fd \<in> sinks \<Longrightarrow> length (concat ts) \<le> k \<Longrightarrow> sends n k (says sys n fd ts) (concat ts)"
  unfolding sends_def using says_all [of _ fd ts n] by fastforce

lemma sends_number:
  assumes "1 \<in> sinks" and "num < 10 ^ 20" and "20 \<le> k"
  shows "sends n k (print_number sys n num) (digits num)"
proof (cases "num = 0")
  case True
  then have "print_number sys n num = say sys n 1 [48]" "digits num = [48]"
    by (simp_all add: print_number_def [abs_def] digits.simps [of 0])
  then show ?thesis using sends_say [OF assms(1)] assms(3) by simp
next
  case False
  have d: "digit_loop num [] = Ok (rev (digits num))"
    using digit_loop_digits [of num "[]"] False small_digits [OF assms(2)] by simp
  have c: "concat (map (\<lambda>b. [b]) xs) = xs" for xs :: bytes by (induction xs) auto
  have "print_number sys n num = says sys n 1 (map (\<lambda>b. [b]) (digits num))"
    using False by (simp add: print_number_def [abs_def] d)
  then show ?thesis
    using sends_says [OF assms(1), of "map (\<lambda>b. [b]) (digits num)" k n] small_digits [OF assms(2)] assms(3) by (simp add: c)
qed

lemma sends_wc_print:
  assumes "1 \<in> sinks" and "c_lines c < 10 ^ 20" and "c_words c < 10 ^ 20" and "c_bytes c < 10 ^ 20"
    and "20 + (case filename of Some name \<Rightarrow> length name | None \<Rightarrow> 0) \<le> k"
  shows "sends n k (wc_print sys n c filename) (digits (c_lines c) @ [32] @ digits (c_words c) @ [32] @ digits (c_bytes c) @
    (case filename of Some name \<Rightarrow> 32 # name | None \<Rightarrow> []) @ [10])"
proof -
  have k: "20 \<le> k" using assms(5) by simp
  have "sends n k (\<lambda>s. case filename of Some name \<Rightarrow> says sys n 1 [[32], name] s | None \<Rightarrow> (Ok (), s))
      (case filename of Some name \<Rightarrow> 32 # name | None \<Rightarrow> [])"
    using sends_says [OF assms(1), of "[[32], the filename]" k n] assms(5) sends_nothing
    by (cases filename) (simp_all del: says.simps One_nat_def)
  then show ?thesis
    unfolding wc_print_def [abs_def]
    using assms(2-4) k by (intro sends_seq sends_number [OF assms(1)] sends_say [OF assms(1)]) simp_all
qed

text \<open>\<^verbatim>\<open>get_arg\<close> returns the argument and says so on standard error.\<close>

lemma get_arg_all:
  assumes "inv s" and "2 \<in> sinks" and "index < length argv" and "argv ! index = arg" and "patience s + 300 < n"
    and "0 \<notin> set arg" and "length arg \<le> 100"
  shows "\<exists>s'. get_arg sys n argv index s = (Ok (Some arg), s') \<and> inv s' \<and> pending s' = pending s \<and>
    sent s' = sent s @ encode (get_arg_text arg) \<and> patience s' \<le> patience s"
proof -
  have "takeWhile (\<lambda>b. b \<noteq> 0) arg = arg" unfolding takeWhile_eq_all_conv using assms(6) by metis
  then have len: "get_arg_length arg = length arg" using assms(7) unfolding get_arg_length_def by presburger
  let ?first = "ascii ''[get_arg] called'' @ [10]"
  let ?then = "map (\<lambda>t. t @ [10]) [ascii ''[get_arg] got args slice'', ascii ''[get_arg] got ptr'',
    ascii ''[get_arg] looking for null'', ascii ''[get_arg] read first byte'']"
  let ?last = "if arg = [] then [ascii ''[get_arg] first byte is null!'' @ [10]]
    else [ascii ''[get_arg] first byte not null, entering loop'' @ [10]] @ get_arg_notes (length arg) @ [ascii ''[get_arg] found null!'' @ [10]]"
  have "length ?first \<le> 300" "length (concat ?then) \<le> 300" by (simp_all add: ascii_def)
  from sendsD [OF sends_say [OF assms(2) this(1)] assms(1,5)] sends_says [OF assms(2) this(2), of n] obtain s1 where
    s1: "say sys n 2 ?first s = (Ok (), s1)" "inv s1" "pending s1 = pending s" "sent s1 = sent s @ encode ?first" "patience s1 \<le> patience s"
    and two: "sends n 300 (says sys n 2 ?then) (concat ?then)" by auto
  from sendsD [OF two s1(2)] s1(5) assms(5) obtain s2 where
    s2: "says sys n 2 ?then s1 = (Ok (), s2)" "inv s2" "pending s2 = pending s1" "sent s2 = sent s1 @ encode (concat ?then)"
      "patience s2 \<le> patience s1" by auto
  have "length (concat ?last) \<le> 300" by (simp add: ascii_def get_arg_notes_def)
  from sendsD [OF sends_says [OF assms(2) this, of n] s2(2)] s2(5) s1(5) assms(5) obtain s3 where
    s3: "says sys n 2 ?last s2 = (Ok (), s3)" "inv s3" "pending s3 = pending s2" "sent s3 = sent s2 @ encode (concat ?last)"
      "patience s3 \<le> patience s2" by auto
  have "get_arg sys n argv index s = (Ok (Some arg), s3)"
  proof (cases "arg = []")
    case True
    then have "say sys n 2 (ascii ''[get_arg] first byte is null!'' @ [10]) s2 = (Ok (), s3)"
      using s3(1) by (simp add: says_single del: says.simps)
    with True show ?thesis using s1(1) s2(1) assms(3,4) len by (simp add: get_arg_def del: says.simps)
  next
    case False
    then show ?thesis using s1(1) s2(1) s3(1) assms(3,4) len by (simp add: get_arg_def Let_def del: says.simps)
  qed
  moreover have "get_arg_text arg = ?first @ concat ?then @ concat ?last" by (simp add: get_arg_text_def)
  then have "encode (get_arg_text arg) = encode ?first @ encode (concat ?then) @ encode (concat ?last)"
    by (simp only: encode_append)
  ultimately show ?thesis using s1 s2 s3 by simp
qed

end

context program_io
begin

lemma wc_loop_all:
  assumes "inv s" and "patience s < n" and "length (pending s) < m" and ends
  shows "\<exists>s'. wc_loop sys n m infd c s = (Ok (count_piece (pending s) c), s') \<and> inv s' \<and> pending s' = [] \<and>
    sent s' = sent s \<and> patience s' \<le> patience s"
  using assms
proof (induction m arbitrary: c s)
  case (Suc m)
  from lib_read_next [OF Suc.prems(1) _ Suc.prems(2), of 4096] Suc.prems(4) obtain data s1 where
    r: "lib_read sys n infd 4096 s = (Ok (int (length data), data), s1)" "inv s1" "sent s1 = sent s" "length data \<le> 4096"
      "pending s = data @ pending s1" "data = [] \<longrightarrow> pending s = []" "patience s1 \<le> patience s" by auto
  show ?case
  proof (cases "data = []")
    case True
    then show ?thesis using r by (auto simp: count_piece_def)
  next
    case False
    then have "length (pending s1) < m" using r(5) Suc.prems(3) by (cases data) auto
    with Suc.IH [OF r(2), of "count_piece data c"] Suc.prems(2,4) r(7) obtain s' where
      "wc_loop sys n m infd (count_piece data c) s1 = (Ok (count_piece (pending s1) (count_piece data c)), s')"
      "inv s'" "pending s' = []" "sent s' = sent s1" "patience s' \<le> patience s1" by auto
    then show ?thesis using r False by (simp add: count_piece_append)
  qed
qed simp

lemma wc_fd_all:
  assumes "inv s" and "1 \<in> sinks" and "length (pending s) < m" and "length (pending s) < 10 ^ 20"
    and "patience s + 40 + (case filename of Some name \<Rightarrow> length name | None \<Rightarrow> 0) < n"
    and "case filename of Some name \<Rightarrow> length name < 2 ^ 62 | None \<Rightarrow> True" and ends
  shows "\<exists>s'. wc_fd sys n m infd filename s =
      (Ok (count_list (pending s) 10, length (fields (pending s)), length (pending s)), s') \<and> inv s' \<and>
    pending s' = [] \<and> sent s' = sent s @ encode (wc_report (pending s) filename)"
proof -
  let ?c = "count_piece (pending s) \<lparr>c_lines = 0, c_words = 0, c_bytes = 0, c_in_word = False\<rparr>"
  have c: "c_lines ?c = count_list (pending s) 10" "c_words ?c = length (fields (pending s))" "c_bytes ?c = length (pending s)"
    using fold_count_byte [of "pending s"] by (simp_all add: count_piece_def words_left_def)
  have small: "c_lines ?c < 10 ^ 20" "c_words ?c < 10 ^ 20" "c_bytes ?c < 10 ^ 20"
    using assms(4) count_le_length [of "pending s" 10] length_fields_le [of "pending s"] unfolding c by auto
  from wc_loop_all [OF assms(1) _ assms(3,7), of n] assms(5) obtain s0 where s0:
    "wc_loop sys n m infd \<lparr>c_lines = 0, c_words = 0, c_bytes = 0, c_in_word = False\<rparr> s = (Ok ?c, s0)"
    "inv s0" "pending s0 = []" "sent s0 = sent s" "patience s0 \<le> patience s" by auto
  let ?k = "20 + (case filename of Some name \<Rightarrow> length name | None \<Rightarrow> 0)"
  have "patience s0 + ?k < n" "?k < 2 ^ 63" using assms(5,6) s0(5) by (auto split: option.splits)
  from sendsD [OF sends_wc_print [OF assms(2) small order_refl] s0(2) this] obtain s1 where
    s1: "wc_print sys n ?c filename s0 = (Ok (), s1)" "inv s1" "pending s1 = []" "sent s1 = sent s @ encode (wc_report (pending s) filename)"
    unfolding wc_report_def c [symmetric] using s0(3,4) by auto
  then show ?thesis by (simp add: wc_fd_def s0(1) c)
qed

lemma cat_fd_all:
  assumes "inv s" and "1 \<in> sinks" and "length (pending s) < m" and "patience s + 4096 < n" and ends
  shows "\<exists>s'. cat_fd sys n m infd s = (Ok (), s') \<and> inv s' \<and> pending s' = [] \<and> sent s' = sent s @ encode (pending s)"
  using assms
proof (induction m arbitrary: s)
  case (Suc m)
  from lib_read_next [OF Suc.prems(1), of 4096 n] Suc.prems(4,5) obtain data s1 where
    r: "lib_read sys n infd 4096 s = (Ok (int (length data), data), s1)" "inv s1" "sent s1 = sent s" "length data \<le> 4096"
      "pending s = data @ pending s1" "data = [] \<longrightarrow> pending s = []" "patience s1 \<le> patience s" by auto
  show ?case
  proof (cases "data = []")
    case True
    then show ?thesis using r by auto
  next
    case False
    then have m: "length (pending s1) < m" using r(5) Suc.prems(3) by (cases data) auto
    from say_all [OF r(2) Suc.prems(2), of data n] r(4,7) Suc.prems(4) obtain s2 where
      s2: "say sys n 1 data s1 = (Ok (), s2)" "inv s2" "pending s2 = pending s1" "sent s2 = sent s @ encode data" "patience s2 \<le> patience s1"
      using r(3) by auto
    from Suc.IH [OF s2(2) Suc.prems(2)] m Suc.prems(4,5) s2(3,5) r(7) obtain s' where
      "cat_fd sys n m infd s2 = (Ok (), s')" "inv s'" "pending s' = []" "sent s' = sent s2 @ encode (pending s2)" by auto
    then show ?thesis using r s2 False by (simp add: encode_append)
  qed
qed simp

end

section \<open>Properties\<close>

text \<open>
  C29. The counting of \<^verbatim>\<open>wc\<close>: however the input is cut into pieces, the loop over them counts the line feeds,
  the maximal pieces without white space and the bytes of the whole, which is also what
  \<^verbatim>\<open>count_lines\<close> and \<^verbatim>\<open>count_words\<close> count in one piece.
\<close>

theorem wc_counts:
  "let c = fold count_piece pieces \<lparr>c_lines = 0, c_words = 0, c_bytes = 0, c_in_word = False\<rparr>; data = concat pieces in
   c_lines c = count_list data 10 \<and> c_lines c = count_lines data \<and>
   c_words c = length (fields data) \<and> c_words c = count_words data \<and> c_bytes c = length data"
proof -
  have "fold count_piece pieces c = count_piece (concat pieces) c" for c
    by (induction pieces arbitrary: c) (simp_all add: count_piece_append, simp add: count_piece_def)
  then show ?thesis
    using fold_count_byte [of "concat pieces"]
    by (simp add: Let_def count_piece_def count_lines_def count_lines_loop_count count_words_def count_words_loop_left
        words_left_def)
qed

text \<open>
  C30. \<^verbatim>\<open>print_number\<close>: its buffer of twenty bytes is enough for every 64-bit number, and what it prints is the
  decimal numeral of the number: decimal digits that read back as the number.
\<close>

theorem print_number_decimal:
  assumes "num < 2 ^ 64"
  shows "(0 < num \<longrightarrow> digit_loop num [] = Ok (rev (digits num))) \<and> value_of (digits num) = num \<and>
    (\<forall>d \<in> set (digits num). 48 \<le> unat d \<and> unat d \<le> 57) \<and> length (digits num) \<le> 20"
proof -
  have "num < 10 ^ 20" using assms by simp
  then have "length (digits num) \<le> 20" by (rule small_digits)
  then show ?thesis using digit_loop_digits [of num "[]"] value_of_digits digits_decimal by simp
qed

theorem print_number_decimal_witness:
  "value_of (digits 18446744073709551615) = 18446744073709551615 \<and> length (digits 18446744073709551615) \<le> 20"
  using print_number_decimal [of 18446744073709551615] by simp

end
