(* ===== verification/UserKernel.thy ===== *)
theory UserKernel
  imports SyscallProps UserPrograms
begin

text \<open>
  User programs on the kernel: the stubs of \<^verbatim>\<open>user_bin/src/lib.rs\<close> and \<^verbatim>\<open>src/user.rs\<close> load the argument registers
  and trap; what the trap returns in \<^verbatim>\<open>a0\<close> is read as a signed number. Buffers, paths and argument
  arrays lie where the program has put them in its memory. A call during which another process is
  scheduled has no result here: the program goes on in a later state of the machine, which other
  processes have changed.
\<close>

section \<open>Trapping\<close>

text \<open>
  Where the program runs: what the allocator grants, the registers that carry no argument, and the
  addresses of a constant slice, of the buffer results come back in, and of the two argument arrays
  of \<^verbatim>\<open>spawn\<close>.
\<close>

record env =
  v_alloc_ok :: "nat \<Rightarrow> bool"
  v_regs :: TrapFrame
  v_src :: "bytes \<Rightarrow> u64"
  v_dst :: u64
  v_ptrs :: u64
  v_lens :: u64

definition ecall :: "env \<Rightarrow> TrapFrame \<Rightarrow> (int, kernel) call" where
  "ecall v tf k =
     (case handle_ecall (v_alloc_ok v) tf k of
        (Ok tf', k') \<Rightarrow> if current_pid (k_table k') = current_pid (k_table k) then (Ok (sint (a0 tf')), k') else (Hang, k')
      | (Err _, k') \<Rightarrow> (Panic, k')
      | (Panic, k') \<Rightarrow> (Panic, k')
      | (Hang, k') \<Rightarrow> (Hang, k'))"

text \<open>The program's memory with a slice in it.\<close>

definition put :: "env \<Rightarrow> bytes \<Rightarrow> kernel \<Rightarrow> kernel" where
  "put v b k = set_umem (mem_write (unat (v_src v b)) b (umem (k_machine k))) k"

definition slice_len :: "bytes \<Rightarrow> u64" where
  "slice_len b = word_of_nat (length b)"

section \<open>The stubs of lib.rs\<close>

definition u_write :: "env \<Rightarrow> u64 \<Rightarrow> u64 \<Rightarrow> u64 \<Rightarrow> (int, kernel) call" where
  "u_write v fd ptr len = ecall v ((v_regs v)\<lparr>a0 := SYS_WRITE, a1 := fd, a2 := ptr, a3 := len\<rparr>)"

definition u_exit :: "env \<Rightarrow> int \<Rightarrow> (int, kernel) call" where
  "u_exit v code = ecall v ((v_regs v)\<lparr>a0 := SYS_EXIT, a1 := word_of_int code\<rparr>)"

definition u_read_file :: "env \<Rightarrow> u64 \<Rightarrow> u64 \<Rightarrow> u64 \<Rightarrow> u64 \<Rightarrow> (int, kernel) call" where
  "u_read_file v path path_len buf buf_len =
     ecall v ((v_regs v)\<lparr>a0 := SYS_FILE_READ, a1 := path, a2 := path_len, a3 := buf, a4 := buf_len\<rparr>)"

definition u_write_file :: "env \<Rightarrow> u64 \<Rightarrow> u64 \<Rightarrow> u64 \<Rightarrow> u64 \<Rightarrow> (int, kernel) call" where
  "u_write_file v path path_len data data_len =
     ecall v ((v_regs v)\<lparr>a0 := SYS_FILE_WRITE, a1 := path, a2 := path_len, a3 := data, a4 := data_len\<rparr>)"

definition u_create_file :: "env \<Rightarrow> u64 \<Rightarrow> u64 \<Rightarrow> (int, kernel) call" where
  "u_create_file v path path_len = ecall v ((v_regs v)\<lparr>a0 := SYS_FILE_CREATE, a1 := path, a2 := path_len\<rparr>)"

definition u_delete_file :: "env \<Rightarrow> u64 \<Rightarrow> u64 \<Rightarrow> (int, kernel) call" where
  "u_delete_file v path path_len = ecall v ((v_regs v)\<lparr>a0 := SYS_FILE_DELETE, a1 := path, a2 := path_len\<rparr>)"

definition u_create_dir :: "env \<Rightarrow> u64 \<Rightarrow> u64 \<Rightarrow> (int, kernel) call" where
  "u_create_dir v path path_len = ecall v ((v_regs v)\<lparr>a0 := SYS_DIR_CREATE, a1 := path, a2 := path_len\<rparr>)"

definition u_delete_dir :: "env \<Rightarrow> u64 \<Rightarrow> u64 \<Rightarrow> (int, kernel) call" where
  "u_delete_dir v path path_len = ecall v ((v_regs v)\<lparr>a0 := SYS_DIR_DELETE, a1 := path, a2 := path_len\<rparr>)"

definition u_open :: "env \<Rightarrow> u64 \<Rightarrow> u64 \<Rightarrow> u64 \<Rightarrow> (int, kernel) call" where
  "u_open v path path_len flags = ecall v ((v_regs v)\<lparr>a0 := SYS_OPEN, a1 := path, a2 := path_len, a3 := flags\<rparr>)"

definition u_close :: "env \<Rightarrow> u64 \<Rightarrow> (int, kernel) call" where
  "u_close v fd = ecall v ((v_regs v)\<lparr>a0 := SYS_CLOSE, a1 := fd\<rparr>)"

definition u_read :: "env \<Rightarrow> u64 \<Rightarrow> u64 \<Rightarrow> u64 \<Rightarrow> (int, kernel) call" where
  "u_read v fd buf len = ecall v ((v_regs v)\<lparr>a0 := SYS_READ, a1 := fd, a2 := buf, a3 := len\<rparr>)"

definition u_dup2 :: "env \<Rightarrow> u64 \<Rightarrow> u64 \<Rightarrow> (int, kernel) call" where
  "u_dup2 v old_fd new_fd = ecall v ((v_regs v)\<lparr>a0 := SYS_DUP2, a1 := old_fd, a2 := new_fd\<rparr>)"

definition u_pipe :: "env \<Rightarrow> u64 \<Rightarrow> (int, kernel) call" where
  "u_pipe v fds = ecall v ((v_regs v)\<lparr>a0 := SYS_PIPE, a1 := fds\<rparr>)"

text \<open>
  \<^verbatim>\<open>spawn\<close> fills two arrays of sixteen words from its slice of arguments, given as pointers and
  lengths; the number passed is that of the slice, also beyond sixteen.
\<close>

fun fill_words :: "nat \<Rightarrow> nat list \<Rightarrow> mem \<Rightarrow> mem" where
  "fill_words addr [] m = m"
| "fill_words addr (w # ws) m = fill_words (addr + 8) ws (write_usize addr w m)"

definition arg_array :: "nat list \<Rightarrow> nat list" where
  "arg_array ws = take 16 ws @ replicate (16 - length ws) 0"

definition u_spawn :: "env \<Rightarrow> u64 \<Rightarrow> u64 \<Rightarrow> (u64 \<times> u64) list \<Rightarrow> (int, kernel) call" where
  "u_spawn v path path_len argv k =
     (let m = umem (k_machine k);
          m = fill_words (unat (v_ptrs v)) (arg_array (map (unat \<circ> fst) argv)) m;
          m = fill_words (unat (v_lens v)) (arg_array (map (unat \<circ> snd) argv)) m
      in ecall v ((v_regs v)\<lparr>a0 := SYS_SPAWN, a1 := path, a2 := path_len, a3 := v_ptrs v,
           a4 := word_of_nat (length argv), a5 := v_lens v\<rparr>) (set_umem m k))"

definition u_wait :: "env \<Rightarrow> u64 \<Rightarrow> (int, kernel) call" where
  "u_wait v status = ecall v ((v_regs v)\<lparr>a0 := SYS_WAIT, a1 := status\<rparr>)"

text \<open>The system calls of programs, with slices for pointers and lengths.\<close>

definition kernel_sys :: "env \<Rightarrow> kernel sys" where
  "kernel_sys v = \<lparr>
     e_write = (\<lambda>fd buf k. u_write v (word_of_nat fd) (v_src v buf) (slice_len buf) (put v buf k)),
     e_read = (\<lambda>fd len k. tryS (u_read v (word_of_nat fd) (v_dst v) (word_of_nat len) k) (\<lambda>ret k.
       (Ok (ret, mem_read (unat (v_dst v)) (nat ret) (umem (k_machine k))), k))),
     e_open = (\<lambda>path flags k. u_open v (v_src v path) (slice_len path) flags (put v path k)),
     e_close = (\<lambda>fd. u_close v (word_of_nat fd)),
     e_dup2 = (\<lambda>old_fd new_fd. u_dup2 v (word_of_nat old_fd) (word_of_nat new_fd)),
     e_pipe = (\<lambda>k. tryS (u_pipe v (v_dst v) k) (\<lambda>ret k.
       let m = umem (k_machine k); a = unat (v_dst v) in (Ok (ret, read_usize a m, read_usize (a + 8) m), k))),
     e_spawn = (\<lambda>path argv k. u_spawn v (v_src v path) (slice_len path) (map (\<lambda>a. (v_src v a, slice_len a)) argv)
       (fold (put v) (path # argv) k)),
     e_wait = u_wait v 0,
     e_exit = (\<lambda>code k. snd (u_exit v code k))\<rparr>"

section \<open>The stubs of user.rs\<close>

definition user_write :: "env \<Rightarrow> u64 \<Rightarrow> u64 \<Rightarrow> u64 \<Rightarrow> (int, kernel) call" where
  "user_write v fd buf len = ecall v ((v_regs v)\<lparr>a0 := SYS_WRITE, a1 := fd, a2 := buf, a3 := len\<rparr>)"

text \<open>\<^verbatim>\<open>exit\<close> waits for interrupts for ever when the call returns.\<close>

definition user_exit :: "env \<Rightarrow> int \<Rightarrow> (int, kernel) call" where
  "user_exit v code k =
     tryS (ecall v ((v_regs v)\<lparr>a0 := SYS_EXIT, a1 := word_of_int code\<rparr>) k) (\<lambda>_ k. (Hang, k))"

definition user_write_file :: "env \<Rightarrow> u64 \<Rightarrow> u64 \<Rightarrow> u64 \<Rightarrow> u64 \<Rightarrow> (int, kernel) call" where
  "user_write_file v path path_len data data_len =
     ecall v ((v_regs v)\<lparr>a0 := SYS_FILE_WRITE, a1 := path, a2 := path_len, a3 := data, a4 := data_len\<rparr>)"

definition user_read_file :: "env \<Rightarrow> u64 \<Rightarrow> u64 \<Rightarrow> u64 \<Rightarrow> u64 \<Rightarrow> (int, kernel) call" where
  "user_read_file v path path_len buf buf_len =
     ecall v ((v_regs v)\<lparr>a0 := SYS_FILE_READ, a1 := path, a2 := path_len, a3 := buf, a4 := buf_len\<rparr>)"

definition syscall_path_only :: "env \<Rightarrow> u64 \<Rightarrow> u64 \<Rightarrow> u64 \<Rightarrow> (int, kernel) call" where
  "syscall_path_only v sysno path path_len = ecall v ((v_regs v)\<lparr>a0 := sysno, a1 := path, a2 := path_len\<rparr>)"

definition user_create_file :: "env \<Rightarrow> u64 \<Rightarrow> u64 \<Rightarrow> (int, kernel) call" where
  "user_create_file v = syscall_path_only v SYS_FILE_CREATE"

definition user_remove_file :: "env \<Rightarrow> u64 \<Rightarrow> u64 \<Rightarrow> (int, kernel) call" where
  "user_remove_file v = syscall_path_only v SYS_FILE_DELETE"

definition user_create_dir :: "env \<Rightarrow> u64 \<Rightarrow> u64 \<Rightarrow> (int, kernel) call" where
  "user_create_dir v = syscall_path_only v SYS_DIR_CREATE"

definition user_remove_dir :: "env \<Rightarrow> u64 \<Rightarrow> u64 \<Rightarrow> (int, kernel) call" where
  "user_remove_dir v = syscall_path_only v SYS_DIR_DELETE"

section \<open>A process on its own\<close>

text \<open>The current process is running with a descriptor table, and no other process can run.\<close>

definition alone :: "FdTable \<Rightarrow> kernel \<Rightarrow> bool" where
  "alone t k \<longleftrightarrow> \<not> k_locked k \<and> table_ok (k_table k) \<and>
     (\<exists>p. get (k_table k) (current_pid (k_table k)) = Some p \<and> p_state p = Running \<and> p_fd_table p = t) \<and>
     (\<forall>q \<in> procs (k_table k). runnable q \<longrightarrow> p_pid q = current_pid (k_table k))"

lemma alone_fields [simp]:
  "alone t (k\<lparr>k_machine := m\<rparr>) = alone t k" "alone t (k\<lparr>k_fs := g\<rparr>) = alone t k" "alone t (k\<lparr>k_tx := ts\<rparr>) = alone t k"
  "alone t (k\<lparr>k_rx := b\<rparr>) = alone t k" "alone t (k\<lparr>k_pipes := ps\<rparr>) = alone t k" "alone t (set_umem mem k) = alone t k"
  "alone t (put v b k) = alone t k" "alone t (uart_write_bytes w b k) = alone t k"
  by (simp_all add: alone_def set_umem_def put_def uart_write_bytes_def)

lemma aloneD:
  assumes "alone t k"
  shows "\<not> k_locked k" "table_ok (k_table k)" "current_pid (k_table k) \<noteq> INVALID_PID" "length t = MAX_FDS"
    "\<exists>p. get (k_table k) (current_pid (k_table k)) = Some p \<and> p_state p = Running \<and> p_fd_table p = t"
proof -
  from assms obtain p where p: "get (k_table k) (current_pid (k_table k)) = Some p" "p_fd_table p = t"
    and ok: "table_ok (k_table k)" by (auto simp: alone_def)
  show "current_pid (k_table k) \<noteq> INVALID_PID" using pid_valid [OF ok get_procs [OF p(1)]] get_pid [OF p(1)] by simp
  show "length t = MAX_FDS" using table_ok_process [OF ok p(1)] p(2) by (simp add: process_ok_def)
qed (use assms in \<open>auto simp: alone_def\<close>)

lemma alone_set_fds:
  assumes "alone t k" and "length t' = MAX_FDS"
  shows "alone t' (set_fds (current_pid (k_table k)) t' k)"
proof -
  let ?pid = "current_pid (k_table k)" and ?f = "\<lambda>p. p\<lparr>p_fd_table := t'\<rparr>"
  from assms(1) obtain p where p: "get (k_table k) ?pid = Some p" "p_state p = Running" and ok: "table_ok (k_table k)"
    and others: "\<forall>q \<in> procs (k_table k). runnable q \<longrightarrow> p_pid q = ?pid" by (auto simp: alone_def)
  have ok': "table_ok (get_mut ?pid ?f (k_table k))" by (rule set_fds_ok(1) [OF ok p(1) assms(2)])
  have "p_pid q = ?pid" if "q \<in> procs (get_mut ?pid ?f (k_table k))" "runnable q" for q
  proof (cases "p_pid q = ?pid")
    case False
    have "get (get_mut ?pid ?f (k_table k)) (p_pid q) = Some q" using that(1) by (simp add: get_iff [OF ok'])
    then have "get (k_table k) (p_pid q) = Some q" using False by (simp add: pt.lookup_modify)
    then show ?thesis using others that(2) get_procs by blast
  qed
  then show ?thesis
    using assms(1) ok' p by (auto simp: alone_def set_fds_def pt.lookup_modify)
qed

text \<open>Such a process gets its result, and the kernel's line about the call goes to the console.\<close>

lemma ecall_alone:
  assumes run: "handler (v_alloc_ok v) tf (k\<lparr>k_machine := (k_machine k)\<lparr>sepc := sepc (k_machine k) + 4\<rparr>\<rparr>) = (r, k')"
    and r: "code_of r = Ok c" and k': "alone t k'" "current_pid (k_table k') = current_pid (k_table k)"
  shows "ecall v tf k = (Ok (sint c), report (call_note (current_pid (k_table k)) (a0 tf) c) k')"
proof -
  from aloneD(5) [OF k'(1)] obtain p where p: "get (k_table k') (current_pid (k_table k')) = Some p" "p_state p = Running" by blast
  have "\<not> list_ex (\<lambda>p. p_pid p \<noteq> current_pid (k_table k') \<and> runnable p) (get_all_processes (k_table k'))"
    using k'(1) by (auto simp: list_ex_iff set_get_all alone_def)
  then have "switch_decision (k_table k') = (False, False)"
    using p aloneD(3) [OF k'(1)] by (simp add: switch_decision_def Let_def)
  then have "handle_ecall (v_alloc_ok v) tf k =
      (Ok (tf\<lparr>a0 := c\<rparr>), report (call_note (current_pid (k_table k)) (a0 tf) c) k')"
    using run r k'(2) by (simp add: handle_ecall_def dispatch_def maybe_switch_def Let_def uart_write_bytes_def)
  then show ?thesis using k'(2) by (simp add: ecall_def)
qed


text \<open>The state after the trap, before the handler.\<close>

abbreviation trapped :: "kernel \<Rightarrow> kernel" where
  "trapped k \<equiv> k\<lparr>k_machine := (k_machine k)\<lparr>sepc := sepc (k_machine k) + 4\<rparr>\<rparr>"

lemma sint_of_nat: "n < 2 ^ 63 \<Longrightarrow> sint (word_of_nat n :: u64) = int n"
  by (simp add: sint_uint uint_nat unat_of_nat take_bit_eq_mod signed_take_bit_eq_if_positive bit_iff_odd)

lemma unat_fd: "fd < 16 \<Longrightarrow> unat (word_of_nat fd :: u64) = fd"
  by (simp add: unat_of_nat take_bit_eq_mod)

lemma unat_of_small: "n < 2 ^ 63 \<Longrightarrow> unat (word_of_nat n :: u64) = n"
  by (simp add: unat_of_nat take_bit_eq_mod)

lemma small_word_not_0: "0 < n \<Longrightarrow> n < 2 ^ 63 \<Longrightarrow> (word_of_nat n :: u64) \<noteq> 0"
  by (metis less_irrefl unat_of_small unat_0)

lemma on_descriptor_alone:
  assumes a: "alone t k" and fd: "fd < MAX_FDS" "t ! fd = Some d"
    and run: "operation d buf (k\<lparr>k_locked := True\<rparr>) = (r, d', buf', k1\<lparr>k_locked := True\<rparr>)"
    and same: "k_table k1 = k_table k"
  shows "on_descriptor operation (current_pid (k_table k)) fd buf k =
    (pipe_of d, buf', r, (set_fds (current_pid (k_table k)) (t[fd := Some d']) k1)\<lparr>k_locked := False\<rparr>)"
proof -
  from aloneD(5) [OF a] obtain p where p: "get (k_table k) (current_pid (k_table k)) = Some p" "p_fd_table p = t" by blast
  show ?thesis using p fd run aloneD(1) [OF a] by (simp add: on_descriptor_def fd_get_def set_fds_def)
qed

lemma alone_after:
  assumes a: "alone t k" and t': "length t' = MAX_FDS" and same: "k_table k1 = k_table k"
  shows "alone t' ((set_fds (current_pid (k_table k)) t' k1)\<lparr>k_locked := False\<rparr>)"
proof -
  have "alone t (k1\<lparr>k_locked := False\<rparr>)" using a same by (simp add: alone_def)
  from alone_set_fds [OF this t'] show ?thesis using same by (simp add: set_fds_def alone_def)
qed

section \<open>The console and files\<close>

text \<open>
  What goes out on the console from one state to a later one: whatever the program writes, and of the
  kernel only the lines about the program's own calls.
\<close>

definition noted :: "kernel \<Rightarrow> kernel \<Rightarrow> bool" where
  "noted k k' \<longleftrightarrow> (\<exists>ts. k_tx k' = k_tx k @ ts \<and>
     (\<forall>b. (ByKernel, b) \<in> set ts \<longrightarrow> (\<exists>num ret. b = console (call_note (current_pid (k_table k)) num ret))))"

lemma noted_refl: "noted k k"
  by (simp add: noted_def)

lemma noted_trans:
  assumes "noted a b" and "noted b c" and "current_pid (k_table b) = current_pid (k_table a)"
  shows "noted a c"
proof -
  from assms(1,2) obtain ts us where "k_tx b = k_tx a @ ts" "k_tx c = k_tx b @ us"
    "\<forall>x. (ByKernel, x) \<in> set ts \<or> (ByKernel, x) \<in> set us \<longrightarrow> (\<exists>num ret. x = console (call_note (current_pid (k_table a)) num ret))"
    unfolding noted_def assms(3) by blast
  then show ?thesis unfolding noted_def by (intro exI [of _ "ts @ us"]) auto
qed

lemma noted_call:
  "k_tx k' = k_tx k @ [(ByKernel, console (call_note (current_pid (k_table k)) num ret))] \<Longrightarrow> noted k k'"
  "k_tx k' = k_tx k @ [(ByProgram, b), (ByKernel, console (call_note (current_pid (k_table k)) num ret))] \<Longrightarrow> noted k k'"
  by (auto simp: noted_def)

text \<open>What a call leaves alone.\<close>

definition keeps_files :: "kernel \<Rightarrow> kernel \<Rightarrow> bool" where
  "keeps_files k k' \<longleftrightarrow> k_fs k' = k_fs k \<and> k_rx k' = k_rx k \<and> k_pipes k' = k_pipes k \<and>
     current_pid (k_table k') = current_pid (k_table k) \<and> noted k k'"

lemma keeps_files_refl: "keeps_files k k"
  by (simp add: keeps_files_def noted_refl)

lemma keeps_files_trans: "keeps_files a b \<Longrightarrow> keeps_files b c \<Longrightarrow> keeps_files a c"
  using noted_trans [of a b c] by (simp add: keeps_files_def)

text \<open>A call that writes nothing to the console: only the kernel's line about it goes out.\<close>

lemma ecall_quiet:
  assumes "handler (v_alloc_ok v) tf (trapped k) = (r, k')" and "code_of r = Ok c" and "alone t k'"
    and "current_pid (k_table k') = current_pid (k_table k)" and "k_tx k' = k_tx k"
  obtains k'' where "ecall v tf k = (Ok (sint c), k'')" "alone t k''" "printed k'' = printed k" "noted k k''"
    "k_table k'' = k_table k'" "k_fs k'' = k_fs k'" "k_rx k'' = k_rx k'" "k_pipes k'' = k_pipes k'" "k_machine k'' = k_machine k'"
proof -
  let ?k = "report (call_note (current_pid (k_table k)) (a0 tf) c) k'"
  have "noted k ?k" by (rule noted_call(1)) (simp add: assms(5))
  then show ?thesis using that [of ?k] ecall_alone [OF assms(1-4)] assms(3,5) by (simp add: printed_def)
qed

lemma console_write:
  assumes a: "alone t k" and fd: "fd < MAX_FDS" "t ! fd = Some (FdUart UartWrite)"
    and buf: "buf \<noteq> []" "length buf < 2 ^ 63" and ptr: "v_src v buf \<noteq> 0"
  shows "\<exists>k'. e_write (kernel_sys v) fd buf k = (Ok (int (length buf)), k') \<and> alone t k' \<and>
    printed k' = printed k @ console buf \<and> keeps_files k k' \<and>
    k_table k' = get_mut (current_pid (k_table k)) (\<lambda>p. p\<lparr>p_fd_table := t\<rparr>) (k_table k)"
proof -
  let ?tf = "(v_regs v)\<lparr>a0 := SYS_WRITE, a1 := word_of_nat fd, a2 := v_src v buf, a3 := slice_len buf\<rparr>"
  let ?k = "trapped (put v buf k)"
  let ?op = "\<lambda>d buf k. case descriptor_write d buf k of (r, d, k) \<Rightarrow> (r, d, buf, k)"
  have a1: "alone t ?k" using a by simp
  have len: "unat (slice_len buf) = length buf" "slice_len buf \<noteq> 0"
    using buf unat_of_small small_word_not_0 by (simp_all add: slice_len_def)
  have mem: "mem_read (unat (v_src v buf)) (length buf) (umem (k_machine ?k)) = buf"
    by (simp add: put_def set_umem_def)
  have u: "?op (FdUart UartWrite) buf (?k\<lparr>k_locked := True\<rparr>) =
      (Ok (length buf), FdUart UartWrite, buf, (uart_write_bytes ByProgram buf ?k)\<lparr>k_locked := True\<rparr>)"
    by (simp add: uart_write_bytes_def)
  have upd: "t[fd := Some (FdUart UartWrite)] = t" by (metis list_update_id fd(2))
  let ?k' = "(set_fds (current_pid (k_table ?k)) t (uart_write_bytes ByProgram buf ?k))\<lparr>k_locked := False\<rparr>"
  let ?k1 = "report (call_note (current_pid (k_table k)) SYS_WRITE (word_of_nat (length buf))) ?k'"
  have "on_descriptor ?op (current_pid (k_table ?k)) fd buf ?k = (None, buf, Ok (length buf), ?k')"
    using on_descriptor_alone [of t ?k fd "FdUart UartWrite" ?op, OF a1 fd u] upd by (simp add: pipe_of_def uart_write_bytes_def)
  then have "sys_write ?tf ?k = (Ok (word_of_nat (length buf)), ?k')"
    using len mem ptr buf(2) fd(1) by (simp add: sys_write_def from_raw_parts_def Let_def unat_fd)
  then have "handler (v_alloc_ok v) ?tf ?k = (Ok (word_of_nat (length buf)), ?k')" by (simp add: handler_def)
  moreover have "alone t ?k'"
    using alone_after [OF a1, of t "uart_write_bytes ByProgram buf ?k"] aloneD(4) [OF a] by (simp add: uart_write_bytes_def)
  ultimately have "ecall v ?tf (put v buf k) = (Ok (int (length buf)), ?k1)"
    using ecall_alone [of v ?tf "put v buf k" "Ok (word_of_nat (length buf))" ?k'] buf(2)
    by (simp add: sint_of_nat set_fds_def put_def set_umem_def)
  moreover have tx: "k_tx ?k1 = k_tx k @ [(ByProgram, console buf),
      (ByKernel, console (call_note (current_pid (k_table k)) SYS_WRITE (word_of_nat (length buf))))]"
    by (simp add: set_fds_def put_def set_umem_def)
  moreover note noted_call(2) [OF tx]
  ultimately show ?thesis
    using \<open>alone t ?k'\<close>
    by (simp add: kernel_sys_def u_write_def keeps_files_def set_fds_def put_def set_umem_def printed_def del: uart_write_fields(7))
qed

lemma file_read_next:
  assumes a: "alone t k" and fd: "fd < MAX_FDS" "t ! fd = Some (FdFile f)" "m_read (f_mode f)"
    and data: "fs_read_file (k_fs k) (f_path f) = (Ok data, k_fs k)"
    and buf: "0 < len" "len < 2 ^ 63" "length data < 2 ^ 63" and ptr: "v_dst v \<noteq> 0"
  shows "\<exists>k' n. e_read (kernel_sys v) fd len k = (Ok (int n, take n (drop (f_pos f) data)), k') \<and>
    n = min len (length data - f_pos f) \<and> alone (t[fd := Some (FdFile (f\<lparr>f_pos := f_pos f + n\<rparr>))]) k' \<and>
    printed k' = printed k \<and> keeps_files k k'"
proof -
  let ?tf = "(v_regs v)\<lparr>a0 := SYS_READ, a1 := word_of_nat fd, a2 := v_dst v, a3 := word_of_nat len\<rparr>"
  let ?k = "trapped k" and ?n = "min len (length data - f_pos f)"
  let ?buf = "mem_read (unat (v_dst v)) len (umem (k_machine k))" and ?f = "f\<lparr>f_pos := f_pos f + min len (length data - f_pos f)\<rparr>"
  let ?out = "put_slice 0 (take ?n (drop (f_pos f) data)) ?buf"
  have a1: "alone t ?k" using a by simp
  have "descriptor_read (FdFile f) ?buf (?k\<lparr>k_locked := True\<rparr>) = (Ok ?n, FdFile ?f, ?out, ?k\<lparr>k_locked := True\<rparr>)"
  proof (cases "length data \<le> f_pos f")
    case True
    then show ?thesis using data fd(3) by (simp add: file_read_def put_slice_def)
  next
    case False
    then show ?thesis using data fd(3) by (simp add: file_read_def Let_def slice_def)
  qed
  then have o: "on_descriptor descriptor_read (current_pid (k_table ?k)) fd ?buf ?k =
      (None, ?out, Ok ?n, (set_fds (current_pid (k_table ?k)) (t[fd := Some (FdFile ?f)]) ?k)\<lparr>k_locked := False\<rparr>)"
    using on_descriptor_alone [of t ?k fd "FdFile f" descriptor_read, OF a1 fd(1,2)] by (simp add: pipe_of_def)
  let ?k1 = "(set_fds (current_pid (k_table ?k)) (t[fd := Some (FdFile ?f)]) ?k)\<lparr>k_locked := False\<rparr>"
  let ?k' = "set_umem (mem_write (unat (v_dst v)) ?out (umem (k_machine ?k1))) ?k1"
  have "sys_read ?tf ?k = (Ok (word_of_nat ?n), ?k')"
    using o ptr buf fd(1) small_word_not_0 [of len]
    by (simp add: sys_read_def from_raw_parts_def Let_def unat_fd unat_of_small [OF buf(2)])
  then have h: "handler (v_alloc_ok v) ?tf ?k = (Ok (word_of_nat ?n), ?k')" by (simp add: handler_def sys_numbers)
  have a': "alone (t[fd := Some (FdFile ?f)]) ?k'"
    using alone_after [OF a1, of "t[fd := Some (FdFile ?f)]" ?k] aloneD(4) [OF a] by simp
  have "sint (word_of_nat ?n :: u64) = int ?n" using sint_of_nat [of ?n] buf(2) by simp
  with ecall_quiet [OF h _ a', of "word_of_nat ?n"] obtain k' where
    e: "ecall v ?tf k = (Ok (int ?n), k')" "alone (t[fd := Some (FdFile ?f)]) k'" "printed k' = printed k" "noted k k'"
      "k_table k' = k_table ?k'" "k_fs k' = k_fs ?k'" "k_rx k' = k_rx ?k'" "k_pipes k' = k_pipes ?k'" "k_machine k' = k_machine ?k'"
    by (auto simp: set_fds_def set_umem_def)
  have "mem_read (unat (v_dst v)) ?n (umem (k_machine k')) = take ?n (drop (f_pos f) data)"
    by (simp add: e(9) set_umem_def set_fds_def mem_read_write_prefix put_slice_def)
  then have "e_read (kernel_sys v) fd len k = (Ok (int ?n, take ?n (drop (f_pos f) data)), k')"
    using e(1) by (simp add: kernel_sys_def u_read_def)
  then show ?thesis using e(2-8) by (auto simp: keeps_files_def set_fds_def set_umem_def)
qed

section \<open>The contracts of the library on the kernel\<close>

text \<open>A program's addresses are not null; its standard output and error are the console.\<close>

definition talks :: "env \<Rightarrow> FdTable \<Rightarrow> bool" where
  "talks v t \<longleftrightarrow> (\<forall>b. v_src v b \<noteq> 0) \<and> v_dst v \<noteq> 0 \<and>
     t ! 1 = Some (FdUart UartWrite) \<and> t ! 2 = Some (FdUart UartWrite)"

text \<open>A program that writes to the console, in a kernel that was \<open>k0\<close>.\<close>

definition writing :: "env \<Rightarrow> kernel \<Rightarrow> FdTable \<Rightarrow> kernel \<Rightarrow> bool" where
  "writing v k0 t k \<longleftrightarrow> talks v t \<and> alone t k \<and> keeps_files k0 k"

interpretation console_out: program_out "kernel_sys v" "writing v k0 t" "\<lambda>_. ()" printed "{1, 2}" console "\<lambda>_. 0" for v k0 t
proof
  fix k :: kernel and fd :: nat and buf :: bytes
  assume k: "writing v k0 t k" and fd: "fd \<in> {1, 2}" and buf: "buf \<noteq> []" "length buf < 2 ^ 63"
  then have "fd < MAX_FDS" "t ! fd = Some (FdUart UartWrite)" "v_src v buf \<noteq> 0" "alone t k" "keeps_files k0 k" "talks v t"
    by (auto simp: writing_def talks_def)
  with console_write [OF this(4,1,2) buf this(3)] keeps_files_trans [of k0 k] buf(1)
  show "\<exists>ret k'. e_write (kernel_sys v) fd buf k = (Ok ret, k') \<and> writing v k0 t k' \<and> () = () \<and>
      (ret = EAGAIN \<and> printed k' = printed k \<and> 0 < (0 :: nat) \<or>
       0 < ret \<and> ret \<le> int (length buf) \<and> printed k' = printed k @ console (take (nat ret) buf) \<and> 0 \<le> (0 :: nat))"
    by (fastforce simp: writing_def)
qed (rule console_append)

text \<open>
  A program that also has the file \<open>path\<close> open under the number \<open>fd\<close>, with the contents \<open>data\<close>, and what it has not read
  of it.
\<close>

definition reading :: "env \<Rightarrow> kernel \<Rightarrow> FdTable \<Rightarrow> nat \<Rightarrow> bytes \<Rightarrow> bytes \<Rightarrow> kernel \<Rightarrow> bool" where
  "reading v k0 t fd path data k \<longleftrightarrow> talks v t \<and> keeps_files k0 k \<and> fd \<notin> {1, 2} \<and> fd < MAX_FDS \<and> length data < 2 ^ 63 \<and>
     fs_read_file (k_fs k) path = (Ok data, k_fs k) \<and>
     (\<exists>f. alone (t[fd := Some (FdFile f)]) k \<and> f_path f = path \<and> m_read (f_mode f))"

definition unread :: "nat \<Rightarrow> bytes \<Rightarrow> kernel \<Rightarrow> bytes" where
  "unread fd data k =
     (case get (k_table k) (current_pid (k_table k)) of
        Some p \<Rightarrow> (case p_fd_table p ! fd of Some (FdFile f) \<Rightarrow> drop (f_pos f) data | _ \<Rightarrow> [])
      | None \<Rightarrow> [])"

lemma unread_alone: "alone t k \<Longrightarrow> t ! fd = Some (FdFile f) \<Longrightarrow> unread fd data k = drop (f_pos f) data"
  by (auto simp: alone_def unread_def)

interpretation file_in: program_io "kernel_sys v" "reading v k0 t fd path data" "unread fd data" printed "{1, 2}" console "\<lambda>_. 0" fd True
  for v k0 t fd path data
proof
  fix k :: kernel and out :: nat and buf :: bytes
  assume k: "reading v k0 t fd path data k" and out: "out \<in> {1, 2}" and buf: "buf \<noteq> []" "length buf < 2 ^ 63"
  from k obtain f where f: "alone (t[fd := Some (FdFile f)]) k" "f_path f = path" "m_read (f_mode f)"
    by (auto simp: reading_def)
  let ?t = "t[fd := Some (FdFile f)]"
  have "fd < length ?t" using k aloneD(4) [OF f(1)] by (simp add: reading_def)
  then have fd: "?t ! fd = Some (FdFile f)" by simp
  have "out < MAX_FDS" "?t ! out = Some (FdUart UartWrite)" "v_src v buf \<noteq> 0"
    using k out by (auto simp: reading_def talks_def)
  from console_write [OF f(1) this(1,2) buf this(3)] obtain k' where
    k': "e_write (kernel_sys v) out buf k = (Ok (int (length buf)), k')" "alone ?t k'" "printed k' = printed k @ console buf"
      "keeps_files k k'" by blast
  then have "reading v k0 t fd path data k'" using k f(2,3) keeps_files_trans [of k0 k k'] by (auto simp: reading_def keeps_files_def)
  moreover have "unread fd data k' = unread fd data k" by (simp only: unread_alone [OF k'(2) fd] unread_alone [OF f(1) fd])
  ultimately show "\<exists>ret k'. e_write (kernel_sys v) out buf k = (Ok ret, k') \<and> reading v k0 t fd path data k' \<and>
      unread fd data k' = unread fd data k \<and>
      (ret = EAGAIN \<and> printed k' = printed k \<and> 0 < (0 :: nat) \<or>
       0 < ret \<and> ret \<le> int (length buf) \<and> printed k' = printed k @ console (take (nat ret) buf) \<and> 0 \<le> (0 :: nat))"
    using k' buf(1) by auto
next
  fix k :: kernel and len :: nat
  assume k: "reading v k0 t fd path data k" and len: "0 < len" "len < 2 ^ 63"
  from k obtain f where f: "alone (t[fd := Some (FdFile f)]) k" "f_path f = path" "m_read (f_mode f)"
    by (auto simp: reading_def)
  let ?t = "t[fd := Some (FdFile f)]"
  have l: "fd < length ?t" "fd < MAX_FDS" using k aloneD(4) [OF f(1)] by (simp_all add: reading_def)
  then have fd: "?t ! fd = Some (FdFile f)" by simp
  have "fs_read_file (k_fs k) (f_path f) = (Ok data, k_fs k)" "length data < 2 ^ 63" "v_dst v \<noteq> 0"
    using k f(2) by (auto simp: reading_def talks_def)
  from file_read_next [OF f(1) l(2) fd f(3) this(1) len this(2,3)] obtain k' n where
    k': "e_read (kernel_sys v) fd len k = (Ok (int n, take n (drop (f_pos f) data)), k')" "n = min len (length data - f_pos f)"
      "alone (t[fd := Some (FdFile (f\<lparr>f_pos := f_pos f + n\<rparr>))]) k'" "printed k' = printed k" "keeps_files k k'" by auto
  have "reading v k0 t fd path data k'"
    using k k'(3,5) f(2,3) keeps_files_trans [of k0 k k'] by (auto simp: reading_def keeps_files_def intro!: exI [of _ "f\<lparr>f_pos := f_pos f + n\<rparr>"])
  moreover have "unread fd data k = take n (drop (f_pos f) data) @ unread fd data k'"
    using unread_alone [OF k'(3), of fd "f\<lparr>f_pos := f_pos f + n\<rparr>"] l(1) unread_alone [OF f(1) fd, of data]
    by (simp add: add.commute flip: drop_drop)
  moreover have "length (take n (drop (f_pos f) data)) = n" "n \<le> len" "n = 0 \<longrightarrow> unread fd data k = []"
    using k'(2) len(1) unread_alone [OF f(1) fd, of data] by (auto simp: min_def split: if_splits)
  ultimately show "\<exists>ret out k'. e_read (kernel_sys v) fd len k = (Ok (ret, out), k') \<and> reading v k0 t fd path data k' \<and> printed k' = printed k \<and>
      (ret = EAGAIN \<and> unread fd data k' = unread fd data k \<and> 0 < (0 :: nat) \<or>
       0 \<le> ret \<and> length out = nat ret \<and> nat ret \<le> len \<and> unread fd data k = out @ unread fd data k' \<and>
       (ret = 0 \<longrightarrow> unread fd data k = []) \<and> 0 \<le> (0 :: nat))"
    using k'(1,4) by (intro exI [of _ "int n"] exI [of _ "take n (drop (f_pos f) data)"] exI [of _ k']) auto
qed (rule console_append)

text \<open>A program that reads from the console: one byte at a time, as long as some are to come.\<close>

definition typing :: "env \<Rightarrow> kernel \<Rightarrow> FdTable \<Rightarrow> kernel \<Rightarrow> bool" where
  "typing v k0 t k \<longleftrightarrow> talks v t \<and> t ! 0 = Some (FdUart UartRead) \<and> alone t k \<and> k_fs k = k_fs k0 \<and> k_pipes k = k_pipes k0 \<and>
     current_pid (k_table k) = current_pid (k_table k0) \<and> noted k0 k"

lemma console_read:
  assumes a: "alone t k" and fd: "t ! 0 = Some (FdUart UartRead)" and rx: "k_rx k = b # bs"
    and buf: "0 < len" "len < 2 ^ 63" and ptr: "v_dst v \<noteq> 0"
  shows "\<exists>k'. e_read (kernel_sys v) 0 len k = (Ok (1, [b]), k') \<and> alone t k' \<and> printed k' = printed k \<and> k_rx k' = bs \<and>
    keeps_files (k\<lparr>k_rx := bs\<rparr>) k'"
proof -
  let ?tf = "(v_regs v)\<lparr>a0 := SYS_READ, a1 := 0, a2 := v_dst v, a3 := word_of_nat len\<rparr>"
  let ?k = "trapped k" and ?buf = "mem_read (unat (v_dst v)) len (umem (k_machine k))"
  let ?k1 = "?k\<lparr>k_rx := bs\<rparr>"
  have a1: "alone t ?k" using a by simp
  have "?buf \<noteq> []" using buf(1) by (metis length_mem_read length_0_conv less_irrefl)
  then have "descriptor_read (FdUart UartRead) ?buf (?k\<lparr>k_locked := True\<rparr>) =
      (Ok 1, FdUart UartRead, ?buf[0 := b], ?k1\<lparr>k_locked := True\<rparr>)"
    using rx by (simp add: read_byte_blocking_def)
  moreover have "t[0 := Some (FdUart UartRead)] = t" by (metis list_update_id fd)
  ultimately have o: "on_descriptor descriptor_read (current_pid (k_table ?k)) 0 ?buf ?k =
      (None, ?buf[0 := b], Ok 1, (set_fds (current_pid (k_table ?k)) t ?k1)\<lparr>k_locked := False\<rparr>)"
    using on_descriptor_alone [of t ?k 0 "FdUart UartRead" descriptor_read ?buf, OF a1 _ fd] by (simp add: pipe_of_def)
  let ?k2 = "(set_fds (current_pid (k_table ?k)) t ?k1)\<lparr>k_locked := False\<rparr>"
  let ?k' = "set_umem (mem_write (unat (v_dst v)) (?buf[0 := b]) (umem (k_machine ?k2))) ?k2"
  have "sys_read ?tf ?k = (Ok 1, ?k')"
    using o ptr buf small_word_not_0 [of len]
    by (simp add: sys_read_def from_raw_parts_def Let_def unat_of_small [OF buf(2)])
  then have h: "handler (v_alloc_ok v) ?tf ?k = (Ok 1, ?k')" by (simp add: handler_def sys_numbers)
  have a': "alone t ?k'" using alone_after [OF a1, of t ?k1] aloneD(4) [OF a] by simp
  from ecall_quiet [OF h _ a', of 1] obtain k' where
    e: "ecall v ?tf k = (Ok 1, k')" "alone t k'" "printed k' = printed k" "noted k k'"
      "k_table k' = k_table ?k'" "k_fs k' = k_fs ?k'" "k_rx k' = k_rx ?k'" "k_pipes k' = k_pipes ?k'" "k_machine k' = k_machine ?k'"
    by (auto simp: set_fds_def set_umem_def)
  have "mem_read (unat (v_dst v)) 1 (umem (k_machine k')) = [b]"
    using mem_read_write_prefix [of 1 "?buf[0 := b]"] buf(1) \<open>?buf \<noteq> []\<close>
    by (cases ?buf) (simp_all add: e(9) set_umem_def set_fds_def)
  then have "e_read (kernel_sys v) 0 len k = (Ok (1, [b]), k')" using e(1) by (simp add: kernel_sys_def u_read_def)
  then show ?thesis using e(2-8) by (simp add: keeps_files_def set_fds_def set_umem_def noted_def)
qed

interpretation console_in: program_io "kernel_sys v" "typing v k0 t" k_rx printed "{1, 2}" console "\<lambda>_. 0" 0 False for v k0 t
proof
  fix k :: kernel and fd :: nat and buf :: bytes
  assume k: "typing v k0 t k" and fd: "fd \<in> {1, 2}" and buf: "buf \<noteq> []" "length buf < 2 ^ 63"
  then have "fd < MAX_FDS" "t ! fd = Some (FdUart UartWrite)" "v_src v buf \<noteq> 0" "alone t k"
    by (auto simp: typing_def talks_def)
  from console_write [OF this(4,1,2) buf this(3)] obtain k' where
    k': "e_write (kernel_sys v) fd buf k = (Ok (int (length buf)), k')" "alone t k'" "printed k' = printed k @ console buf"
      "keeps_files k k'" by blast
  then have "typing v k0 t k'" using k noted_trans [of k0 k k'] by (simp add: typing_def keeps_files_def)
  with k' buf(1)
  show "\<exists>ret k'. e_write (kernel_sys v) fd buf k = (Ok ret, k') \<and> typing v k0 t k' \<and> k_rx k' = k_rx k \<and>
      (ret = EAGAIN \<and> printed k' = printed k \<and> 0 < (0 :: nat) \<or>
       0 < ret \<and> ret \<le> int (length buf) \<and> printed k' = printed k @ console (take (nat ret) buf) \<and> 0 \<le> (0 :: nat))"
    by (fastforce simp: typing_def keeps_files_def)
next
  fix k :: kernel and len :: nat
  assume k: "typing v k0 t k" and len: "0 < len" "len < 2 ^ 63" and "k_rx k \<noteq> [] \<or> False"
  then obtain b bs where rx: "k_rx k = b # bs" by (cases "k_rx k") auto
  have "alone t k" "t ! 0 = Some (FdUart UartRead)" "v_dst v \<noteq> 0" using k by (auto simp: typing_def talks_def)
  from console_read [OF this(1,2) rx len this(3)] obtain k' where
    k': "e_read (kernel_sys v) 0 len k = (Ok (1, [b]), k')" "alone t k'" "printed k' = printed k" "k_rx k' = bs"
      "keeps_files (k\<lparr>k_rx := bs\<rparr>) k'" by blast
  then have "noted k k'" by (simp add: keeps_files_def noted_def)
  then have "typing v k0 t k'" using k k' noted_trans [of k0 k k'] by (simp add: typing_def keeps_files_def)
  with k' rx len
  show "\<exists>ret out k'. e_read (kernel_sys v) 0 len k = (Ok (ret, out), k') \<and> typing v k0 t k' \<and> printed k' = printed k \<and>
      (ret = EAGAIN \<and> k_rx k' = k_rx k \<and> 0 < (0 :: nat) \<or>
       0 \<le> ret \<and> length out = nat ret \<and> nat ret \<le> len \<and> k_rx k = out @ k_rx k' \<and>
       (ret = 0 \<longrightarrow> k_rx k = []) \<and> 0 \<le> (0 :: nat))"
    by (fastforce simp: typing_def keeps_files_def)
qed (rule console_append)

section \<open>Opening and closing\<close>

lemma with_current_alone:
  assumes a: "alone t k" and run: "f t (k\<lparr>k_locked := True\<rparr>) = (r, t', k1\<lparr>k_locked := True\<rparr>)" and same: "k_table k1 = k_table k"
  shows "with_current_fd_table_mut f k = (map_err SysFd r, (set_fds (current_pid (k_table k)) t' k1)\<lparr>k_locked := False\<rparr>)"
proof -
  from aloneD(5) [OF a] obtain p where p: "get (k_table k) (current_pid (k_table k)) = Some p" "p_fd_table p = t" by blast
  show ?thesis
    using p run aloneD(1,3) [OF a] by (simp add: with_current_fd_table_mut_def with_lock_def Let_def set_fds_def)
qed

lemma open_file:
  assumes a: "alone t k" and slot: "position (\<lambda>slot. slot = None) t = Some fd"
    and path: "from_utf8 path = Some path" "path \<noteq> []" "length path < 2 ^ 63" "v_src v path \<noteq> 0"
    and data: "fs_read_file (k_fs k) path = (Ok data, k_fs k)"
  shows "\<exists>k'. e_open (kernel_sys v) path O_READ k = (Ok (int fd), k') \<and>
    alone (t[fd := Some (FdFile \<lparr>f_path = path, f_pos = 0, f_mode = read_only\<rparr>)]) k' \<and> printed k' = printed k \<and> keeps_files k k'"
proof -
  let ?tf = "(v_regs v)\<lparr>a0 := SYS_OPEN, a1 := v_src v path, a2 := slice_len path, a3 := O_READ\<rparr>"
  let ?k = "trapped (put v path k)"
  let ?f = "\<lparr>f_path = path, f_pos = 0, f_mode = read_only\<rparr>" and ?t = "t[fd := Some (FdFile \<lparr>f_path = path, f_pos = 0, f_mode = read_only\<rparr>)]"
  have a1: "alone t ?k" using a by simp
  have fd: "fd < MAX_FDS" using position_SomeD [OF slot] aloneD(4) [OF a] by simp
  have len: "unat (slice_len path) = length path" "slice_len path \<noteq> 0"
    using path unat_of_small small_word_not_0 by (simp_all add: slice_len_def)
  have rp: "read_path (v_src v path) (slice_len path) ?k = Ok path"
    using len path by (simp add: read_path_def from_raw_parts_def put_def set_umem_def)
  have fs: "k_fs ?k = k_fs k" by (simp add: put_def set_umem_def)
  have mode: "mode_of_flags O_READ = read_only" by (simp add: mode_of_flags_def O_READ_def read_only_def)
  have fo: "file_open path read_only ?k = (Ok ?f, ?k)"
    using data fs by (simp add: file_open_def read_only_def Let_def put_def set_umem_def)
  let ?k' = "(set_fds (current_pid (k_table ?k)) ?t ?k)\<lparr>k_locked := False\<rparr>"
  have "with_current_fd_table_mut (\<lambda>t k. case fd_alloc t (FdFile ?f) of (r, t) \<Rightarrow> (r, t, k)) ?k = (Ok fd, ?k')"
    using with_current_alone [of t ?k "\<lambda>t k. case fd_alloc t (FdFile ?f) of (r, t) \<Rightarrow> (r, t, k)" "Ok fd" ?t ?k, OF a1] slot
    by (simp add: fd_alloc_def)
  then have "sys_open ?tf ?k = (Ok (word_of_nat fd), ?k')" using rp mode fo by (simp add: sys_open_def)
  then have h: "handler (v_alloc_ok v) ?tf ?k = (Ok (word_of_nat fd), ?k')" by (simp add: handler_def sys_numbers)
  have a': "alone ?t ?k'" using alone_after [OF a1, of ?t ?k] aloneD(4) [OF a] by simp
  have "sint (word_of_nat fd :: u64) = int fd" using sint_of_nat [of fd] fd by simp
  with ecall_quiet [OF h _ a', of "word_of_nat fd"] obtain k' where
    "ecall v ?tf (put v path k) = (Ok (int fd), k')" "alone ?t k'" "printed k' = printed (put v path k)" "noted (put v path k) k'"
    "k_table k' = k_table ?k'" "k_fs k' = k_fs ?k'" "k_rx k' = k_rx ?k'" "k_pipes k' = k_pipes ?k'"
    by (auto simp: set_fds_def set_umem_def put_def)
  then show ?thesis
    by (simp add: kernel_sys_def u_open_def keeps_files_def set_fds_def set_umem_def put_def noted_def printed_def)
qed

lemma close_file:
  assumes a: "alone t k" and fd: "fd < MAX_FDS" "t ! fd = Some (FdFile f)"
  shows "\<exists>k'. e_close (kernel_sys v) fd k = (Ok 0, k') \<and> alone (t[fd := None]) k' \<and> printed k' = printed k \<and> keeps_files k k'"
proof -
  let ?tf = "(v_regs v)\<lparr>a0 := SYS_CLOSE, a1 := word_of_nat fd\<rparr>" and ?k = "trapped k"
  have a1: "alone t ?k" using a by simp
  let ?k' = "(set_fds (current_pid (k_table ?k)) (t[fd := None]) ?k)\<lparr>k_locked := False\<rparr>"
  have "with_current_fd_table_mut (fd_close fd) ?k = (Ok (), ?k')"
    using with_current_alone [of t ?k "fd_close fd" "Ok ()" "t[fd := None]" ?k, OF a1] fd by (simp add: fd_close_def release_def)
  then have h: "handler (v_alloc_ok v) ?tf ?k = (Ok 0, ?k')"
    using fd(1) by (simp add: handler_def sys_numbers sys_close_def unat_fd)
  have a': "alone (t[fd := None]) ?k'" using alone_after [OF a1, of "t[fd := None]" ?k] aloneD(4) [OF a] by simp
  from ecall_quiet [OF h _ a', of 0] obtain k' where
    "ecall v ?tf k = (Ok 0, k')" "alone (t[fd := None]) k'" "printed k' = printed k" "noted k k'"
    "k_table k' = k_table ?k'" "k_fs k' = k_fs ?k'" "k_rx k' = k_rx ?k'" "k_pipes k' = k_pipes ?k'"
    by (auto simp: set_fds_def)
  then show ?thesis by (simp add: kernel_sys_def u_close_def keeps_files_def set_fds_def)
qed

lemma reading_open:
  assumes "writing v k0 t k" and "fd \<notin> {1, 2}" "fd < MAX_FDS" and "length data < 2 ^ 63"
    and "fs_read_file (k_fs k') path = (Ok data, k_fs k')" and "keeps_files k k'"
    and "alone (t[fd := Some (FdFile \<lparr>f_path = path, f_pos = 0, f_mode = read_only\<rparr>)]) k'"
  shows "reading v k0 t fd path data k'" "unread fd data k' = data"
proof -
  let ?f = "\<lparr>f_path = path, f_pos = 0, f_mode = read_only\<rparr>"
  show "reading v k0 t fd path data k'"
    using assms keeps_files_trans [of k0 k k'] by (auto simp: reading_def writing_def read_only_def intro!: exI [of _ ?f])
  have "fd < length t" using assms(3) aloneD(4) [OF assms(7)] by simp
  then show "unread fd data k' = data" using unread_alone [OF assms(7), of fd ?f data] by simp
qed

lemma reading_close:
  assumes k: "reading v k0 t fd path data k" and free: "t ! fd = None"
  shows "\<exists>k'. e_close (kernel_sys v) fd k = (Ok 0, k') \<and> writing v k0 t k' \<and> printed k' = printed k"
proof -
  from k obtain f where f: "alone (t[fd := Some (FdFile f)]) k" by (auto simp: reading_def)
  have l: "fd < MAX_FDS" "fd < length t" using k aloneD(4) [OF f] by (simp_all add: reading_def)
  have "t[fd := None] = t" by (metis list_update_id free)
  with close_file [OF f l(1), of f v] l(2) obtain k' where
    "e_close (kernel_sys v) fd k = (Ok 0, k')" "alone t k'" "printed k' = printed k" "keeps_files k k'" by auto
  then show ?thesis using k keeps_files_trans [of k0 k k'] by (auto simp: writing_def reading_def)
qed

section \<open>Programs on a file\<close>

text \<open>
  A program that may name a file: the console, a free descriptor number, and a path the kernel takes
  as it is.
\<close>

definition names_file :: "env \<Rightarrow> FdTable \<Rightarrow> nat \<Rightarrow> bytes \<Rightarrow> bool" where
  "names_file v t fd path \<longleftrightarrow> talks v t \<and> position (\<lambda>slot. slot = None) t = Some fd \<and>
     from_utf8 path = Some path \<and> path \<noteq> [] \<and> 0 \<notin> set path \<and> length path \<le> 100"

lemma names_fileD:
  assumes "names_file v t fd path" and "alone t k"
  shows "talks v t" "fd \<notin> {1, 2}" "fd < MAX_FDS" "t ! fd = None" "writing v k t k"
  using assms position_SomeD [of "\<lambda>slot. slot = None" t fd] aloneD(4) [of t k]
  by (auto simp: names_file_def talks_def writing_def keeps_files_refl)

text \<open>Opening the file that \<^verbatim>\<open>get_arg\<close> has returned.\<close>

lemma open_named:
  assumes n: "names_file v t fd path" and w: "writing v k0 t k"
    and data: "fs_read_file (k_fs k) path = (Ok data, k_fs k)" "length data < 2 ^ 63"
  shows "\<exists>k'. e_open (kernel_sys v) path O_READ k = (Ok (int fd), k') \<and> reading v k0 t fd path data k' \<and>
    unread fd data k' = data \<and> printed k' = printed k"
proof -
  have a: "alone t k" using w by (simp add: writing_def)
  note d = names_fileD [OF n a]
  have p: "position (\<lambda>slot. slot = None) t = Some fd" "from_utf8 path = Some path" "path \<noteq> []" "length path < 2 ^ 63" "v_src v path \<noteq> 0"
    using n by (auto simp: names_file_def talks_def)
  from open_file [OF a p data(1)] obtain k' where
    k': "e_open (kernel_sys v) path O_READ k = (Ok (int fd), k')"
      "alone (t[fd := Some (FdFile \<lparr>f_path = path, f_pos = 0, f_mode = read_only\<rparr>)]) k'" "printed k' = printed k" "keeps_files k k'" by blast
  have "fs_read_file (k_fs k') path = (Ok data, k_fs k')" using data(1) k'(4) by (simp add: keeps_files_def)
  from reading_open [OF w d(2,3) data(2) this k'(4,2)] k'(1,3) show ?thesis by blast
qed

lemma wc_file_run:
  assumes n: "names_file v t fd path" and a: "alone t k"
    and data: "fs_read_file (k_fs k) path = (Ok data, k_fs k)" "length data < 2 ^ 63"
    and fuel: "length data < m" "5000 < n"
  shows "\<exists>k'. wc_main (kernel_sys v) n m [prog, path] k = (Err 0, e_exit (kernel_sys v) 0 k') \<and> writing v k t k' \<and>
    printed k' = printed k @ console (get_arg_text path @ wc_report data (Some path))"
proof -
  let ?sys = "kernel_sys v"
  have w: "writing v k t k" and free: "t ! fd = None" by (rule names_fileD [OF n a])+
  have path: "0 \<notin> set path" "length path \<le> 100" using n by (simp_all add: names_file_def)
  from console_out.get_arg_all [OF w, of 1 "[prog, path]" path n] path fuel(2) obtain k1 where
    k1: "get_arg ?sys n [prog, path] 1 k = (Ok (Some path), k1)" "writing v k t k1" "printed k1 = printed k @ console (get_arg_text path)"
    by auto
  have data1: "fs_read_file (k_fs k1) path = (Ok data, k_fs k1)" using data(1) k1(2) by (simp add: writing_def keeps_files_def)
  from open_named [OF n k1(2) data1 data(2)] obtain k2 where
    k2: "e_open ?sys path O_READ k1 = (Ok (int fd), k2)" "reading v k t fd path data k2" "unread fd data k2 = data" "printed k2 = printed k1"
    by blast
  have "length data < 10 ^ 20" "40 + length path < n" "length path < 2 ^ 62" using data(2) path(2) fuel(2) by simp_all
  with file_in.wc_fd_all [OF k2(2), of m "Some path" n] k2(3) fuel(1) obtain k3 c where
    k3: "wc_fd ?sys n m fd (Some path) k2 = (Ok c, k3)" "reading v k t fd path data k3"
      "printed k3 = printed k2 @ console (wc_report data (Some path))" by auto
  from reading_close [OF k3(2) free] obtain k4 where
    k4: "e_close ?sys fd k3 = (Ok 0, k4)" "writing v k t k4" "printed k4 = printed k3" by blast
  have "wc_files ?sys n m [prog, path] [1] (0, 0, 0, 0) k = (Ok (fst c, fst (snd c), snd (snd c), 1), k4)"
    using k1(1) k2(1) k3(1) k4(1) by (cases c) simp
  then have "wc_main ?sys n m [prog, path] k = (Err 0, e_exit ?sys 0 k4)" by (simp add: wc_main_def lib_exit_def)
  then show ?thesis using k1(3) k2(4) k3(3) k4(2,3) by (intro exI [of _ k4]) (simp add: console_append)
qed

text \<open>What \<^verbatim>\<open>cat\<close> says on standard error, before and after \<^verbatim>\<open>get_arg\<close>.\<close>

definition cat_lines :: "bytes \<Rightarrow> bytes" where
  "cat_lines path = concat (map (\<lambda>t. t @ [10]) [ascii ''[cat] _start called'', ascii ''[cat] argc>1, opening files'',
     ascii ''[cat] entering while loop'', ascii ''[cat] calling get_arg'']) @ get_arg_text path @
     concat (map (\<lambda>t. t @ [10]) [ascii ''[cat] get_arg returned'', ascii ''[cat] opening file: '' @ path, ascii ''[cat] reading from file''])"

lemma note_run:
  assumes "writing v k0 t k" and "length text < 300" and "5000 < n"
  shows "\<exists>k'. note2 (kernel_sys v) n text k = (Ok (), k') \<and> writing v k0 t k' \<and> printed k' = printed k @ console (ascii text @ [10])"
  using console_out.say_all [OF assms(1), of 2 "ascii text @ [10]" n] assms(2,3) by (auto simp: note2_def ascii_def)

lemma cat_start:
  assumes w: "writing v k0 t k" and n: "5000 < n"
  shows "\<exists>k'. cat_main (kernel_sys v) n m [prog, path] k =
      tryS (cat_files (kernel_sys v) n m [prog, path] [1] k') (\<lambda>_ s. lib_exit (kernel_sys v) 0 s) \<and> writing v k0 t k' \<and>
    printed k' = printed k @ console (concat (map (\<lambda>t. t @ [10]) [ascii ''[cat] _start called'', ascii ''[cat] argc>1, opening files'',
      ascii ''[cat] entering while loop'']))"
proof -
  let ?sys = "kernel_sys v"
  note say = note_run [OF _ _ n]
  from say [OF w, of "''[cat] _start called''"] obtain k1 where
    k1: "note2 ?sys n ''[cat] _start called'' k = (Ok (), k1)" "writing v k0 t k1" "printed k1 = printed k @ console (ascii ''[cat] _start called'' @ [10])" by auto
  from say [OF k1(2), of "''[cat] argc>1, opening files''"] obtain k2 where
    k2: "note2 ?sys n ''[cat] argc>1, opening files'' k1 = (Ok (), k2)" "writing v k0 t k2" "printed k2 = printed k1 @ console (ascii ''[cat] argc>1, opening files'' @ [10])" by auto
  from say [OF k2(2), of "''[cat] entering while loop''"] obtain k3 where
    k3: "note2 ?sys n ''[cat] entering while loop'' k2 = (Ok (), k3)" "writing v k0 t k3" "printed k3 = printed k2 @ console (ascii ''[cat] entering while loop'' @ [10])" by auto
  have "cat_main ?sys n m [prog, path] k = tryS (cat_files ?sys n m [prog, path] [1] k3) (\<lambda>_ s. lib_exit (kernel_sys v) 0 s)"
    using k1(1) k2(1) k3(1) by (simp add: cat_main_def)
  then show ?thesis using k1(3) k2(3) k3(2,3) by (intro exI [of _ k3]) (simp add: console_def)
qed

lemma cat_file_run:
  assumes n: "names_file v t fd path" and a: "alone t k"
    and data: "fs_read_file (k_fs k) path = (Ok data, k_fs k)" "length data < 2 ^ 63"
    and fuel: "length data < m" "5000 < n"
  shows "\<exists>k'. cat_main (kernel_sys v) n m [prog, path] k = (Err 0, e_exit (kernel_sys v) 0 k') \<and> writing v k t k' \<and>
    printed k' = printed k @ console (cat_lines path @ data)"
proof -
  let ?sys = "kernel_sys v"
  have w: "writing v k t k" and free: "t ! fd = None" by (rule names_fileD [OF n a])+
  have path: "0 \<notin> set path" "length path \<le> 100" using n by (simp_all add: names_file_def)
  note say = note_run [OF _ _ fuel(2)]
  from cat_start [OF w fuel(2), of m prog path] obtain k3 where
    k3: "cat_main ?sys n m [prog, path] k = tryS (cat_files ?sys n m [prog, path] [1] k3) (\<lambda>_ s. lib_exit (kernel_sys v) 0 s)" "writing v k t k3"
      "printed k3 = printed k @ console (concat (map (\<lambda>t. t @ [10]) [ascii ''[cat] _start called'', ascii ''[cat] argc>1, opening files'',
        ascii ''[cat] entering while loop'']))" by blast
  from say [OF k3(2), of "''[cat] calling get_arg''"] obtain k4 where
    k4: "note2 ?sys n ''[cat] calling get_arg'' k3 = (Ok (), k4)" "writing v k t k4" "printed k4 = printed k3 @ console (ascii ''[cat] calling get_arg'' @ [10])" by auto
  from console_out.get_arg_all [OF k4(2), of 1 "[prog, path]" path n] path fuel(2) obtain k5 where
    k5: "get_arg ?sys n [prog, path] 1 k4 = (Ok (Some path), k5)" "writing v k t k5" "printed k5 = printed k4 @ console (get_arg_text path)"
    by auto
  from say [OF k5(2), of "''[cat] get_arg returned''"] obtain k6 where
    k6: "note2 ?sys n ''[cat] get_arg returned'' k5 = (Ok (), k6)" "writing v k t k6" "printed k6 = printed k5 @ console (ascii ''[cat] get_arg returned'' @ [10])" by auto
  let ?open = "[ascii ''[cat] opening file: '', path, [10]]"
  have "length (concat ?open) < n" "length (concat ?open) < 2 ^ 63" using path(2) fuel(2) by (simp_all add: ascii_def)
  with console_out.says_all [OF k6(2), of 2 ?open n] obtain k7 where
    k7: "says ?sys n 2 ?open k6 = (Ok (), k7)" "writing v k t k7" "printed k7 = printed k6 @ console (concat ?open)" by auto
  have "fs_read_file (k_fs k7) path = (Ok data, k_fs k7)" using data(1) k7(2) by (simp add: writing_def keeps_files_def)
  from open_named [OF n k7(2) this data(2)] obtain k8 where
    k8: "e_open ?sys path O_READ k7 = (Ok (int fd), k8)" "reading v k t fd path data k8" "unread fd data k8 = data" "printed k8 = printed k7"
    by blast
  from file_in.say_all [OF k8(2), of 2 "ascii ''[cat] reading from file'' @ [10]" n] fuel(2) k8(3) obtain k9 where
    k9: "note2 ?sys n ''[cat] reading from file'' k8 = (Ok (), k9)" "reading v k t fd path data k9" "unread fd data k9 = data"
      "printed k9 = printed k8 @ console (ascii ''[cat] reading from file'' @ [10])" by (auto simp: note2_def ascii_def)
  from file_in.cat_fd_all [OF k9(2), of m n] k9(3) fuel obtain k10 where
    k10: "cat_fd ?sys n m fd k9 = (Ok (), k10)" "reading v k t fd path data k10" "printed k10 = printed k9 @ console data" by auto
  from reading_close [OF k10(2) free] obtain k11 where
    k11: "e_close ?sys fd k10 = (Ok 0, k11)" "writing v k t k11" "printed k11 = printed k10" by blast
  have "cat_files ?sys n m [prog, path] [1] k3 = (Ok (), k11)"
    using k4(1) k5(1) k6(1) k7(1) k8(1) k9(1) k10(1) k11(1) by (simp del: says.simps)
  then have "cat_main ?sys n m [prog, path] k = (Err 0, e_exit ?sys 0 k11)" using k3(1) by (simp add: lib_exit_def)
  moreover have "printed k11 = printed k @ console (cat_lines path @ data)"
    using k3(3) k4(3) k5(3) k6(3) k7(3) k8(4) k9(4) k10(3) k11(3) by (simp add: cat_lines_def console_def)
  ultimately show ?thesis using k11(2) by blast
qed

text \<open>Exiting writes nothing of the program's, and touches no file.\<close>

lemma sys_exit_prints: "printed (snd (sys_exit tf k)) = printed k \<and> k_fs (snd (sys_exit tf k)) = k_fs k"
proof (cases "k_locked k")
  case True
  then show ?thesis by (simp add: sys_exit_def with_lock_def)
next
  case False
  obtain r k1 where e: "exit_process (current_pid (k_table k)) (a1 tf) (k\<lparr>k_locked := True\<rparr>) = (r, k1)" by fastforce
  then have "silent (k\<lparr>k_locked := True\<rparr>) k1" using exit_process_silent [of "k\<lparr>k_locked := True\<rparr>"] by (metis snd_conv)
  then have "k_tx k1 = k_tx k" "k_fs k1 = k_fs k" by (simp_all add: silent_def)
  then show ?thesis
    using False e by (cases r) (auto simp: sys_exit_def with_lock_def Let_def k_unblock_def printed_def split: option.split)
qed

lemma exit_prints: "printed (snd (u_exit v code k)) = printed k \<and> k_fs (snd (u_exit v code k)) = k_fs k"
proof -
  let ?tf = "(v_regs v)\<lparr>a0 := SYS_EXIT, a1 := word_of_int code\<rparr>"
  have s: "snd (ecall v tf k) = snd (handle_ecall (v_alloc_ok v) tf k)" for tf
    by (auto simp: ecall_def split: prod.split outcome.split)
  obtain r k1 where e: "sys_exit ?tf (trapped k) = (r, k1)" by fastforce
  then have p: "printed k1 = printed k" "k_fs k1 = k_fs k" using sys_exit_prints [of ?tf "trapped k"] by (simp_all add: printed_def)
  have d: "dispatch (v_alloc_ok v) ?tf (trapped k) = (code_of r, k1)"
    using e by (simp add: dispatch_def handler_def sys_numbers)
  have "printed (snd (handle_ecall (v_alloc_ok v) ?tf k)) = printed k \<and> k_fs (snd (handle_ecall (v_alloc_ok v) ?tf k)) = k_fs k"
    using d p by (cases "code_of r") (auto simp: handle_ecall_def Let_def printed_def split: prod.split)
  then show ?thesis by (simp add: u_exit_def s)
qed

text \<open>Opening a path that holds no file.\<close>

lemma open_missing:
  assumes w: "writing v k0 t k" and n: "names_file v t fd path" and missing: "fs_read_file (k_fs k) path = (Err e, k_fs k)"
  shows "\<exists>k'. e_open (kernel_sys v) path O_READ k = (Ok ENOENT, k') \<and> writing v k0 t k' \<and> printed k' = printed k"
proof -
  let ?tf = "(v_regs v)\<lparr>a0 := SYS_OPEN, a1 := v_src v path, a2 := slice_len path, a3 := O_READ\<rparr>"
  let ?k = "trapped (put v path k)"
  have a: "alone t ?k" using w by (simp add: writing_def)
  have path: "from_utf8 path = Some path" "path \<noteq> []" "length path < 2 ^ 63" "v_src v path \<noteq> 0"
    using n by (auto simp: names_file_def talks_def)
  have len: "unat (slice_len path) = length path" "slice_len path \<noteq> 0"
    using path unat_of_small small_word_not_0 by (simp_all add: slice_len_def)
  have rp: "read_path (v_src v path) (slice_len path) ?k = Ok path"
    using len path by (simp add: read_path_def from_raw_parts_def put_def set_umem_def)
  have mode: "\<not> m_create (mode_of_flags O_READ)" by (simp add: mode_of_flags_def O_READ_def)
  have fo: "file_open path (mode_of_flags O_READ) ?k = (Err FdNotFound, ?k)"
    using missing mode by (simp add: file_open_def Let_def put_def set_umem_def)
  then have h: "handler (v_alloc_ok v) ?tf ?k = (Err (SysFd FdNotFound), ?k)"
    using rp by (simp add: handler_def sys_numbers sys_open_def)
  have "sint (word_of_int ENOENT :: u64) = ENOENT" by (simp add: errnos)
  with ecall_quiet [OF h _ a, of "word_of_int ENOENT"] obtain k' where
    "ecall v ?tf (put v path k) = (Ok ENOENT, k')" "alone t k'" "printed k' = printed (put v path k)" "noted (put v path k) k'"
    "k_table k' = k_table ?k" "k_fs k' = k_fs ?k" "k_rx k' = k_rx ?k" "k_pipes k' = k_pipes ?k"
    by (auto simp: set_umem_def put_def)
  then have "e_open (kernel_sys v) path O_READ k = (Ok ENOENT, k')" "keeps_files k k'" "alone t k'" "printed k' = printed k"
    by (simp_all add: kernel_sys_def u_open_def keeps_files_def set_umem_def put_def noted_def printed_def)
  then show ?thesis using w keeps_files_trans [of k0 k k'] by (auto simp: writing_def)
qed

lemma wc_missing_run:
  assumes n: "names_file v t fd path" and a: "alone t k" and missing: "fs_read_file (k_fs k) path = (Err e, k_fs k)"
    and fuel: "5000 < n"
  shows "\<exists>k'. wc_main (kernel_sys v) n m [prog, path] k = (Err 1, e_exit (kernel_sys v) 1 k') \<and> writing v k t k' \<and>
    printed k' = printed k @ console (get_arg_text path @ ascii ''wc: cannot open '' @ path @ [10])"
proof -
  let ?sys = "kernel_sys v"
  have w: "writing v k t k" by (rule names_fileD [OF n a])
  have path: "0 \<notin> set path" "length path \<le> 100" using n by (simp_all add: names_file_def)
  from console_out.get_arg_all [OF w, of 1 "[prog, path]" path n] path fuel obtain k1 where
    k1: "get_arg ?sys n [prog, path] 1 k = (Ok (Some path), k1)" "writing v k t k1" "printed k1 = printed k @ console (get_arg_text path)"
    by auto
  have "fs_read_file (k_fs k1) path = (Err e, k_fs k1)" using missing k1(2) by (simp add: writing_def keeps_files_def)
  from open_missing [OF k1(2) n this] obtain k2 where
    k2: "e_open ?sys path O_READ k1 = (Ok ENOENT, k2)" "writing v k t k2" "printed k2 = printed k1" by blast
  let ?text = "[ascii ''wc: cannot open '', path, [10]]"
  have "length (concat ?text) < n" "length (concat ?text) < 2 ^ 63" using path(2) fuel by (simp_all add: ascii_def)
  with console_out.says_all [OF k2(2), of 2 ?text n] obtain k3 where
    k3: "says ?sys n 2 ?text k2 = (Ok (), k3)" "writing v k t k3" "printed k3 = printed k2 @ console (concat ?text)" by auto
  have "wc_files ?sys n m [prog, path] [1] (0, 0, 0, 0) k = (Err 1, e_exit ?sys 1 k3)"
    using k1(1) k2(1) k3(1) by (simp add: errnos lib_exit_def del: says.simps)
  then have "wc_main ?sys n m [prog, path] k = (Err 1, e_exit ?sys 1 k3)" by (simp add: wc_main_def)
  then show ?thesis using k1(3) k2(3) k3(2,3) by (intro exI [of _ k3]) (simp add: console_append)
qed

section \<open>Properties\<close>

text \<open>A mounted file system with one file, and a process on its own, with the console.\<close>

definition demo_text :: bytes where
  "demo_text = ascii ''two words'' @ [10]"

definition demo_file_fs :: TinyFs where
  "demo_file_fs = the (snd (fs_write_file (Some blank_fs) (ascii ''/a'') demo_text))"

definition demo_alone :: kernel where
  "demo_alone = demo_kernel\<lparr>k_table := table_new\<lparr>processes := (processes table_new)
       [0 := Some ((process_new 1 INVALID_PID 100 200 [] [] with_standard [] 0 0)\<lparr>p_state := Running\<rparr>)], current_pid := 1, next_pid := 2\<rparr>,
     k_locked := False, k_pipes := replicate 8 None, k_fs := Some demo_file_fs\<rparr>"

definition demo_env :: env where
  "demo_env = \<lparr>v_alloc_ok = (\<lambda>_. True), v_regs = zero_frame, v_src = (\<lambda>_. 0x80400000), v_dst = 0x80410000,
     v_ptrs = 0x80411000, v_lens = 0x80412000\<rparr>"

lemma demo_file: "fs_ok demo_file_fs" "spec_read (comps (ascii ''/a'')) (fs_tree demo_file_fs) = Ok demo_text"
proof -
  have p: "path_ok (ascii ''/a'')" "comps (ascii ''/a'') = [ascii ''a'']"
    by (simp_all add: path_ok_def ascii_def comps_def SLASH_def)
  have "carries_out blank_fs 1 [] (fs_write_file (Some blank_fs) (ascii ''/a'') demo_text)
      (Ok [(ascii ''a'', FileN demo_text)])"
    using exec_op_carries_out [OF blank_fs_ok(1), of "WriteOp (ascii ''/a'') demo_text"] p blank_fs_ok(2)
    by (simp add: spec_write_def div_ceil_def ascii_def demo_text_def)
  then obtain fs where "fs_write_file (Some blank_fs) (ascii ''/a'') demo_text = (Ok (), Some fs)" "fs_ok fs"
      "fs_tree fs = [(ascii ''a'', FileN demo_text)]"
    using blank_fs_ok(4,5) by (auto simp: carries_out_def fits_def)
  then show "fs_ok demo_file_fs" "spec_read (comps (ascii ''/a'')) (fs_tree demo_file_fs) = Ok demo_text"
    by (simp_all add: demo_file_fs_def p spec_read_def)
qed

lemma demo_alone_ok: "alone with_standard demo_alone" "k_fs demo_alone = Some demo_file_fs"
proof -
  have ps: "processes (k_table demo_alone) =
      [Some ((process_new 1 INVALID_PID 100 200 [] [] with_standard [] 0 0)\<lparr>p_state := Running\<rparr>), None, None, None, None, None, None, None]"
    by (simp add: demo_alone_def table_new_def numeral_eq_Suc)
  have "get (k_table demo_alone) 1 = Some ((process_new 1 INVALID_PID 100 200 [] [] with_standard [] 0 0)\<lparr>p_state := Running\<rparr>)"
    unfolding get_def ps by (simp add: has_pid_def process_new_def)
  moreover have "table_ok (k_table demo_alone)"
    unfolding table_ok_def process_ok_def procs_def get_all_processes_def ps
    by (auto simp: List.map_filter_def process_new_def with_standard_def fd_new_def demo_alone_def)
  moreover have "current_pid (k_table demo_alone) = 1" "\<not> k_locked demo_alone" by (simp_all add: demo_alone_def)
  ultimately show "alone with_standard demo_alone"
    unfolding alone_def procs_def ps by (auto simp: process_new_def)
  show "k_fs demo_alone = Some demo_file_fs" by (simp add: demo_alone_def)
qed

lemma demo_names: "names_file demo_env with_standard 3 (ascii ''/a'')"
proof -
  have "position (\<lambda>slot. slot = None) with_standard = Some 3" by (simp add: with_standard_def fd_new_def numeral_eq_Suc)
  moreover have "with_standard ! 1 = Some (FdUart UartWrite)" "with_standard ! 2 = Some (FdUart UartWrite)"
    by (simp_all add: with_standard_def fd_new_def)
  moreover have "from_utf8 (ascii ''/a'') = Some (ascii ''/a'')" by (simp add: from_utf8_def ascii_def)
  ultimately show ?thesis by (simp add: names_file_def talks_def demo_env_def ascii_def)
qed

text \<open>
  C27. \<^verbatim>\<open>wc\<close> run on one path, from the program through the library, the system calls, the descriptor and
  the file system to the console: when the path holds a file, what it prints is the number of lines,
  words and bytes of its contents and the path (after the lines \<^verbatim>\<open>get_arg\<close> prints), it gives its descriptor
  back and exits with 0; when it does not, it says so and exits with 1. Between its writes the
  kernel's lines about its calls go out on the console, and nothing else does. The state it ends in
  is what \<^verbatim>\<open>SYS_EXIT\<close> makes of the state after its last write, and the file system is unchanged.
\<close>

theorem wc_prints_counts:
  assumes "k_fs k = Some fs" and "fs_ok fs" and "names_file v t fd path" and "alone t k"
    and "n > 5000" and "\<forall>data. spec_read (comps path) (fs_tree fs) = Ok data \<longrightarrow> length data < min m (2 ^ 63)"
  shows "\<exists>code said k1 k'. wc_main (kernel_sys v) n m [prog, path] k = (Err code, k') \<and> k' = snd (u_exit v code k1) \<and>
    alone t k1 \<and> noted k k1 \<and> k_fs k' = k_fs k \<and>
    printed k1 = printed k @ console (get_arg_text path @ said) \<and> printed k' = printed k1 \<and>
    (case spec_read (comps path) (fs_tree fs) of
       Ok data \<Rightarrow> code = 0 \<and> said = wc_report data (Some path)
     | _ \<Rightarrow> code = 1 \<and> said = ascii ''wc: cannot open '' @ path @ [10])"
proof -
  note rd = fs_read_mounted [OF assms(2), of path]
  have kept: "writing v k t k' \<Longrightarrow> alone t k' \<and> noted k k' \<and> e_exit (kernel_sys v) c k' = snd (u_exit v c k') \<and>
      k_fs (snd (u_exit v c k')) = k_fs k \<and> printed (snd (u_exit v c k')) = printed k'" for k' c
    using exit_prints [of v c k'] by (simp add: writing_def keeps_files_def kernel_sys_def)
  show ?thesis
  proof (cases "spec_read (comps path) (fs_tree fs)")
    case (Ok data)
    then obtain k1 where "wc_main (kernel_sys v) n m [prog, path] k = (Err 0, e_exit (kernel_sys v) 0 k1)" "writing v k t k1"
      "printed k1 = printed k @ console (get_arg_text path @ wc_report data (Some path))"
      using wc_file_run [OF assms(3,4), of data m n prog] rd assms(1,5,6) by fastforce
    then show ?thesis using Ok kept [of k1 0] by auto
  next
    case (Err e)
    then obtain k1 where "wc_main (kernel_sys v) n m [prog, path] k = (Err 1, e_exit (kernel_sys v) 1 k1)" "writing v k t k1"
      "printed k1 = printed k @ console (get_arg_text path @ ascii ''wc: cannot open '' @ path @ [10])"
      using wc_missing_run [OF assms(3,4), of e n m prog] rd assms(1,5) by fastforce
    then show ?thesis using Err kept [of k1 1] by auto
  qed (use spec_read_total in auto)
qed

theorem wc_prints_counts_witness:
  "\<exists>k1. wc_main (kernel_sys demo_env) 6000 100 [[], ascii ''/a''] demo_alone = (Err 0, snd (u_exit demo_env 0 k1)) \<and>
     printed k1 = printed demo_alone @ console (get_arg_text (ascii ''/a'') @ ascii ''1 2 10 /a'' @ [10])"
proof -
  have "wc_report demo_text (Some (ascii ''/a'')) = ascii ''1 2 10 /a'' @ [10]" by code_simp
  then show ?thesis
    using wc_prints_counts [OF demo_alone_ok(2) demo_file(1) demo_names demo_alone_ok(1), of 6000 100 "[]"] demo_file(2)
    by (auto simp: demo_text_def ascii_def)
qed

text \<open>
  C28. \<^verbatim>\<open>cat\<close> run on the path of a file: what it sends to the console, after its diagnostic lines, is the
  contents of the file, in order and complete, in however many pieces it was read; apart from that
  only the kernel's lines about its calls go out. It gives its descriptor back, exits with 0 and
  leaves the file system unchanged.
\<close>

theorem cat_prints_file:
  assumes "k_fs k = Some fs" and "fs_ok fs" and "names_file v t fd path" and "alone t k"
    and "n > 5000" and "spec_read (comps path) (fs_tree fs) = Ok data" and "length data < min m (2 ^ 63)"
  shows "\<exists>k1 k'. cat_main (kernel_sys v) n m [prog, path] k = (Err 0, k') \<and> k' = snd (u_exit v 0 k1) \<and>
    alone t k1 \<and> noted k k1 \<and> k_fs k' = k_fs k \<and>
    printed k1 = printed k @ console (cat_lines path @ data) \<and> printed k' = printed k1"
proof -
  obtain k1 where k1: "cat_main (kernel_sys v) n m [prog, path] k = (Err 0, e_exit (kernel_sys v) 0 k1)" "writing v k t k1"
    "printed k1 = printed k @ console (cat_lines path @ data)"
    using cat_file_run [OF assms(3,4), of data m n prog] fs_read_mounted [OF assms(2), of path] assms(1,5-7) by auto
  have "e_exit (kernel_sys v) 0 k1 = snd (u_exit v 0 k1)" by (simp add: kernel_sys_def)
  then show ?thesis using k1 exit_prints [of v 0 k1] by (auto simp: writing_def keeps_files_def)
qed

theorem cat_prints_file_witness:
  "\<exists>k1. cat_main (kernel_sys demo_env) 6000 100 [[], ascii ''/a''] demo_alone = (Err 0, snd (u_exit demo_env 0 k1)) \<and>
     printed k1 = printed demo_alone @ console (cat_lines (ascii ''/a'') @ demo_text)"
  using cat_prints_file [OF demo_alone_ok(2) demo_file(1) demo_names demo_alone_ok(1), of 6000 demo_text 100 "[]"] demo_file(2)
  by (auto simp: demo_text_def ascii_def)

end
