(* ===== verification/UserSh.thy ===== *)
theory UserSh
  imports UserKernel RustStr
begin

text \<open>
  The user shell, \<^verbatim>\<open>user_bin/src/bin/sh.rs\<close>: reading a line with echo and backspace, parsing it into a
  pipeline of commands with redirections, and running it. The positions of the parser are kept as
  the part of the line still to be read; messages are strings; a \<^verbatim>\<open>Result\<close> is a sum with the message on
  the left.
\<close>

section \<open>Commands\<close>

definition MAX_LINE :: nat where "MAX_LINE = 256"
definition MAX_ARGS :: nat where "MAX_ARGS = 8"

record Redir =
  r_path :: bytes
  r_append :: bool

record Command =
  cmd_args :: "bytes list"
  cmd_argc :: nat
  cmd_stdin :: "bytes option"
  cmd_stdout :: "Redir option"

definition command_new :: Command where
  "command_new = \<lparr>cmd_args = replicate MAX_ARGS [], cmd_argc = 0, cmd_stdin = None, cmd_stdout = None\<rparr>"

section \<open>Parsing\<close>

definition is_space :: "u8 \<Rightarrow> bool" where
  "is_space b \<longleftrightarrow> b = 32 \<or> b = 9"

text \<open>The bytes that end a token: white space, \<^verbatim>\<open>|\<close>, \<^verbatim>\<open><\<close> and \<^verbatim>\<open>>\<close>.\<close>

definition ends_token :: "u8 \<Rightarrow> bool" where
  "ends_token b \<longleftrightarrow> is_space b \<or> b = 124 \<or> b = 60 \<or> b = 62"

definition parse_token :: "bytes \<Rightarrow> (bytes \<times> bytes, string) outcome" where
  "parse_token rest =
     (let token = takeWhile (\<lambda>b. \<not> ends_token b) rest in
      if token = [] then Err ''expected token'' else Ok (token, dropWhile (\<lambda>b. \<not> ends_token b) rest))"

lemma parse_token_shorter: "parse_token rest = Ok (token, next) \<Longrightarrow> length next < length rest"
  by (cases rest) (auto simp: parse_token_def Let_def le_imp_less_Suc length_dropWhile_le split: if_splits)

lemma skip_space_le: "length (dropWhile is_space r) \<le> length r"
  by (rule length_dropWhile_le)

text \<open>The loop of \<^verbatim>\<open>parse_commands\<close>, and what follows it.\<close>

function parse_loop :: "bytes \<Rightarrow> nat \<Rightarrow> Command \<Rightarrow> Command list \<Rightarrow> (nat \<times> Command list, string) outcome" where
  "parse_loop rest cmd_idx cur cmds =
     (case dropWhile is_space rest of
        [] \<Rightarrow>
          if cmd_argc cur = 0 then Err ''empty command''
          else if length cmds \<le> cmd_idx then Err ''too many pipeline stages''
          else Ok (cmd_idx + 1, cmds[cmd_idx := cur])
      | b # r \<Rightarrow>
          if b = 124 then
            if cmd_argc cur = 0 then Err ''syntax error: empty command before |''
            else if length cmds \<le> cmd_idx then Err ''too many pipeline stages''
            else parse_loop r (cmd_idx + 1) command_new (cmds[cmd_idx := cur])
          else if b = 60 then
            case parse_token (dropWhile is_space r) of
              Ok (token, next) \<Rightarrow> parse_loop next cmd_idx (cur\<lparr>cmd_stdin := Some token\<rparr>) cmds
            | Err msg \<Rightarrow> Err msg | Panic \<Rightarrow> Panic | Hang \<Rightarrow> Hang
          else if b = 62 then
            let append = (r \<noteq> [] \<and> hd r = 62); r = (if append then tl r else r) in
            case parse_token (dropWhile is_space r) of
              Ok (token, next) \<Rightarrow> parse_loop next cmd_idx (cur\<lparr>cmd_stdout := Some \<lparr>r_path = token, r_append = append\<rparr>\<rparr>) cmds
            | Err msg \<Rightarrow> Err msg | Panic \<Rightarrow> Panic | Hang \<Rightarrow> Hang
          else
            case parse_token (b # r) of
              Ok (token, next) \<Rightarrow>
                if MAX_ARGS \<le> cmd_argc cur then Err ''too many args''
                else parse_loop next cmd_idx
                  (cur\<lparr>cmd_args := (cmd_args cur)[cmd_argc cur := token], cmd_argc := cmd_argc cur + 1\<rparr>) cmds
            | Err msg \<Rightarrow> Err msg | Panic \<Rightarrow> Panic | Hang \<Rightarrow> Hang)"
  by pat_completeness auto
termination
proof (relation "measure (\<lambda>(rest, _). length rest)", goal_cases)
  case (2 rest cmd_idx cur cmds b r)
  then show ?case using skip_space_le [of rest] by simp
next
  case (3 rest cmd_idx cur cmds b r x token "next")
  then show ?case using skip_space_le [of rest] skip_space_le [of r] parse_token_shorter by fastforce
next
  case (4 rest cmd_idx cur cmds b r append r' x token "next")
  have "length r' \<le> length r" using 4 by (cases r) auto
  then show ?case using 4 skip_space_le [of rest] skip_space_le [of r'] parse_token_shorter by fastforce
next
  case (5 rest cmd_idx cur cmds b r x token "next")
  then show ?case using skip_space_le [of rest] parse_token_shorter by fastforce
qed simp

declare parse_loop.simps [simp del]

definition parse_commands :: "bytes \<Rightarrow> Command list \<Rightarrow> (nat \<times> Command list, string) outcome" where
  "parse_commands line cmds = parse_loop line 0 command_new cmds"

section \<open>Reading a line\<close>

text \<open>
  \<^verbatim>\<open>read_line\<close>: the buffer with its first \<open>idx\<close> bytes in use. A read that returns nothing is tried again; a
  carriage return or line feed ends the line, backspace and delete take a byte back.
\<close>

fun read_line_loop :: "'s sys \<Rightarrow> nat \<Rightarrow> nat \<Rightarrow> nat \<Rightarrow> bytes \<Rightarrow> (nat \<times> bytes, 's) call" where
  "read_line_loop sys n 0 idx buf s = (Hang, s)"
| "read_line_loop sys n (Suc m) idx buf s =
     tryS (lib_read sys n 0 1 s) (\<lambda>(len, byte_buf) s.
       if len \<le> 0 then read_line_loop sys n m idx buf s
       else
         let b = byte_buf ! 0 in
         if b = 13 \<or> b = 10 then tryS (say sys n 1 [10] s) (\<lambda>_ s. (Ok (idx, buf), s))
         else if b = 8 \<or> b = 127 then
           if 0 < idx then tryS (say sys n 1 [8, 32, 8] s) (\<lambda>_ s. read_line_loop sys n m (idx - 1) buf s)
           else read_line_loop sys n m idx buf s
         else if idx < length buf then
           tryS (say sys n 1 [b] s) (\<lambda>_ s. read_line_loop sys n m (idx + 1) (buf[idx := b]) s)
         else read_line_loop sys n m idx buf s)"

definition read_line :: "'s sys \<Rightarrow> nat \<Rightarrow> nat \<Rightarrow> bytes \<Rightarrow> (nat \<times> bytes, 's) call" where
  "read_line sys n m buf s = read_line_loop sys n m 0 buf s"

section \<open>Running a pipeline\<close>

definition resolve_prog :: "bytes \<Rightarrow> bytes" where
  "resolve_prog cmd =
     (if cmd \<noteq> [] \<and> hd cmd = 47 then cmd
      else if MAX_LINE \<le> 5 + length cmd then cmd
      else case from_utf8 (ascii ''/bin/'' @ cmd) of Some path \<Rightarrow> path | None \<Rightarrow> cmd)"

text \<open>A call whose result is not looked at, when there is a descriptor at all.\<close>

definition when_fd :: "int \<Rightarrow> (nat \<Rightarrow> (int, 's) call) \<Rightarrow> (unit, 's) call" where
  "when_fd fd operation s = (if 0 \<le> fd then tryS (operation (nat fd) s) (\<lambda>_ s. (Ok (), s)) else (Ok (), s))"

definition restore_stdio :: "'s sys \<Rightarrow> int \<Rightarrow> int \<Rightarrow> (unit, 's) call" where
  "restore_stdio sys saved_in saved_out s =
     tryS (when_fd saved_in (\<lambda>fd. e_dup2 sys fd 0) s) (\<lambda>_ s.
     tryS (when_fd saved_in (e_close sys) s) (\<lambda>_ s.
     tryS (when_fd saved_out (\<lambda>fd. e_dup2 sys fd 1) s) (\<lambda>_ s.
     when_fd saved_out (e_close sys) s)))"

text \<open>The parts of \<^verbatim>\<open>spawn_command\<close>: saving and redirecting, the lines about the program, what
  it does once \<^verbatim>\<open>spawn\<close> has returned, and the whole.\<close>

definition redirect_stdio :: "'s sys \<Rightarrow> nat \<Rightarrow> int \<Rightarrow> int \<Rightarrow> (int \<times> int, 's) call" where
  "redirect_stdio sys n stdin_fd stdout_fd s =
     tryS (e_dup2 sys 0 14 s) (\<lambda>saved_in s.
     tryS (e_dup2 sys 1 15 s) (\<lambda>saved_out s.
     tryS (note2 sys n ''[spawn_command] saved stdio'' s) (\<lambda>_ s.
     tryS (when_fd stdin_fd (\<lambda>fd. e_dup2 sys fd 0) s) (\<lambda>_ s.
     tryS (note2 sys n ''[spawn_command] redirected stdin'' s) (\<lambda>_ s.
     tryS (when_fd stdout_fd (\<lambda>fd. e_dup2 sys fd 1) s) (\<lambda>_ s.
     tryS (note2 sys n ''[spawn_command] redirected stdout'' s) (\<lambda>_ s.
       (Ok (if saved_in < 0 then -1 else saved_in, if saved_out < 0 then -1 else saved_out), s))))))))"

definition announce :: "bytes \<Rightarrow> bytes list \<Rightarrow> bytes list" where
  "announce prog_path argv =
     [ascii ''[spawn_command] about to spawn'' @ [10], ascii ''[spawn_command] prog_path='', prog_path, [10],
      ascii ''[spawn_command] argc='', [48 + word_of_nat (length argv)], [10]] @
     concat (map (\<lambda>i. [ascii ''[spawn_command] argv['', [48 + word_of_nat i], ascii '']='' @ [34], argv ! i, [34, 10]]) [0..<length argv])"

definition finish_spawn :: "'s sys \<Rightarrow> nat \<Rightarrow> int \<Rightarrow> int \<Rightarrow> int \<Rightarrow> (string + int, 's) call" where
  "finish_spawn sys n saved_in saved_out pid s =
     tryS (note2 sys n ''[spawn_command] spawn returned'' s) (\<lambda>_ s.
     tryS (restore_stdio sys saved_in saved_out s) (\<lambda>_ s.
     tryS (note2 sys n ''[spawn_command] restored stdio'' s) (\<lambda>_ s.
       if pid < 0 then (Ok (Inl ''spawn failed''), s)
       else tryS (note2 sys n ''[spawn_command] done'' s) (\<lambda>_ s. (Ok (Inr pid), s)))))"

definition spawn_command :: "'s sys \<Rightarrow> nat \<Rightarrow> Command \<Rightarrow> int \<Rightarrow> int \<Rightarrow> (string + int, 's) call" where
  "spawn_command sys n cmd stdin_fd stdout_fd s =
     (if cmd_argc cmd = 0 then (Ok (Inl ''empty command''), s)
      else
        tryS (note2 sys n ''[spawn_command] start'' s) (\<lambda>_ s.
        tryS (redirect_stdio sys n stdin_fd stdout_fd s) (\<lambda>(saved_in, saved_out) s.
          let argc = min (cmd_argc cmd) 16; argv = take argc (cmd_args cmd); prog_path = resolve_prog (cmd_args cmd ! 0) in
          if length (cmd_args cmd) < argc then (Panic, s)
          else
            tryS (says sys n 2 (announce prog_path argv) s) (\<lambda>_ s.
            tryS (e_spawn sys prog_path argv s) (finish_spawn sys n saved_in saved_out)))))"

text \<open>
  Where the output of a stage goes: the descriptor for it, and the read end of the pipe the next stage
  reads, -1 standing for none.
\<close>

definition stage_output :: "'s sys \<Rightarrow> bool \<Rightarrow> Command \<Rightarrow> (string + (int \<times> int), 's) call" where
  "stage_output sys is_last cmd s =
     (if is_last then
        case cmd_stdout cmd of
          Some redir \<Rightarrow>
            let flags = O_WRITE OR O_CREATE; flags = (if r_append redir then flags OR O_APPEND else flags) in
            tryS (e_open sys (r_path redir) flags s) (\<lambda>fd s.
              (Ok (if fd < 0 then Inl ''failed to open stdout redirection'' else Inr (fd, -1)), s))
        | None \<Rightarrow> (Ok (Inr (-1, -1)), s)
      else
        tryS (e_pipe sys s) (\<lambda>(ret, read_fd, write_fd) s.
          (Ok (if ret < 0 then Inl ''failed to create pipe'' else Inr (int write_fd, int read_fd)), s)))"

text \<open>The loop over the commands, from number \<open>idx\<close> on. \<^verbatim>\<open>cleanup_pipeline\<close> does nothing.\<close>

fun pipeline_loop :: "'s sys \<Rightarrow> nat \<Rightarrow> nat \<Rightarrow> Command list \<Rightarrow> int list \<Rightarrow> int \<Rightarrow> (string + int list, 's) call" where
  "pipeline_loop sys n idx [] pids stdin_fd s = (Ok (Inr pids), s)"
| "pipeline_loop sys n idx (cmd # cmds) pids stdin_fd s =
     tryS (note2 sys n ''[pipeline] processing cmd'' s) (\<lambda>_ s.
     tryS (case cmd_stdin cmd of Some path \<Rightarrow> e_open sys path O_READ s | None \<Rightarrow> (Ok stdin_fd, s)) (\<lambda>cmd_stdin_fd s.
       if cmd_stdin cmd \<noteq> None \<and> cmd_stdin_fd < 0 then (Ok (Inl ''failed to open stdin redirection''), s)
       else
         tryS (stage_output sys (cmds = []) cmd s) (\<lambda>out s.
           case out of
             Inl msg \<Rightarrow> tryS (when_fd cmd_stdin_fd (e_close sys) s) (\<lambda>_ s. (Ok (Inl msg), s))
           | Inr (cmd_stdout_fd, pipe_read_fd) \<Rightarrow>
               tryS (note2 sys n ''[pipeline] about to spawn cmd'' s) (\<lambda>_ s.
               tryS (spawn_command sys n cmd cmd_stdin_fd cmd_stdout_fd s) (\<lambda>spawned s.
                 case spawned of
                   Inl msg \<Rightarrow> (Ok (Inl msg), s)
                 | Inr pid \<Rightarrow>
                     tryS (note2 sys n ''[pipeline] spawned cmd'' s) (\<lambda>_ s.
                       if pid < 0 then
                         tryS (when_fd cmd_stdin_fd (e_close sys) s) (\<lambda>_ s.
                         tryS (when_fd cmd_stdout_fd (e_close sys) s) (\<lambda>_ s.
                         tryS (when_fd pipe_read_fd (e_close sys) s) (\<lambda>_ s. (Ok (Inl ''failed to spawn command''), s))))
                       else if length pids \<le> idx then (Panic, s)
                       else
                         tryS (note2 sys n ''[pipeline] closing parent fds'' s) (\<lambda>_ s.
                         tryS (when_fd cmd_stdin_fd (e_close sys) s) (\<lambda>_ s.
                         tryS (when_fd cmd_stdout_fd (e_close sys) s) (\<lambda>_ s.
                         tryS (note2 sys n ''[pipeline] done with cmd'' s) (\<lambda>_ s.
                         pipeline_loop sys n (idx + 1) cmds (pids[idx := pid]) pipe_read_fd s))))))))))"

fun wait_all :: "'s sys \<Rightarrow> nat \<Rightarrow> int list \<Rightarrow> (unit, 's) call" where
  "wait_all sys n [] s = (Ok (), s)"
| "wait_all sys n (pid # pids) s =
     tryS (if 0 \<le> pid then tryS (lib_wait sys n s) (\<lambda>_ s. (Ok (), s)) else (Ok (), s)) (\<lambda>_ s. wait_all sys n pids s)"

definition run_pipeline :: "'s sys \<Rightarrow> nat \<Rightarrow> Command list \<Rightarrow> (string + unit, 's) call" where
  "run_pipeline sys n cmds s =
     (if cmds = [] then (Ok (Inl ''empty pipeline''), s)
      else tryS (pipeline_loop sys n 0 cmds (replicate 8 (-1)) (-1) s) (\<lambda>spawned s.
        case spawned of
          Inl msg \<Rightarrow> (Ok (Inl msg), s)
        | Inr pids \<Rightarrow>
            tryS (note2 sys n ''[pipeline] all commands spawned, waiting...'' s) (\<lambda>_ s.
            tryS (wait_all sys n (take (length cmds) pids) s) (\<lambda>_ s. (Ok (Inr ()), s)))))"

section \<open>The main loop\<close>

text \<open>One turn of the loop in \<^verbatim>\<open>_start\<close>, with the line buffer it leaves, and a number of turns.\<close>

definition sh_turn :: "'s sys \<Rightarrow> nat \<Rightarrow> nat \<Rightarrow> bytes \<Rightarrow> (bytes, 's) call" where
  "sh_turn sys n m line_buf s =
     tryS (say sys n 1 (ascii ''sh> '') s) (\<lambda>_ s.
     tryS (read_line sys n m line_buf s) (\<lambda>(line_len, line_buf) s.
       if line_len = 0 then (Ok line_buf, s)
       else case from_utf8 (take line_len line_buf) of
         None \<Rightarrow> tryS (note2 sys n ''invalid utf-8 input'' s) (\<lambda>_ s. (Ok line_buf, s))
       | Some str \<Rightarrow>
           let line = trim str in
           if line = [] then (Ok line_buf, s)
           else if line = ascii ''exit'' then lib_exit sys 0 s
           else case parse_commands line (replicate 8 command_new) of
             Ok (parsed, cmds) \<Rightarrow>
               tryS (run_pipeline sys n (take parsed cmds) s) (\<lambda>result s.
                 case result of
                   Inl msg \<Rightarrow> tryS (says sys n 2 [ascii msg, [10]] s) (\<lambda>_ s. (Ok line_buf, s))
                 | Inr _ \<Rightarrow> (Ok line_buf, s))
           | Err msg \<Rightarrow> tryS (says sys n 2 [ascii msg, [10]] s) (\<lambda>_ s. (Ok line_buf, s))
           | Panic \<Rightarrow> (Panic, s) | Hang \<Rightarrow> (Hang, s)))"

fun sh_main :: "'s sys \<Rightarrow> nat \<Rightarrow> nat \<Rightarrow> nat \<Rightarrow> bytes \<Rightarrow> (unit, 's) call" where
  "sh_main sys n m 0 line_buf s = (Hang, s)"
| "sh_main sys n m (Suc turns) line_buf s = tryS (sh_turn sys n m line_buf s) (\<lambda>line_buf s. sh_main sys n m turns line_buf s)"

section \<open>Pipelines and how they are written\<close>

text \<open>A stage of a pipeline: its arguments, and where its input and output come from and go to.\<close>

record stage =
  s_args :: "bytes list"
  s_in :: "bytes option"
  s_out :: "Redir option"

definition command_of :: "stage \<Rightarrow> Command" where
  "command_of c = \<lparr>cmd_args = s_args c @ replicate (MAX_ARGS - length (s_args c)) [], cmd_argc = length (s_args c),
     cmd_stdin = s_in c, cmd_stdout = s_out c\<rparr>"

definition stages :: "stage list \<Rightarrow> Command list" where
  "stages ps = map command_of ps @ replicate (8 - length ps) command_new"

definition token_ok :: "bytes \<Rightarrow> bool" where
  "token_ok t \<longleftrightarrow> t \<noteq> [] \<and> (\<forall>b \<in> set t. \<not> ends_token b)"

definition tokens :: "stage \<Rightarrow> bytes set" where
  "tokens c = set (s_args c) \<union> set_option (s_in c) \<union> r_path ` set_option (s_out c)"

definition stage_ok :: "stage \<Rightarrow> bool" where
  "stage_ok c \<longleftrightarrow> length (s_args c) \<le> MAX_ARGS \<and> (\<forall>t \<in> tokens c. token_ok t)"

definition pipeline_ok :: "stage list \<Rightarrow> bool" where
  "pipeline_ok ps \<longleftrightarrow> ps \<noteq> [] \<and> length ps \<le> 8 \<and> (\<forall>c \<in> set ps. stage_ok c \<and> s_args c \<noteq> [])"

definition render_stage :: "stage \<Rightarrow> bytes" where
  "render_stage c = concat (map (\<lambda>t. t @ [32]) (s_args c)) @
     (case s_in c of None \<Rightarrow> [] | Some path \<Rightarrow> [60, 32] @ path @ [32]) @
     (case s_out c of None \<Rightarrow> [] | Some r \<Rightarrow> (if r_append r then [62, 62, 32] else [62, 32]) @ r_path r @ [32])"

fun render :: "stage list \<Rightarrow> bytes" where
  "render [] = []"
| "render [c] = render_stage c"
| "render (c # ps) = render_stage c @ [124, 32] @ render ps"

lemma command_of_simps [simp]:
  "cmd_argc (command_of c) = length (s_args c)" "command_of \<lparr>s_args = [], s_in = None, s_out = None\<rparr> = command_new"
  "(command_of c)\<lparr>cmd_stdin := i\<rparr> = command_of (c\<lparr>s_in := i\<rparr>)" "(command_of c)\<lparr>cmd_stdout := r\<rparr> = command_of (c\<lparr>s_out := r\<rparr>)"
  by (simp_all add: command_of_def command_new_def)

lemma command_of_push:
  assumes "length (s_args c) < MAX_ARGS"
  shows "(command_of c)\<lparr>cmd_args := (cmd_args (command_of c))[length (s_args c) := t], cmd_argc := Suc (length (s_args c))\<rparr> =
    command_of (c\<lparr>s_args := s_args c @ [t]\<rparr>)"
proof -
  obtain n where "MAX_ARGS - length (s_args c) = Suc n" using assms by (metis Suc_diff_Suc)
  moreover from this have "MAX_ARGS - Suc (length (s_args c)) = n" by simp
  ultimately show ?thesis by (simp add: command_of_def list_update_append)
qed

lemma stages_push: "length ps < 8 \<Longrightarrow> (stages ps)[length ps := command_of c] = stages (ps @ [c])"
  by (simp add: stages_def list_update_append Suc_diff_Suc [symmetric])

lemma length_stages: "length ps \<le> 8 \<Longrightarrow> length (stages ps) = 8"
  by (simp add: stages_def)

lemma stages_Nil: "stages [] = replicate 8 command_new"
  by (simp add: stages_def)

section \<open>What is written is what is parsed\<close>

lemma parse_token_append:
  assumes "token_ok t" and "rest = [] \<or> ends_token (hd rest)"
  shows "parse_token (t @ rest) = Ok (t, rest)"
proof -
  have "takeWhile (\<lambda>b. \<not> ends_token b) (t @ rest) = t" "dropWhile (\<lambda>b. \<not> ends_token b) (t @ rest) = rest"
    using assms by (cases rest; simp add: token_ok_def)+
  then show ?thesis using assms(1) by (simp add: parse_token_def token_ok_def)
qed

lemma parse_space [simp]: "parse_loop (32 # rest) i cur cmds = parse_loop rest i cur cmds"
  by (simp add: parse_loop.simps [of "32 # rest"] parse_loop.simps [of rest] is_space_def)

lemma skip_space [simp]: "dropWhile is_space (32 # rest) = dropWhile is_space rest"
  by (simp add: is_space_def)

lemma skip_space_token: "token_ok t \<Longrightarrow> dropWhile is_space (t @ rest) = t @ rest"
  by (cases t) (auto simp: token_ok_def ends_token_def)

lemma parse_arg:
  assumes "token_ok t" and "length (s_args c) < MAX_ARGS"
  shows "parse_loop (t @ 32 # rest) i (command_of c) cmds = parse_loop rest i (command_of (c\<lparr>s_args := s_args c @ [t]\<rparr>)) cmds"
proof -
  have p: "parse_token (t @ 32 # rest) = Ok (t, 32 # rest)" using assms(1) by (simp add: parse_token_append ends_token_def is_space_def)
  obtain b t' where t: "t = b # t'" using assms(1) by (cases t) (auto simp: token_ok_def)
  then have "b \<noteq> 124 \<and> b \<noteq> 60 \<and> b \<noteq> 62 \<and> \<not> is_space b" using assms(1) by (simp add: token_ok_def ends_token_def)
  then show ?thesis
    using p assms(2) command_of_push [OF assms(2), of t] by (simp add: parse_loop.simps [of "b # t' @ 32 # rest"] t)
qed

lemma parse_args:
  "\<forall>t \<in> set ts. token_ok t \<Longrightarrow> length (s_args c) + length ts \<le> MAX_ARGS \<Longrightarrow>
   parse_loop (concat (map (\<lambda>t. t @ [32]) ts) @ rest) i (command_of c) cmds =
   parse_loop rest i (command_of (c\<lparr>s_args := s_args c @ ts\<rparr>)) cmds"
  by (induction ts arbitrary: c) (simp_all add: parse_arg)

lemma parse_in:
  assumes "token_ok t"
  shows "parse_loop (60 # 32 # t @ 32 # rest) i (command_of c) cmds = parse_loop rest i (command_of (c\<lparr>s_in := Some t\<rparr>)) cmds"
  using parse_token_append [OF assms, of "32 # rest"] skip_space_token [OF assms, of "32 # rest"]
  by (simp add: parse_loop.simps [of "60 # 32 # t @ 32 # rest"] is_space_def ends_token_def)

lemma parse_out:
  assumes "token_ok t"
  shows "parse_loop ((if a then [62, 62, 32] else [62, 32]) @ t @ 32 # rest) i (command_of c) cmds =
    parse_loop rest i (command_of (c\<lparr>s_out := Some \<lparr>r_path = t, r_append = a\<rparr>\<rparr>)) cmds"
  using parse_token_append [OF assms, of "32 # rest"] skip_space_token [OF assms, of "32 # rest"]
  by (simp add: parse_loop.simps [of "62 # _"] is_space_def ends_token_def)

lemma parse_stage:
  assumes "stage_ok c"
  shows "parse_loop (render_stage c @ rest) i command_new cmds = parse_loop rest i (command_of c) cmds"
proof -
  let ?c0 = "\<lparr>s_args = [], s_in = None, s_out = None\<rparr>" and ?c1 = "\<lparr>s_args = s_args c, s_in = None, s_out = None\<rparr>"
  and ?c2 = "\<lparr>s_args = s_args c, s_in = s_in c, s_out = None\<rparr>"
  have t: "\<forall>t \<in> set (s_args c). token_ok t" "\<And>p. s_in c = Some p \<Longrightarrow> token_ok p" "\<And>r. s_out c = Some r \<Longrightarrow> token_ok (r_path r)"
    using assms by (auto simp: stage_ok_def tokens_def)
  have "parse_loop (concat (map (\<lambda>t. t @ [32]) (s_args c)) @ r) i (command_of ?c0) cmds = parse_loop r i (command_of ?c1) cmds" for r
    using parse_args [of "s_args c" ?c0] t(1) assms by (simp add: stage_ok_def)
  moreover have "parse_loop ((case s_in c of None \<Rightarrow> [] | Some path \<Rightarrow> [60, 32] @ path @ [32]) @ r) i (command_of ?c1) cmds =
      parse_loop r i (command_of ?c2) cmds" for r
    using parse_in [OF t(2), of _ r i ?c1 cmds] by (cases "s_in c") simp_all
  moreover have "parse_loop ((case s_out c of None \<Rightarrow> [] | Some r \<Rightarrow> (if r_append r then [62, 62, 32] else [62, 32]) @ r_path r @ [32]) @ r)
      i (command_of ?c2) cmds = parse_loop r i (command_of c) cmds" for r
  proof (cases "s_out c")
    case None
    then show ?thesis by (cases c) simp
  next
    case (Some o')
    then show ?thesis using parse_out [OF t(3) [OF Some], of "r_append o'" r i ?c2 cmds] by (cases c; cases o') simp
  qed
  ultimately show ?thesis by (simp add: render_stage_def)
qed

lemma parse_rendered:
  "\<forall>c \<in> set ps. stage_ok c \<and> s_args c \<noteq> [] \<Longrightarrow> ps \<noteq> [] \<Longrightarrow> length qs + length ps \<le> 8 \<Longrightarrow>
   parse_loop (render ps) (length qs) command_new (stages qs) = Ok (length qs + length ps, stages (qs @ ps))"
proof (induction ps arbitrary: qs rule: render.induct)
  case (2 c)
  have "parse_loop (render_stage c) (length qs) command_new (stages qs) = parse_loop [] (length qs) (command_of c) (stages qs)"
    using parse_stage [of c "[]"] 2 by simp
  then show ?case using 2 stages_push [of qs c] length_stages [of qs] by (simp add: parse_loop.simps [of "[]"])
next
  case (3 c d ps)
  have "parse_loop (render (c # d # ps)) (length qs) command_new (stages qs) =
      parse_loop ([124, 32] @ render (d # ps)) (length qs) (command_of c) (stages qs)"
    using parse_stage [of c] 3 by simp
  also have "\<dots> = parse_loop (render (d # ps)) (length (qs @ [c])) command_new (stages (qs @ [c]))"
    using 3 stages_push [of qs c] length_stages [of qs] by (simp add: parse_loop.simps [of "124 # _"] is_space_def)
  finally show ?case using "3.IH" [of "qs @ [c]"] 3(2-4) by simp
qed simp

section \<open>What is parsed is a pipeline of the line\<close>

text \<open>The stages read so far, with tokens that stand in the line.\<close>

definition from_line :: "bytes \<Rightarrow> stage \<Rightarrow> bool" where
  "from_line line c \<longleftrightarrow> stage_ok c \<and> (\<forall>t \<in> tokens c. sublist t line)"

lemma parse_token_from:
  assumes "parse_token rest = Ok (token, next)" and "suffix rest line"
  shows "token_ok token" "sublist token line" "suffix next line"
proof -
  have p: "token = takeWhile (\<lambda>b. \<not> ends_token b) rest" "next = dropWhile (\<lambda>b. \<not> ends_token b) rest" "token \<noteq> []"
    using assms(1) by (auto simp: parse_token_def Let_def split: if_splits)
  show "token_ok token" using p by (auto simp: token_ok_def dest: set_takeWhileD)
  from assms(2) obtain pre where "line = pre @ rest" by (auto simp: suffix_def)
  then have l: "line = pre @ token @ next" by (simp add: p(1,2))
  then show "sublist token line" by (auto simp: sublist_def)
  show "suffix next line" unfolding l by (simp add: suffix_def)
qed

lemma suffix_skip: "suffix rest line \<Longrightarrow> suffix (dropWhile P rest) line"
  by (metis suffix_dropWhile suffix_order.trans)

text \<open>One step of the loop.\<close>

lemma parse_loop_step:
  "dropWhile is_space rest = [] \<Longrightarrow> parse_loop rest i cur cmds =
     (if cmd_argc cur = 0 then Err ''empty command''
      else if length cmds \<le> i then Err ''too many pipeline stages'' else Ok (i + 1, cmds[i := cur]))"
  "dropWhile is_space rest = 124 # r \<Longrightarrow> parse_loop rest i cur cmds =
     (if cmd_argc cur = 0 then Err ''syntax error: empty command before |''
      else if length cmds \<le> i then Err ''too many pipeline stages''
      else parse_loop r (i + 1) command_new (cmds[i := cur]))"
  "dropWhile is_space rest = 60 # r \<Longrightarrow> parse_loop rest i cur cmds =
     and_then (parse_token (dropWhile is_space r)) (\<lambda>(token, next). parse_loop next i (cur\<lparr>cmd_stdin := Some token\<rparr>) cmds)"
  "dropWhile is_space rest = 62 # r \<Longrightarrow> a = (r \<noteq> [] \<and> hd r = 62) \<Longrightarrow> r' = (if a then tl r else r) \<Longrightarrow> parse_loop rest i cur cmds =
     and_then (parse_token (dropWhile is_space r'))
       (\<lambda>(token, next). parse_loop next i (cur\<lparr>cmd_stdout := Some \<lparr>r_path = token, r_append = a\<rparr>\<rparr>) cmds)"
  "dropWhile is_space rest = b # r \<Longrightarrow> b \<noteq> 124 \<Longrightarrow> b \<noteq> 60 \<Longrightarrow> b \<noteq> 62 \<Longrightarrow> parse_loop rest i cur cmds =
     and_then (parse_token (b # r)) (\<lambda>(token, next).
       if MAX_ARGS \<le> cmd_argc cur then Err ''too many args''
       else parse_loop next i (cur\<lparr>cmd_args := (cmd_args cur)[cmd_argc cur := token], cmd_argc := cmd_argc cur + 1\<rparr>) cmds)"
  by (simp_all add: parse_loop.simps [of rest] Let_def split: outcome.split del: dropWhile_eq_Nil_conv)

text \<open>How a successful turn goes on.\<close>

lemma parse_loop_Ok:
  assumes run: "parse_loop rest i cur cmds = Ok res"
  obtains (stop) "dropWhile is_space rest = []" "cmd_argc cur \<noteq> 0" "\<not> length cmds \<le> i" "res = (i + 1, cmds[i := cur])"
  | (pipe) r where "dropWhile is_space rest = 124 # r" "cmd_argc cur \<noteq> 0" "\<not> length cmds \<le> i"
      "parse_loop r (i + 1) command_new (cmds[i := cur]) = Ok res"
  | (inp) r token "next" where "dropWhile is_space rest = 60 # r" "parse_token (dropWhile is_space r) = Ok (token, next)"
      "parse_loop next i (cur\<lparr>cmd_stdin := Some token\<rparr>) cmds = Ok res"
  | (outp) r a r' token "next" where "dropWhile is_space rest = 62 # r" "a = (r \<noteq> [] \<and> hd r = 62)"
      "r' = (if a then tl r else r)" "parse_token (dropWhile is_space r') = Ok (token, next)"
      "parse_loop next i (cur\<lparr>cmd_stdout := Some \<lparr>r_path = token, r_append = a\<rparr>\<rparr>) cmds = Ok res"
  | (arg) b r token "next" where "dropWhile is_space rest = b # r" "b \<noteq> 124" "b \<noteq> 60" "b \<noteq> 62"
      "parse_token (b # r) = Ok (token, next)" "\<not> MAX_ARGS \<le> cmd_argc cur"
      "parse_loop next i (cur\<lparr>cmd_args := (cmd_args cur)[cmd_argc cur := token], cmd_argc := cmd_argc cur + 1\<rparr>) cmds = Ok res"
proof (cases "dropWhile is_space rest")
  case Nil
  from run [unfolded parse_loop_step(1) [OF Nil]] show thesis by (intro stop [OF Nil]) (auto split: if_splits)
next
  case (Cons b r)
  consider "b = 124" | "b = 60" | "b = 62" | "b \<noteq> 124" "b \<noteq> 60" "b \<noteq> 62" by blast
  then show thesis
  proof cases
    case 1
    note c = Cons [unfolded 1]
    from run [unfolded parse_loop_step(2) [OF c]] show thesis by (intro pipe [OF c]) (auto split: if_splits)
  next
    case 2
    note c = Cons [unfolded 2]
    from run [unfolded parse_loop_step(3) [OF c]] inp [OF c] show thesis by (auto simp: outcome_simps)
  next
    case 3
    note c = Cons [unfolded 3]
    from run [unfolded parse_loop_step(4) [OF c refl refl]] outp [OF c refl refl] show thesis by (auto simp: outcome_simps)
  next
    case 4
    from run [unfolded parse_loop_step(5) [OF Cons 4]] arg [OF Cons 4] show thesis
      by (auto simp: outcome_simps split: if_splits)
  qed
qed

lemma parse_loop_sound:
  assumes "parse_loop rest i cur cmds = Ok (n, cmds')" and "i = length qs" and "cur = command_of c" and "cmds = stages qs"
    and "suffix rest line" and "length qs \<le> 8" and "\<forall>q \<in> set qs. from_line line q \<and> s_args q \<noteq> []" and "from_line line c"
  shows "\<exists>ps. pipeline_ok ps \<and> (\<forall>q \<in> set ps. from_line line q) \<and> n = length ps \<and> cmds' = stages ps"
  using assms
proof (induction rest i cur cmds arbitrary: qs c rule: parse_loop.induct)
  case (1 rest i cur cmds)
  note old = 1(6-12)
  have sfx: "suffix (dropWhile is_space rest) line" using old(4) by (rule suffix_skip)
  then have tail: "suffix (dropWhile is_space r) line" "suffix r line" if "dropWhile is_space rest = b # r" for b r
    using that by (metis suffix_ConsD suffix_skip)+
  from 1(5) show ?case
  proof (cases rule: parse_loop_Ok)
    case stop
    then have "s_args c \<noteq> [] \<and> length qs < 8 \<and> n = Suc (length qs) \<and> cmds' = stages (qs @ [c])"
      using old(1-3,5) stages_push [of qs c] length_stages [of qs] by simp
    then show ?thesis
      using old by (intro exI [of _ "qs @ [c]"]) (auto simp: pipeline_ok_def from_line_def)
  next
    case (pipe r)
    then have d: "s_args c \<noteq> []" "length qs < 8" using old(1-3,5) length_stages [of qs] by simp_all
    have new: "from_line line \<lparr>s_args = [], s_in = None, s_out = None\<rparr>" by (simp add: from_line_def stage_ok_def tokens_def)
    show ?thesis
      by (rule 1(1) [OF pipe(1) refl pipe(2-4), of "qs @ [c]" "\<lparr>s_args = [], s_in = None, s_out = None\<rparr>"])
        (use old d tail(2) [OF pipe(1)] new stages_push [OF d(2)] in auto)
  next
    case (inp r token "next")
    note tk = parse_token_from [OF inp(2) tail(1) [OF inp(1)]]
    show ?thesis
      by (rule 1(2) [OF inp(1) _ refl inp(2) refl inp(3), of qs "c\<lparr>s_in := Some token\<rparr>"])
        (use old tk in \<open>auto simp: from_line_def stage_ok_def tokens_def\<close>)
  next
    case (outp r a r' token "next")
    have "suffix r' line" using tail(2) [OF outp(1)] suffix_order.trans [OF suffix_tl tail(2) [OF outp(1)]] by (simp add: outp(3))
    note tk = parse_token_from [OF outp(4) suffix_skip [OF this]]
    show ?thesis
      by (rule 1(3) [OF outp(1) _ _ refl outp(2-4) refl outp(5), of qs "c\<lparr>s_out := Some \<lparr>r_path = token, r_append = a\<rparr>\<rparr>"])
        (use old tk in \<open>auto simp: from_line_def stage_ok_def tokens_def\<close>)
  next
    case (arg b r token "next")
    have l': "length (s_args c) < MAX_ARGS" using arg(6) old(2) by simp
    note tk = parse_token_from [OF arg(5) sfx [unfolded arg(1)]]
    show ?thesis
      by (rule 1(4) [OF arg(1-5) refl arg(6,7), of qs "c\<lparr>s_args := s_args c @ [token]\<rparr>"])
        (use old tk l' command_of_push [OF l', of token] in \<open>auto simp: from_line_def stage_ok_def tokens_def\<close>)
  qed
qed

lemma parse_loop_total: "parse_loop rest i cur cmds \<noteq> Panic \<and> parse_loop rest i cur cmds \<noteq> Hang"
proof -
  have t: "parse_token r \<noteq> Panic" "parse_token r \<noteq> Hang" for r by (simp_all add: parse_token_def Let_def)
  show ?thesis
  proof (induction rest i cur cmds rule: parse_loop.induct)
    case (1 rest i cur cmds)
    show ?case
    proof (cases "dropWhile is_space rest")
      case Nil
      then show ?thesis by (simp add: parse_loop_step(1) del: dropWhile_eq_Nil_conv)
    next
      case (Cons b r)
      consider (pipe) "b = 124" | (inp) "b = 60" | (outp) "b = 62" | (arg) "b \<noteq> 124" "b \<noteq> 60" "b \<noteq> 62" by blast
      then show ?thesis
      proof cases
        case pipe
        then show ?thesis using 1(1) [OF Cons] Cons by (simp add: parse_loop_step(2))
      next
        case inp
        then show ?thesis using 1(2) [OF Cons _ inp] Cons t
          by (cases "parse_token (dropWhile is_space r)") (auto simp: parse_loop_step(3))
      next
        case outp
        then show ?thesis using 1(3) [OF Cons _ _ outp refl refl] Cons t
          by (cases "parse_token (dropWhile is_space (if r \<noteq> [] \<and> hd r = 62 then tl r else r))")
            (auto simp: parse_loop_step(4) [OF _ refl refl])
      next
        case arg
        then show ?thesis using 1(4) [OF Cons arg] Cons t by (cases "parse_token (b # r)") (auto simp: parse_loop_step(5) split: if_splits)
      qed
    qed
  qed
qed

section \<open>Properties of the parser\<close>

text \<open>
  C31. Writing a pipeline down and parsing it: every pipeline of one to eight stages with one to eight
  arguments each and any redirections, whose tokens are not empty and hold no white space and none
  of the characters that end a token, is parsed back from its text.
\<close>

theorem parse_render:
  assumes "pipeline_ok ps"
  shows "parse_commands (render ps) (replicate 8 command_new) = Ok (length ps, stages ps)"
  using parse_rendered [of ps "[]"] assms by (simp add: parse_commands_def pipeline_ok_def stages_Nil)

text \<open>\<^verbatim>\<open>cat < in | wc >> out\<close>\<close>

definition demo_pipeline :: "stage list" where
  "demo_pipeline = [\<lparr>s_args = [ascii ''cat''], s_in = Some (ascii ''in''), s_out = None\<rparr>,
     \<lparr>s_args = [ascii ''wc''], s_in = None, s_out = Some \<lparr>r_path = ascii ''out'', r_append = True\<rparr>\<rparr>]"

lemma demo_pipeline_ok: "pipeline_ok demo_pipeline"
  by (simp add: demo_pipeline_def pipeline_ok_def stage_ok_def tokens_def token_ok_def ends_token_def is_space_def MAX_ARGS_def ascii_def)

theorem parse_render_witness:
  "parse_commands (ascii ''cat < in | wc >> out '') (replicate 8 command_new) = Ok (2, stages demo_pipeline)"
proof -
  have "render demo_pipeline = ascii ''cat < in | wc >> out ''" "length demo_pipeline = 2"
    by (simp_all add: demo_pipeline_def render_stage_def ascii_def)
  then show ?thesis using parse_render [OF demo_pipeline_ok] by simp
qed

text \<open>
  C32. What the parser accepts: for every line it returns, without a panic, either a message or such a
  pipeline: between one and eight stages, filled from the front of the array, each with one to
  eight arguments, filled from the front, and all tokens well formed and standing in the line.
\<close>

theorem parse_accepts_pipelines:
  "(\<exists>msg. parse_commands line (replicate 8 command_new) = Err msg) \<or>
   (\<exists>ps. parse_commands line (replicate 8 command_new) = Ok (length ps, stages ps) \<and> pipeline_ok ps \<and>
      (\<forall>c \<in> set ps. \<forall>t \<in> tokens c. sublist t line))"
proof (cases "parse_commands line (replicate 8 command_new)")
  case (Ok x)
  then obtain n cmds where "parse_loop line 0 command_new (replicate 8 command_new) = Ok (n, cmds)"
    by (cases x) (simp add: parse_commands_def)
  with parse_loop_sound [OF this, of "[]" "\<lparr>s_args = [], s_in = None, s_out = None\<rparr>" line]
  obtain ps where "pipeline_ok ps" "\<forall>q \<in> set ps. from_line line q"
    "parse_commands line (replicate 8 command_new) = Ok (length ps, stages ps)"
    by (auto simp: stages_Nil from_line_def stage_ok_def tokens_def parse_commands_def)
  then show ?thesis by (auto simp: from_line_def)
qed (use parse_loop_total in \<open>auto simp: parse_commands_def\<close>)

theorem parse_accepts_pipelines_witness:
  "\<exists>ps. parse_commands (ascii ''wc <a'') (replicate 8 command_new) = Ok (length ps, stages ps) \<and> pipeline_ok ps"
proof -
  have "is_ok (parse_commands (ascii ''wc <a'') (replicate 8 command_new))" by code_simp
  then show ?thesis using parse_accepts_pipelines [of "ascii ''wc <a''"] by (auto simp: is_ok_iff)
qed

section \<open>What is typed\<close>

text \<open>The line a sequence of keys gives, and the echo of it; \<open>line\<close> is what stands there already.\<close>

definition erases :: "u8 \<Rightarrow> bool" where
  "erases b \<longleftrightarrow> b = 8 \<or> b = 127"

definition ends_line :: "u8 \<Rightarrow> bool" where
  "ends_line b \<longleftrightarrow> b = 13 \<or> b = 10"

definition key :: "nat \<Rightarrow> u8 \<Rightarrow> bytes \<Rightarrow> bytes" where
  "key cap b line = (if erases b then butlast line else if length line < cap then line @ [b] else line)"

definition key_echo :: "nat \<Rightarrow> u8 \<Rightarrow> bytes \<Rightarrow> bytes" where
  "key_echo cap b line =
     (if erases b then (if line = [] then [] else [8, 32, 8]) else if length line < cap then [b] else [])"

fun echo :: "nat \<Rightarrow> bytes \<Rightarrow> bytes \<Rightarrow> bytes" where
  "echo cap [] line = []"
| "echo cap (b # bs) line = key_echo cap b line @ echo cap bs (key cap b line)"

lemma key_buffer:
  assumes "idx \<le> length buf" and "take idx buf = line"
  shows "erases b \<Longrightarrow> take (idx - 1) buf = key (length buf) b line"
    and "\<not> erases b \<Longrightarrow> idx < length buf \<Longrightarrow> take (idx + 1) (buf[idx := b]) = key (length buf) b line"
    and "\<not> erases b \<Longrightarrow> \<not> idx < length buf \<Longrightarrow> key (length buf) b line = line"
  using assms by (auto simp: key_def butlast_take take_Suc_conv_app_nth)

context program_io
begin

lemma read_byte:
  assumes "inv s" and "patience s < n" and "pending s = b # bs"
  shows "\<exists>s'. lib_read sys n infd 1 s = (Ok (1, [b]), s') \<and> inv s' \<and> sent s' = sent s \<and> pending s' = bs \<and> patience s' \<le> patience s"
proof -
  from lib_read_next [OF assms(1) _ assms(2), of 1] assms(3) obtain data s' where
    "lib_read sys n infd 1 s = (Ok (int (length data), data), s')" "inv s'" "sent s' = sent s" "length data \<le> 1"
    "b # bs = data @ pending s'" "data \<noteq> []" "patience s' \<le> patience s" by auto
  moreover from this have "data = [b] \<and> pending s' = bs" by (cases data) auto
  ultimately show ?thesis by auto
qed

lemma read_line_loop_all:
  assumes "infd = 0" and "1 \<in> sinks"
  shows "inv s \<Longrightarrow> patience s + 3 < n \<Longrightarrow> pending s = typed @ e # rest \<Longrightarrow> \<forall>b \<in> set typed. \<not> ends_line b \<Longrightarrow> ends_line e \<Longrightarrow>
    length typed < m \<Longrightarrow> idx \<le> length buf \<Longrightarrow>
    \<exists>idx' buf' s'. read_line_loop sys n m idx buf s = (Ok (idx', buf'), s') \<and> inv s' \<and> pending s' = rest \<and>
      length buf' = length buf \<and> idx' \<le> length buf' \<and> take idx' buf' = fold (key (length buf)) typed (take idx buf) \<and>
      sent s' = sent s @ encode (echo (length buf) typed (take idx buf) @ [10]) \<and> patience s' \<le> patience s"
proof (induction typed arbitrary: s m idx buf)
  case Nil
  then obtain m' where m: "m = Suc m'" by (cases m) auto
  from read_byte [of s n e rest] Nil(1-3) obtain s1 where
    s1: "lib_read sys n 0 1 s = (Ok (1, [e]), s1)" "inv s1" "sent s1 = sent s" "pending s1 = rest" "patience s1 \<le> patience s"
    using assms(1) by auto
  from say_all [OF s1(2) assms(2), of "[10]" n] s1 Nil(2) obtain s2 where
    "say sys n 1 [10] s1 = (Ok (), s2)" "inv s2" "pending s2 = rest" "sent s2 = sent s @ encode [10]" "patience s2 \<le> patience s" by auto
  then show ?case using s1(1) Nil(5,7) m by (auto simp: ends_line_def Let_def)
next
  case (Cons b typed)
  then obtain m' where m: "m = Suc m'" by (cases m) auto
  from read_byte [of s n b "typed @ e # rest"] Cons.prems(1-3) obtain s1 where
    s1: "lib_read sys n 0 1 s = (Ok (1, [b]), s1)" "inv s1" "sent s1 = sent s" "pending s1 = typed @ e # rest" "patience s1 \<le> patience s"
    using assms(1) by auto
  let ?line = "take idx buf"
  let ?idx = "if erases b then idx - 1 else if idx < length buf then idx + 1 else idx"
  let ?buf = "if erases b then buf else if idx < length buf then buf[idx := b] else buf"
  let ?echo = "key_echo (length buf) b ?line"
  have line: "take ?idx ?buf = key (length buf) b ?line" "?idx \<le> length ?buf" "length ?buf = length buf"
    using key_buffer [OF Cons.prems(7) refl, of b] Cons.prems(7) by (auto split: if_splits)
  have "length ?echo \<le> 3" by (simp add: key_echo_def)
  with say_all [OF s1(2) assms(2), of ?echo n] s1 Cons.prems(2) obtain s2 where
    s2: "say sys n 1 ?echo s1 = (Ok (), s2)" "inv s2" "pending s2 = typed @ e # rest" "sent s2 = sent s @ encode ?echo"
      "patience s2 \<le> patience s" by auto
  have quiet: "?echo = [] \<Longrightarrow> s2 = s1" using s2(1) by (simp add: say_def lib_write_def)
  have "read_line_loop sys n m idx buf s = read_line_loop sys n m' ?idx ?buf s2"
  proof -
    have "\<not> ends_line b" using Cons.prems(4) by simp
    moreover have "(?line = []) = (idx = 0)" if "erases b" using Cons.prems(7) by (cases buf) auto
    ultimately show ?thesis
      using s1(1) s2(1) m quiet Cons.prems(7)
      by (auto simp: Let_def ends_line_def erases_def key_echo_def min_def split: if_splits)
  qed
  moreover from Cons.IH [OF s2(2), of m' ?idx ?buf] s2(3,5) Cons.prems(2,4-6) line m obtain idx' buf' s' where
    "read_line_loop sys n m' ?idx ?buf s2 = (Ok (idx', buf'), s')" "inv s'" "pending s' = rest"
    "length buf' = length buf" "idx' \<le> length buf'" "take idx' buf' = fold (key (length buf)) typed (key (length buf) b ?line)"
    "sent s' = sent s2 @ encode (echo (length buf) typed (key (length buf) b ?line) @ [10])" "patience s' \<le> patience s2"
    by auto
  ultimately show ?case using s2(4,5) by (auto simp: encode_append)
qed

end

text \<open>
  C33. \<^verbatim>\<open>read_line\<close> on the console: whatever keys are pressed before a carriage return or line feed, the line it
  returns is the result of editing (at most 256 bytes are kept, backspace and delete take back the
  last one), what the shell itself sends is the echo that shows it, with only the kernel's lines
  about its calls in between, and the keys after the end of the line are left for the next read.
\<close>

theorem read_line_edits:
  assumes "alone t k" and "talks v t" and "t ! 0 = Some (FdUart UartRead)" and "k_rx k = typed @ e # rest"
    and "\<forall>b \<in> set typed. \<not> ends_line b" and "ends_line e" and "n > 3" and "m > length typed"
  shows "\<exists>len buf' k'. read_line (kernel_sys v) n m buf k = (Ok (len, buf'), k') \<and> length buf' = length buf \<and>
    take len buf' = fold (key (length buf)) typed [] \<and> len = length (fold (key (length buf)) typed []) \<and>
    k_rx k' = rest \<and> printed k' = printed k @ console (echo (length buf) typed [] @ [10]) \<and> noted k k' \<and>
    alone t k' \<and> k_fs k' = k_fs k"
proof -
  have "typing v k t k" using assms noted_refl by (simp add: typing_def)
  from console_in.read_line_loop_all [OF refl _ this, of n typed e rest m 0 buf] assms(4-8) obtain len buf' k' where
    k': "read_line_loop (kernel_sys v) n m 0 buf k = (Ok (len, buf'), k')" "typing v k t k'" "k_rx k' = rest"
      "length buf' = length buf" "len \<le> length buf'" "take len buf' = fold (key (length buf)) typed []"
      "printed k' = printed k @ console (echo (length buf) typed [] @ [10])" by auto
  moreover from k'(5) have "len = length (take len buf')" by simp
  ultimately show ?thesis by (auto simp: read_line_def typing_def)
qed

theorem read_line_edits_witness:
  "\<exists>len buf' k'. read_line (kernel_sys demo_env) 10 10 (replicate 256 0) (demo_alone\<lparr>k_rx := ascii ''lz'' @ [8] @ ascii ''s'' @ [13]\<rparr>) =
     (Ok (len, buf'), k') \<and> take len buf' = ascii ''ls'' \<and> k_rx k' = [] \<and>
     printed k' = printed demo_alone @ ascii ''lz'' @ [8, 32, 8] @ ascii ''s'' @ [13, 10]"
proof -
  let ?k = "demo_alone\<lparr>k_rx := ascii ''lz'' @ [8] @ ascii ''s'' @ [13]\<rparr>" and ?typed = "ascii ''lz'' @ [8] @ ascii ''s''"
  have "talks demo_env with_standard" using demo_names by (simp add: names_file_def)
  moreover have "with_standard ! 0 = Some (FdUart UartRead)" by (simp add: with_standard_def fd_new_def)
  moreover have "alone with_standard ?k" using demo_alone_ok(1) by simp
  moreover have "\<forall>b \<in> set ?typed. \<not> ends_line b" "ends_line 13" by (simp_all add: ends_line_def ascii_def)
  moreover have "fold (key 256) ?typed [] = ascii ''ls''" by (simp add: key_def erases_def ascii_def)
  moreover have "console (echo 256 ?typed [] @ [10]) = ascii ''lz'' @ [8, 32, 8] @ ascii ''s'' @ [13, 10]"
    by (simp add: key_def key_echo_def erases_def ascii_def console_def)
  moreover have "printed ?k = printed demo_alone" by (simp add: printed_def)
  ultimately show ?thesis
    using read_line_edits [of with_standard ?k demo_env ?typed 13 "[]" 10 10 "replicate 256 0"]
    by (auto simp: ascii_def)
qed

end
