(* ===== verification/ShellFds.thy ===== *)
theory ShellFds
  imports UserSh
begin

text \<open>
  What the shell does with its descriptors: while it starts a command, its standard input and output
  are redirected, saved under the numbers 14 and 15, and put back afterwards. This is shown over a
  contract of \<^verbatim>\<open>dup2\<close> and \<^verbatim>\<open>close\<close> on a descriptor table, which the kernel keeps, with what the kernel does
  when the command is spawned: the child starts with the redirected table.
\<close>

section \<open>Redirection\<close>

text \<open>A descriptor number to redirect to, with -1 for none, and the table after redirecting.\<close>

definition given :: "int \<Rightarrow> 'd option list \<Rightarrow> bool" where
  "given fd t \<longleftrightarrow> fd < 16 \<and> fd \<noteq> 2 \<and> (0 \<le> fd \<longrightarrow> t ! nat fd \<noteq> None)"

definition redirected :: "int \<Rightarrow> nat \<Rightarrow> 'd option list \<Rightarrow> 'd option list" where
  "redirected fd new t = (if 0 \<le> fd then t[new := t ! nat fd] else t)"

section \<open>The contract\<close>

text \<open>The table of descriptors, and the ground that none of these calls touches.\<close>

locale shell_fds = program_out sys inv "\<lambda>s. (fds s, ground s)" sent sinks encode patience
  for sys :: "'s sys" and inv and fds :: "'s \<Rightarrow> 'd option list" and ground :: "'s \<Rightarrow> 'g" and sent and sinks and encode and patience +
  assumes err_sink: "2 \<in> sinks"
    and sixteen: "inv s \<Longrightarrow> length (fds s) = 16"
    and dup2_law: "inv s \<Longrightarrow> old < 16 \<Longrightarrow> new < 16 \<Longrightarrow> new \<noteq> 2 \<Longrightarrow>
      \<exists>ret s'. e_dup2 sys old new s = (Ok ret, s') \<and> inv s' \<and> ground s' = ground s \<and> patience s' \<le> patience s \<and>
      (case fds s ! old of
         Some d \<Rightarrow> ret = int new \<and> fds s' = (fds s)[new := Some d]
       | None \<Rightarrow> ret < 0 \<and> fds s' = fds s)"
    and close_law: "inv s \<Longrightarrow> fd < 16 \<Longrightarrow> fd \<noteq> 2 \<Longrightarrow>
      \<exists>ret s'. e_close sys fd s = (Ok ret, s') \<and> inv s' \<and> ground s' = ground s \<and> patience s' \<le> patience s \<and>
      fds s' = (fds s)[fd := None]"
begin

text \<open>
  An action that returns, from a descriptor table \<open>t\<close>, the value \<open>r\<close> with the table \<open>t'\<close>; \<open>k\<close> bounds the length of a
  single write.
\<close>

definition does :: "nat \<Rightarrow> nat \<Rightarrow> 'd option list \<Rightarrow> ('a, 's) call \<Rightarrow> 'a \<Rightarrow> 'd option list \<Rightarrow> bool" where
  "does n k t act r t' \<longleftrightarrow> (\<forall>s. inv s \<and> patience s + k < n \<and> k < 2 ^ 63 \<and> fds s = t \<longrightarrow>
     (\<exists>s'. act s = (Ok r, s') \<and> inv s' \<and> patience s' \<le> patience s \<and> fds s' = t' \<and> ground s' = ground s))"

lemma doesD:
  "does n k t act r t' \<Longrightarrow> inv s \<Longrightarrow> patience s + k < n \<Longrightarrow> k < 2 ^ 63 \<Longrightarrow> fds s = t \<Longrightarrow>
   \<exists>s'. act s = (Ok r, s') \<and> inv s' \<and> patience s' \<le> patience s \<and> fds s' = t' \<and> ground s' = ground s"
  by (simp add: does_def)

lemma does_seq: "does n k t a r t' \<Longrightarrow> does n k t' (f r) q t'' \<Longrightarrow> does n k t (\<lambda>s. tryS (a s) (\<lambda>r s. f r s)) q t''"
  unfolding does_def by fastforce

lemma does_return: "does n k t (\<lambda>s. (Ok r, s)) r t"
  by (simp add: does_def)

lemma does_say: "length b \<le> k \<Longrightarrow> does n k t (say sys n 2 b) () t"
  unfolding does_def using say_all [OF _ err_sink, of _ b n] by fastforce

lemma does_note: "length text < 300 \<Longrightarrow> 300 \<le> k \<Longrightarrow> does n k t (note2 sys n text) () t"
  using does_say [of "ascii text @ [10]" k n t] by (simp add: note2_def [abs_def] ascii_def)

lemma does_says: "length (concat bs) \<le> k \<Longrightarrow> does n k t (says sys n 2 bs) () t"
  unfolding does_def using says_all [OF _ err_sink, of _ bs n] by fastforce

lemma does_dup2: "old < 16 \<Longrightarrow> new < 16 \<Longrightarrow> new \<noteq> 2 \<Longrightarrow> t ! old = Some d \<Longrightarrow> does n k t (e_dup2 sys old new) (int new) (t[new := Some d])"
  unfolding does_def using dup2_law [of _ old new] by fastforce

lemma does_redirect:
  assumes "given fd t" and "new < 16" and "new \<noteq> 2"
  shows "does n k t (when_fd fd (\<lambda>fd. e_dup2 sys fd new)) () (redirected fd new t)"
proof (cases "0 \<le> fd")
  case True
  then obtain d where "t ! nat fd = Some d" using assms(1) by (auto simp: given_def)
  with does_seq [where f = "\<lambda>_ s. (Ok (), s)", OF does_dup2 [of "nat fd" new t d n k] does_return] True assms
  show ?thesis by (auto simp: when_fd_def [abs_def] redirected_def given_def)
qed (simp add: when_fd_def [abs_def] redirected_def does_return)

lemma does_close:
  assumes "fd < 16" and "fd \<noteq> 2"
  shows "does n k t (when_fd (int fd) (e_close sys)) () (t[fd := None])"
  unfolding does_def when_fd_def using close_law [OF _ assms] by fastforce

section \<open>Saving, redirecting and restoring\<close>

lemma does_redirect_stdio:
  assumes len: "length t = 16" and std: "t ! 0 = Some d0" "t ! 1 = Some d1"
    and fds: "given i t" "given o' t" "i < 14" "o' < 14" "o' \<noteq> 0" and k: "300 \<le> k"
  shows "does n k t (redirect_stdio sys n i o') (14, 15)
    (redirected o' 1 (redirected i 0 (t[14 := Some d0, 15 := Some d1])))"
proof -
  let ?t1 = "t[14 := Some d0]" and ?t2 = "t[14 := Some d0, 15 := Some d1]"
  have "?t1 ! 1 = Some d1" using std len by simp
  have keep: "?t2 ! nat fd = t ! nat fd" if "given fd t" "fd < 14" for fd using that len by (simp add: given_def nth_list_update)
  have g: "given i ?t2" "given o' ?t2" using fds keep by (auto simp: given_def)
  then have "given o' (redirected i 0 ?t2)" using fds(4,5) len by (auto simp: given_def redirected_def nth_list_update)
  with g(1) k \<open>?t1 ! 1 = Some d1\<close> std show ?thesis
    unfolding redirect_stdio_def [abs_def]
    by (auto intro!: does_seq [OF does_dup2] does_seq [OF does_note] does_seq [OF does_redirect] simp: does_return)
qed

lemma does_restore_stdio:
  assumes len: "length t = 16" and t: "t ! 14 = Some d0" "t ! 15 = Some d1"
  shows "does n k t (restore_stdio sys 14 15) () (t[0 := Some d0, 14 := None, 1 := Some d1, 15 := None])"
proof -
  have g: "given 14 t" "given 15 (t[0 := Some d0, 14 := None])" using t len by (simp_all add: given_def nth_list_update)
  have r: "redirected 14 0 t = t[0 := Some d0]" "redirected 15 1 (t[0 := Some d0, 14 := None]) = t[0 := Some d0, 14 := None, 1 := Some d1]"
    using t len by (simp_all add: redirected_def nth_list_update)
  have c: "does n k t' (when_fd 14 (e_close sys)) () (t'[14 := None])" "does n k t' (when_fd 15 (e_close sys)) () (t'[15 := None])" for t'
    using does_close [of 14 n k t'] does_close [of 15 n k t'] by simp_all
  from does_redirect [OF g(1), of 0 n k] does_redirect [OF g(2), of 1 n k] r c show ?thesis
    unfolding restore_stdio_def [abs_def] by (auto intro!: does_seq)
qed

lemma restored_table:
  assumes "length t = 16" and "t ! 0 = Some d0" "t ! 1 = Some d1"
  shows "(redirected o' 1 (redirected i 0 (t[14 := Some d0, 15 := Some d1])))[0 := Some d0, 14 := None, 1 := Some d1, 15 := None] =
    t[14 := None, 15 := None]"
  using assms by (intro nth_equalityI) (auto simp: redirected_def nth_list_update)

text \<open>
  Starting a command: up to the call of \<^verbatim>\<open>spawn\<close>, which happens with the redirected table, and from its
  return on, when the shell gets its own table back, without the two saved descriptors.
\<close>

lemma spawn_command_starts:
  assumes s: "inv s" "patience s + k < n" "300 \<le> k" "k < 2 ^ 63" and cmd: "0 < cmd_argc cmd" "cmd_argc cmd \<le> length (cmd_args cmd)" "cmd_argc cmd \<le> 16"
    and std: "fds s ! 0 = Some d0" "fds s ! 1 = Some d1"
    and given: "given i (fds s)" "given o' (fds s)" "i < 14" "o' < 14" "o' \<noteq> 0"
    and say: "length (concat (announce (resolve_prog (cmd_args cmd ! 0)) (take (cmd_argc cmd) (cmd_args cmd)))) \<le> k"
  shows "\<exists>s1. inv s1 \<and> patience s1 \<le> patience s \<and> ground s1 = ground s \<and>
    fds s1 = redirected o' 1 (redirected i 0 ((fds s)[14 := Some d0, 15 := Some d1])) \<and>
    spawn_command sys n cmd i o' s =
      tryS (e_spawn sys (resolve_prog (cmd_args cmd ! 0)) (take (cmd_argc cmd) (cmd_args cmd)) s1) (finish_spawn sys n 14 15)"
proof -
  let ?path = "resolve_prog (cmd_args cmd ! 0)" and ?argv = "take (cmd_argc cmd) (cmd_args cmd)"
  let ?t = "fds s" and ?t1 = "redirected o' 1 (redirected i 0 ((fds s)[14 := Some d0, 15 := Some d1]))"
  have len: "length ?t = 16" by (rule sixteen [OF s(1)])
  from doesD [OF does_note [OF _ s(3), of "''[spawn_command] start''"] s(1,2,4) refl] obtain sa where
    sa: "note2 sys n ''[spawn_command] start'' s = (Ok (), sa)" "inv sa" "patience sa \<le> patience s" "fds sa = ?t" "ground sa = ground s" by auto
  have pa: "patience sa + k < n" using sa(3) s(2) by simp
  from doesD [OF does_redirect_stdio [OF len std given s(3)] sa(2) pa s(4) sa(4)] sa(3,5) obtain sb where
    sb: "redirect_stdio sys n i o' sa = (Ok (14, 15), sb)" "inv sb" "patience sb \<le> patience s" "fds sb = ?t1" "ground sb = ground s"
    by (auto dest: order_trans)
  have pb: "patience sb + k < n" using sb(3) s(2) by simp
  from doesD [OF does_says [OF say] sb(2) pb s(4) sb(4)] sb(3,5) obtain s1 where
    s1: "says sys n 2 (announce ?path ?argv) sb = (Ok (), s1)" "inv s1" "patience s1 \<le> patience s" "fds s1 = ?t1" "ground s1 = ground s"
    by (auto dest: order_trans)
  have "spawn_command sys n cmd i o' s = tryS (e_spawn sys ?path ?argv s1) (finish_spawn sys n 14 15)"
    using cmd sa(1) sb(1) s1(1) by (simp add: spawn_command_def finish_spawn_def [abs_def] Let_def min_absorb1)
  then show ?thesis using s1 by blast
qed

lemma does_restores:
  assumes "length t = 16" and "t ! 0 = Some d0" "t ! 1 = Some d1"
  shows "does n k (redirected o' 1 (redirected i 0 (t[14 := Some d0, 15 := Some d1]))) (restore_stdio sys 14 15) () (t[14 := None, 15 := None])"
proof -
  let ?t1 = "redirected o' 1 (redirected i 0 (t[14 := Some d0, 15 := Some d1]))"
  have "length ?t1 = 16" "?t1 ! 14 = Some d0" "?t1 ! 15 = Some d1" using assms by (simp_all add: redirected_def nth_list_update)
  from does_restore_stdio [OF this] show ?thesis unfolding restored_table [OF assms] .
qed

lemma finish_spawn_table:
  assumes "inv s" and "patience s + k < n" and "300 \<le> k" and "k < 2 ^ 63" and "length t = 16" and "t ! 0 = Some d0" "t ! 1 = Some d1"
    and "fds s = redirected o' 1 (redirected i 0 (t[14 := Some d0, 15 := Some d1]))"
  shows "\<exists>s'. finish_spawn sys n 14 15 pid s = (Ok (if pid < 0 then Inl ''spawn failed'' else Inr pid), s') \<and> inv s' \<and>
    fds s' = t[14 := None, 15 := None]"
proof -
  let ?t1 = "redirected o' 1 (redirected i 0 (t[14 := Some d0, 15 := Some d1]))"
  have "does n k ?t1 (restore_stdio sys 14 15) () (t[14 := None, 15 := None])" by (rule does_restores [OF assms(5-7)])
  then have "does n k ?t1 (finish_spawn sys n 14 15 pid) (if pid < 0 then Inl ''spawn failed'' else Inr pid) (t[14 := None, 15 := None])"
    using assms(3) unfolding finish_spawn_def [abs_def]
    by (cases "pid < 0") (auto intro!: does_seq [OF does_note] does_seq [where f = "\<lambda>_ s. tryS (f s) (g s)" for f g] does_note does_return)
  from doesD [OF this assms(1,2,4,8)] show ?thesis by blast
qed

end

section \<open>The contract on the kernel\<close>

text \<open>
  A process on its own, with the console as its standard error. Its descriptors may name pipes, as
  long as nobody waits at one (waking anyone from inside a call would spin on the process table) and
  the references others hold to pipe ends, at most \<open>B\<close> for each, leave the counts far from their limit.
\<close>

definition table_of :: "kernel \<Rightarrow> FdTable" where
  "table_of k = (case get (k_table k) (current_pid (k_table k)) of Some p \<Rightarrow> p_fd_table p | None \<Rightarrow> [])"

definition unwaited :: "kernel \<Rightarrow> bool" where
  "unwaited k \<longleftrightarrow> (\<forall>p. Some p \<in> set (k_pipes k) \<longrightarrow> waiting_readers p = [] \<and> waiting_writers p = [])"

definition shares :: "nat \<Rightarrow> FdTable \<Rightarrow> kernel \<Rightarrow> bool" where
  "shares B t k \<longleftrightarrow> unwaited k \<and> (\<exists>n. counted (plus n (refs t)) k \<and> (\<forall>i b. n i b \<le> B))"

definition sole :: "nat \<Rightarrow> FdTable \<Rightarrow> kernel \<Rightarrow> bool" where
  "sole B t k \<longleftrightarrow> alone t k \<and> shares B t k \<and> B \<le> 2 ^ 63"

definition shelling :: "env \<Rightarrow> nat \<Rightarrow> kernel \<Rightarrow> bool" where
  "shelling v B k \<longleftrightarrow> (\<forall>b. v_src v b \<noteq> 0) \<and> sole B (table_of k) k \<and> table_of k ! 2 = Some (FdUart UartWrite)"

text \<open>What the calls on descriptors leave alone: the file system, and all of the process table but the caller's own descriptors.\<close>

definition ground :: "kernel \<Rightarrow> fs_instance \<times> ProcessTable" where
  "ground k = (k_fs k, get_mut (current_pid (k_table k)) (\<lambda>p. p\<lparr>p_fd_table := []\<rparr>) (k_table k))"

lemma table_of_alone: "alone t k \<Longrightarrow> table_of k = t"
  by (auto simp: alone_def table_of_def)

lemma unwaited_quiet: "quiet (k\<lparr>k_locked := True\<rparr>) = unwaited k"
  by (simp add: quiet_def unwaited_def)

lemma shares_cong: "k_pipes k' = k_pipes k \<Longrightarrow> shares B t k' = shares B t k"
  by (simp add: shares_def unwaited_def counted_def)

lemma shares_step:
  assumes "steps_to (plus n (refs t')) (trapped k\<lparr>k_locked := True\<rparr>) k1" and "\<forall>i b. n i b \<le> B" and "unwaited k"
  shows "shares B t' k1"
proof -
  have "quiet k1" "k_locked k1" using assms(1,3) unwaited_quiet [of "trapped k"] by (auto simp: steps_to_def same_rest_def unwaited_def)
  then have "unwaited k1" by (simp add: quiet_def unwaited_def)
  then show ?thesis using assms(1,2) by (auto simp: shares_def steps_to_def)
qed

lemma sharesD:
  assumes "shares B t k"
  obtains n where "counted (plus n (refs t)) (trapped k\<lparr>k_locked := True\<rparr>)" "\<forall>i b. n i b \<le> B" "unwaited k" "quiet (trapped k\<lparr>k_locked := True\<rparr>)"
proof -
  from assms have u: "unwaited k" by (simp add: shares_def)
  then have "quiet (trapped k\<lparr>k_locked := True\<rparr>)" by (simp add: quiet_def unwaited_def)
  with assms u that show ?thesis by (auto simp: shares_def)
qed

lemma ground_set_fds:
  "k_fs k' = k_fs k \<Longrightarrow> k_table k' = get_mut (current_pid (k_table k)) (\<lambda>p. p\<lparr>p_fd_table := t\<rparr>) (k_table k) \<Longrightarrow> ground k' = ground k"
  by (simp add: ground_def get_mut_get_mut)

lemma shellingI:
  "sole B t k' \<Longrightarrow> shelling v C k \<Longrightarrow> t ! 2 = Some (FdUart UartWrite) \<Longrightarrow> shelling v B k' \<and> table_of k' = t"
  using table_of_alone [of t k'] by (simp add: shelling_def sole_def)

lemma shellingD:
  assumes "shelling v B k"
  shows "alone (table_of k) k" "shares B (table_of k) k" "B \<le> 2 ^ 63" "table_of k ! 2 = Some (FdUart UartWrite)"
    "v_src v b \<noteq> 0" "length (table_of k) = 16"
proof -
  show a: "alone (table_of k) k" and "shares B (table_of k) k" "B \<le> 2 ^ 63" "table_of k ! 2 = Some (FdUart UartWrite)" "v_src v b \<noteq> 0"
    using assms unfolding shelling_def sole_def by blast+
  show "length (table_of k) = 16" using aloneD(4) [OF a] by simp
qed

text \<open>A call on the descriptor table alone.\<close>

lemma table_call:
  assumes a: "alone t k" and run: "f t (trapped k\<lparr>k_locked := True\<rparr>) = (r, t', k1)" and rest: "same_rest (trapped k\<lparr>k_locked := True\<rparr>) k1"
    and len: "length t' = MAX_FDS"
    and h: "\<And>k. handler (v_alloc_ok v) tf k = tryS (with_current_fd_table_mut f k) (\<lambda>_ k. (Ok w, k))"
    and r: "r = Ok x \<or> r = Err e"
  shows "\<exists>k'. ecall v tf k = (Ok (case r of Ok _ \<Rightarrow> sint w | _ \<Rightarrow> sint (word_of_int (fd_errno e) :: u64)), k') \<and> alone t' k' \<and>
    k_pipes k' = k_pipes k1 \<and> k_fs k' = k_fs k \<and>
    k_table k' = get_mut (current_pid (k_table k)) (\<lambda>p. p\<lparr>p_fd_table := t'\<rparr>) (k_table k)"
proof -
  have a1: "alone t (trapped k)" using a by simp
  have same: "k_table k1 = k_table k" "k_locked k1" "k_fs k1 = k_fs k" using rest by (simp_all add: same_rest_def)
  let ?k' = "(set_fds (current_pid (k_table (trapped k))) t' k1)\<lparr>k_locked := False\<rparr>"
  have "k1\<lparr>k_locked := True\<rparr> = k1" using same(2) by simp
  then have "with_current_fd_table_mut f (trapped k) = (map_err SysFd r, ?k')" 
    using run same(1) by (intro with_current_alone [OF a1]) simp_all
  then have h': "handler (v_alloc_ok v) tf (trapped k) = (case r of Ok _ \<Rightarrow> Ok w | _ \<Rightarrow> Err (SysFd e), ?k')"
    using r by (auto simp: h)
  have a': "alone t' ?k'" using alone_after [OF a1 len, of k1] same(1) by simp
  obtain c where c: "code_of (case r of Ok _ \<Rightarrow> Ok w | _ \<Rightarrow> Err (SysFd e)) = Ok c"
    "sint c = (case r of Ok _ \<Rightarrow> sint w | _ \<Rightarrow> sint (word_of_int (fd_errno e) :: u64))" using r by auto
  from ecall_alone [OF h' c(1) a'] show ?thesis
    unfolding c(2) [symmetric] using a' same(1,3) by (auto simp: set_fds_def)
qed

lemma dup2_alone:
  assumes k: "shelling v B k" and fds: "old < 16" "new < 16" "new \<noteq> 2"
  shows "\<exists>ret k'. e_dup2 (kernel_sys v) old new k = (Ok ret, k') \<and> shelling v B k' \<and> ground k' = ground k \<and>
    (case table_of k ! old of
       Some d \<Rightarrow> ret = int new \<and> table_of k' = (table_of k)[new := Some d]
     | None \<Rightarrow> ret < 0 \<and> table_of k' = table_of k)"
proof -
  let ?t = "table_of k" and ?tf = "(v_regs v)\<lparr>a0 := SYS_DUP2, a1 := word_of_nat old, a2 := word_of_nat new\<rparr>"
  let ?k = "trapped k\<lparr>k_locked := True\<rparr>"
  note t = shellingD [OF k]
  have h: "handler (v_alloc_ok v) ?tf k = tryS (with_current_fd_table_mut (dup2 old new) k) (\<lambda>_ k. (Ok (word_of_nat new), k))" for k
    using fds by (simp add: handler_def sys_numbers sys_dup2_def unat_fd)
  have e: "e_dup2 (kernel_sys v) old new k = ecall v ?tf k" by (simp add: kernel_sys_def u_dup2_def)
  have sh: "shelling v B k' \<and> ground k' = ground k \<and> table_of k' = t'"
    if "alone t' k'" "k_fs k' = k_fs k" "k_table k' = get_mut (current_pid (k_table k)) (\<lambda>p. p\<lparr>p_fd_table := t'\<rparr>) (k_table k)"
      "shares B t' k'" "t' ! 2 = ?t ! 2" for k' t'
  proof -
    have "sole B t' k'" "t' ! 2 = Some (FdUart UartWrite)" using that t(3,4) by (simp_all add: sole_def)
    from shellingI [OF this(1) k this(2)] ground_set_fds [OF that(2,3)] show ?thesis by simp
  qed
  show ?thesis
  proof (cases "?t ! old")
    case None
    then have "dup2 old new ?t ?k = (Err BadFd, ?t, ?k)" using fds by (simp add: dup2_def)
    from table_call [OF t(1) this same_rest_refl _ h, of undefined BadFd] t(6) obtain k' where
      k': "ecall v ?tf k = (Ok (sint (word_of_int (fd_errno BadFd) :: u64)), k')" "alone ?t k'" "k_pipes k' = k_pipes k" "k_fs k' = k_fs k"
        "k_table k' = get_mut (current_pid (k_table k)) (\<lambda>p. p\<lparr>p_fd_table := ?t\<rparr>) (k_table k)" by auto
    then show ?thesis using None sh [OF k'(2,4,5)] shares_cong [OF k'(3)] t(2) by (auto simp: e errnos)
  next
    case (Some d)
    let ?t' = "?t[new := Some d]"
    from sharesD [OF t(2)] obtain n where n: "counted (plus n (refs ?t)) ?k" "\<forall>i b. n i b \<le> B" "unwaited k" "quiet ?k" .
    have "plus n (refs ?t) i b + 1 < 2 ^ 64" for i b
      using n(2) [rule_format, of i b] refs_le [of ?t i b] t(3,6) by (simp add: plus_def)
    from dup2_counted [OF n(1) _ this, of old new d] t(6) fds Some n(4) obtain k1 where
      k1: "dup2 old new ?t ?k = (Ok (), ?t', k1)" "steps_to (plus n (refs ?t')) ?k k1" by auto
    have "shares B ?t' k1" by (rule shares_step [OF k1(2) n(2,3)])
    moreover have "same_rest ?k k1" "length ?t' = MAX_FDS" using k1(2) t(6) by (simp_all add: steps_to_def)
    from table_call [OF t(1) k1(1) this h disjI1 [OF refl]] obtain k' where
      k': "ecall v ?tf k = (Ok (sint (word_of_nat new :: u64)), k')" "alone ?t' k'" "k_fs k' = k_fs k"
        "k_table k' = get_mut (current_pid (k_table k)) (\<lambda>p. p\<lparr>p_fd_table := ?t'\<rparr>) (k_table k)" "k_pipes k' = k_pipes k1"
      by auto
    ultimately show ?thesis using Some sh [OF k'(2-4)] shares_cong [OF k'(5)] k'(1) fds sint_of_nat [of new] by (auto simp: e)
  qed
qed

lemma close_alone:
  assumes k: "shelling v B k" and fd: "fd < 16" "fd \<noteq> 2"
  shows "\<exists>ret k'. e_close (kernel_sys v) fd k = (Ok ret, k') \<and> shelling v B k' \<and> ground k' = ground k \<and> table_of k' = (table_of k)[fd := None]"
proof -
  let ?t = "table_of k" and ?tf = "(v_regs v)\<lparr>a0 := SYS_CLOSE, a1 := word_of_nat fd\<rparr>" and ?t' = "(table_of k)[fd := None]"
  let ?k = "trapped k\<lparr>k_locked := True\<rparr>"
  note t = shellingD [OF k]
  have h: "handler (v_alloc_ok v) ?tf k = tryS (with_current_fd_table_mut (fd_close fd) k) (\<lambda>_ k. (Ok 0, k))" for k
    using fd by (simp add: handler_def sys_numbers sys_close_def unat_fd)
  from sharesD [OF t(2)] obtain n where n: "counted (plus n (refs ?t)) ?k" "\<forall>i b. n i b \<le> B" "unwaited k" "quiet ?k" .
  from fd_close_counted [OF n(1), of fd] t(6) fd n(4) obtain k1 where
    k1: "fd_close fd ?t ?k = (if ?t ! fd \<noteq> None then Ok () else Err BadFd, ?t', k1)" "steps_to (plus n (refs ?t')) ?k k1"
    by auto
  have "shares B ?t' k1" by (rule shares_step [OF k1(2) n(2,3)])
  moreover have "same_rest ?k k1" "length ?t' = MAX_FDS" using k1(2) t(6) by (simp_all add: steps_to_def)
  from table_call [OF t(1) k1(1) this h, of "()" BadFd] obtain ret k' where
    k': "ecall v ?tf k = (Ok ret, k')" "alone ?t' k'" "k_fs k' = k_fs k"
      "k_table k' = get_mut (current_pid (k_table k)) (\<lambda>p. p\<lparr>p_fd_table := ?t'\<rparr>) (k_table k)" "k_pipes k' = k_pipes k1"
    by (cases "?t ! fd = None") auto
  moreover note shares_cong [OF k'(5)]
  ultimately have "sole B ?t' k'" "?t' ! 2 = Some (FdUart UartWrite)" using t(3,4) fd(2) by (simp_all add: sole_def)
  from shellingI [OF this(1) k this(2)] ground_set_fds [OF k'(3,4)] k'(1) show ?thesis
    by (auto simp: kernel_sys_def u_close_def)
qed

section \<open>Spawning\<close>















lemma alone_reports [simp]: "alone t (reports ts k) = alone t k"
  by (simp add: alone_def)










lemma put_all_fields:
  "alone t (fold (put v) xs k) = alone t k" "k_table (fold (put v) xs k) = k_table k" "k_pipes (fold (put v) xs k) = k_pipes k"
  "k_fs (fold (put v) xs k) = k_fs k"
  by (induction xs arbitrary: k) (simp_all add: put_def set_umem_def)



definition spawn_memory :: "env \<Rightarrow> bytes \<Rightarrow> bytes list \<Rightarrow> kernel \<Rightarrow> kernel" where
  "spawn_memory v path argv k =
     (let k = fold (put v) (path # argv) k; m = umem (k_machine k);
          m = fill_words (unat (v_ptrs v)) (arg_array (map (unat \<circ> fst) (map (\<lambda>a. (v_src v a, slice_len a)) argv))) m;
          m = fill_words (unat (v_lens v)) (arg_array (map (unat \<circ> snd) (map (\<lambda>a. (v_src v a, slice_len a)) argv))) m
      in set_umem m k)"


lemma spawn_memory_fields [simp]:
  "alone t (spawn_memory v path argv k) = alone t k" "k_table (spawn_memory v path argv k) = k_table k"
  "k_pipes (spawn_memory v path argv k) = k_pipes k" "k_fs (spawn_memory v path argv k) = k_fs k"
proof -
  obtain m where "spawn_memory v path argv k = set_umem m (fold (put v) (path # argv) k)" by (simp add: spawn_memory_def Let_def)
  then show "alone t (spawn_memory v path argv k) = alone t k" "k_table (spawn_memory v path argv k) = k_table k"
    "k_pipes (spawn_memory v path argv k) = k_pipes k" "k_fs (spawn_memory v path argv k) = k_fs k"
    using put_all_fields [where xs = "path # argv" and v = v and k = k] by (simp_all add: set_umem_def)
qed


interpretation shell: shell_fds "kernel_sys v" "shelling v B" table_of ground printed "{2}" console "\<lambda>_. 0" for v B
proof
  fix k :: kernel and fd :: nat and buf :: bytes
  assume k: "shelling v B k" and fd: "fd \<in> {2}" and buf: "buf \<noteq> []" "length buf < 2 ^ 63"
  note t = shellingD [OF k]
  from console_write [OF t(1) _ t(4) buf t(5)] obtain k' where
    k': "e_write (kernel_sys v) 2 buf k = (Ok (int (length buf)), k')" "alone (table_of k) k'" "printed k' = printed k @ console buf"
      "k_fs k' = k_fs k" "k_pipes k' = k_pipes k"
      "k_table k' = get_mut (current_pid (k_table k)) (\<lambda>p. p\<lparr>p_fd_table := table_of k\<rparr>) (k_table k)" by (auto simp: keeps_files_def)
  have "sole B (table_of k) k'" using k'(2) shares_cong [OF k'(5)] t(2,3) by (simp add: sole_def)
  from shellingI [OF this k t(4)] ground_set_fds [OF k'(4,6)] k'(1,3) fd buf(1)
  show "\<exists>ret k'. e_write (kernel_sys v) fd buf k = (Ok ret, k') \<and> shelling v B k' \<and> (table_of k', ground k') = (table_of k, ground k) \<and>
      (ret = EAGAIN \<and> printed k' = printed k \<and> 0 < (0 :: nat) \<or>
       0 < ret \<and> ret \<le> int (length buf) \<and> printed k' = printed k @ console (take (nat ret) buf) \<and> 0 \<le> (0 :: nat))"
    by fastforce
next
  fix k assume "shelling v B k"
  then show "length (table_of k) = 16" by (rule shellingD)
next
  fix k :: kernel and old new :: nat
  assume "shelling v B k" "old < 16" "new < 16" "new \<noteq> 2"
  from dup2_alone [OF this] show "\<exists>ret k'. e_dup2 (kernel_sys v) old new k = (Ok ret, k') \<and> shelling v B k' \<and> ground k' = ground k \<and> 0 \<le> (0 :: nat) \<and>
    (case table_of k ! old of
       Some d \<Rightarrow> ret = int new \<and> table_of k' = (table_of k)[new := Some d]
     | None \<Rightarrow> ret < 0 \<and> table_of k' = table_of k)" by simp
next
  fix k :: kernel and fd :: nat
  assume "shelling v B k" "fd < 16" "fd \<noteq> 2"
  from close_alone [OF this] show "\<exists>ret k'. e_close (kernel_sys v) fd k = (Ok ret, k') \<and> shelling v B k' \<and> ground k' = ground k \<and> 0 \<le> (0 :: nat) \<and>
    table_of k' = (table_of k)[fd := None]" by simp
qed (simp_all add: console_append)

section \<open>Properties\<close>


















end
