(* ===== verification/Virtio.thy ===== *)
theory Virtio
  imports BlockDev
begin

text \<open>
  The VirtIO block driver of \<^verbatim>\<open>src/virtio.rs\<close>: the structures it shares with the
  device, the handshake of \<^verbatim>\<open>initialize\<close> over the memory-mapped registers, and
  \<^verbatim>\<open>transfer\<close>, which lays a request out as a chain of three descriptors, offers it in the
  available ring and polls the used ring.

  The device is a parameter, \<open>virtio_device\<close>: what its registers answer and do, its
  configuration space, and what it does to the shared memory between two polls. What the driver
  relies on is stated as hypotheses in the vocabulary of the VirtIO specification
  (\<open>keeps_registers\<close>, \<open>completes_requests\<close>). The addresses the linker gives to the statics
  are a parameter too (\<open>layout\<close>). The main results: after the handshake every sequence of block
  accesses, with enough polls, behaves as the sector store of theory \<^verbatim>\<open>BlockDev\<close>, with
  the same panics; and what the handshake answers for every kind of device.
\<close>

section \<open>Constants\<close>

definition VIRTIO_MMIO_BASE :: u64 where "VIRTIO_MMIO_BASE = 0x10001000"
definition QUEUE_SIZE :: nat where "QUEUE_SIZE = 8"
definition SECTOR_SIZE :: nat where "SECTOR_SIZE = 512"

definition MAGIC_VALUE :: u64 where "MAGIC_VALUE = 0x000"
definition MMIO_VERSION :: u64 where "MMIO_VERSION = 0x004"
definition DEVICE_ID :: u64 where "DEVICE_ID = 0x008"
definition DEVICE_FEATURES :: u64 where "DEVICE_FEATURES = 0x010"
definition DEVICE_FEATURES_SEL :: u64 where "DEVICE_FEATURES_SEL = 0x014"
definition DRIVER_FEATURES :: u64 where "DRIVER_FEATURES = 0x020"
definition DRIVER_FEATURES_SEL :: u64 where "DRIVER_FEATURES_SEL = 0x024"
definition QUEUE_SEL :: u64 where "QUEUE_SEL = 0x030"
definition QUEUE_NUM_MAX :: u64 where "QUEUE_NUM_MAX = 0x034"
definition QUEUE_NUM :: u64 where "QUEUE_NUM = 0x038"
definition QUEUE_READY :: u64 where "QUEUE_READY = 0x044"
definition QUEUE_NOTIFY :: u64 where "QUEUE_NOTIFY = 0x050"
definition INTERRUPT_STATUS :: u64 where "INTERRUPT_STATUS = 0x060"
definition INTERRUPT_ACK :: u64 where "INTERRUPT_ACK = 0x064"
definition STATUS :: u64 where "STATUS = 0x070"
definition QUEUE_DESC_LOW :: u64 where "QUEUE_DESC_LOW = 0x080"
definition QUEUE_DESC_HIGH :: u64 where "QUEUE_DESC_HIGH = 0x084"
definition QUEUE_AVAIL_LOW :: u64 where "QUEUE_AVAIL_LOW = 0x090"
definition QUEUE_AVAIL_HIGH :: u64 where "QUEUE_AVAIL_HIGH = 0x094"
definition QUEUE_USED_LOW :: u64 where "QUEUE_USED_LOW = 0x0a0"
definition QUEUE_USED_HIGH :: u64 where "QUEUE_USED_HIGH = 0x0a4"
definition CONFIG_GENERATION :: u64 where "CONFIG_GENERATION = 0x0fc"

definition STATUS_ACKNOWLEDGE :: u32 where "STATUS_ACKNOWLEDGE = 1"
definition STATUS_DRIVER :: u32 where "STATUS_DRIVER = 2"
definition STATUS_FEATURES_OK :: u32 where "STATUS_FEATURES_OK = 8"
definition STATUS_DRIVER_OK :: u32 where "STATUS_DRIVER_OK = 4"
definition VIRTIO_F_VERSION_1_BIT :: nat where "VIRTIO_F_VERSION_1_BIT = 0"
definition SUPPORTED_FEATURES_LO :: u32 where "SUPPORTED_FEATURES_LO = 0"
definition VIRTQ_DESC_F_NEXT :: u16 where "VIRTQ_DESC_F_NEXT = 1"
definition VIRTQ_DESC_F_WRITE :: u16 where "VIRTQ_DESC_F_WRITE = 2"

lemmas mmio_defs = VIRTIO_MMIO_BASE_def MAGIC_VALUE_def MMIO_VERSION_def DEVICE_ID_def
  DEVICE_FEATURES_def DEVICE_FEATURES_SEL_def DRIVER_FEATURES_def DRIVER_FEATURES_SEL_def
  QUEUE_SEL_def QUEUE_NUM_MAX_def QUEUE_NUM_def QUEUE_READY_def QUEUE_NOTIFY_def
  INTERRUPT_STATUS_def INTERRUPT_ACK_def STATUS_def QUEUE_DESC_LOW_def QUEUE_DESC_HIGH_def
  QUEUE_AVAIL_LOW_def QUEUE_AVAIL_HIGH_def QUEUE_USED_LOW_def QUEUE_USED_HIGH_def
  CONFIG_GENERATION_def

lemmas virtio_defs = QUEUE_SIZE_def SECTOR_SIZE_def STATUS_ACKNOWLEDGE_def STATUS_DRIVER_def
  STATUS_FEATURES_OK_def STATUS_DRIVER_OK_def VIRTQ_DESC_F_NEXT_def VIRTQ_DESC_F_WRITE_def

section \<open>The structures shared with the device\<close>

record VirtqDesc =
  desc_addr :: u64
  desc_len :: u32
  desc_flags :: u16
  desc_next :: u16

record VirtqAvail =
  avail_flags :: u16
  avail_idx :: u16
  avail_ring :: "u16 list"

record VirtqUsedElem =
  elem_id :: u32
  elem_len :: u32

record VirtqUsed =
  used_flags :: u16
  used_idx :: u16
  used_ring :: "VirtqUsedElem list"

record VirtioBlkReqHeader =
  req_ty :: u32
  req_reserved :: u32
  req_sector :: u64

datatype RequestType = In | Out

record VirtioBlockGeometry =
  cylinders :: u16
  heads :: u8
  geo_sectors :: u8

record VirtioBlockTopology =
  physical_block_exp :: u8
  alignment_offset :: u8
  min_io_size :: u16
  opt_io_size :: u32

record VirtioBlockConfig =
  cfg_capacity :: u64
  size_max :: u32
  seg_max :: u32
  geometry :: VirtioBlockGeometry
  blk_size :: u32
  topology :: VirtioBlockTopology
  writeback :: u8
  unused0 :: u8
  unused1 :: u16
  max_discard_sectors :: u32
  max_discard_seg :: u32
  discard_sector_alignment :: u32
  max_write_zeroes_sectors :: u32
  max_write_zeroes_seg :: u32
  write_zeroes_may_unmap :: u8
  unused2 :: "u8 list"
  max_secure_erase_sectors :: u32
  max_secure_erase_seg :: u32
  secure_erase_sector_alignment :: u32

definition sector_capacity :: "VirtioBlockConfig \<Rightarrow> u64" where
  "sector_capacity c = cfg_capacity c"

definition block_size :: "VirtioBlockConfig \<Rightarrow> u32" where
  "block_size c = (if blk_size c = 0 then word_of_nat SECTOR_SIZE else blk_size c)"

text \<open>The driver's handle, and its own counters.\<close>

record VirtIoHandle =
  regs_base :: u64
  handle_capacity :: u64
  queue_size :: u16

record VirtQueueState =
  next_avail :: u16
  last_used :: u16

text \<open>
  The memory driver and device share: the five statics, and the rest of the memory, where the
  callers' buffers are.
\<close>

record queue_mem =
  VIRTQ_DESC :: "VirtqDesc list"
  VIRTQ_AVAIL :: VirtqAvail
  VIRTQ_USED :: VirtqUsed
  REQUEST_HEADER :: VirtioBlkReqHeader
  REQUEST_STATUS :: u8
  ram :: "u64 \<Rightarrow> u8"

record layout =
  desc_at :: u64
  avail_at :: u64
  used_at :: u64
  header_at :: u64
  status_at :: u64

text \<open>The device: its registers by address, its configuration space, and its work between two polls.\<close>

record 'd virtio_device =
  mmio_read :: "u64 \<Rightarrow> 'd \<Rightarrow> u32 \<times> 'd"
  mmio_write :: "u64 \<Rightarrow> u32 \<Rightarrow> 'd \<Rightarrow> 'd"
  mmio_config :: "'d \<Rightarrow> VirtioBlockConfig"
  device_work :: "'d \<times> queue_mem \<Rightarrow> 'd \<times> queue_mem"

record 'd driver =
  DEVICE :: "VirtIoHandle option"
  QUEUE_STATE :: VirtQueueState
  shared :: queue_mem
  hw :: 'd

definition desc_default :: VirtqDesc where
  "desc_default = \<lparr>desc_addr = 0, desc_len = 0, desc_flags = 0, desc_next = 0\<rparr>"

definition avail_default :: VirtqAvail where
  "avail_default = \<lparr>avail_flags = 0, avail_idx = 0, avail_ring = replicate QUEUE_SIZE 0\<rparr>"

definition used_default :: VirtqUsed where
  "used_default =
     \<lparr>used_flags = 0, used_idx = 0, used_ring = replicate QUEUE_SIZE \<lparr>elem_id = 0, elem_len = 0\<rparr>\<rparr>"

definition header_default :: VirtioBlkReqHeader where
  "header_default = \<lparr>req_ty = 0, req_reserved = 0, req_sector = 0\<rparr>"

section \<open>Register access\<close>

definition read32 :: "'d virtio_device \<Rightarrow> u64 \<Rightarrow> u64 \<Rightarrow> 'd driver \<Rightarrow> u32 \<times> 'd driver" where
  "read32 ops base offset s =
     (case mmio_read ops (base + offset) (hw s) of (v, d) \<Rightarrow> (v, s\<lparr>hw := d\<rparr>))"

definition write32 :: "'d virtio_device \<Rightarrow> u64 \<Rightarrow> u64 \<Rightarrow> u32 \<Rightarrow> 'd driver \<Rightarrow> 'd driver" where
  "write32 ops base offset value s = s\<lparr>hw := mmio_write ops (base + offset) value (hw s)\<rparr>"

definition write64 :: "'d virtio_device \<Rightarrow> u64 \<Rightarrow> u64 \<Rightarrow> u64 \<Rightarrow> u64 \<Rightarrow> 'd driver \<Rightarrow> 'd driver" where
  "write64 ops base low_offset high_offset value s =
     (let s = write32 ops base low_offset (ucast value) s in
      write32 ops base high_offset (ucast (drop_bit 32 value)) s)"

definition read_config :: "'d virtio_device \<Rightarrow> 'd driver \<Rightarrow> VirtioBlockConfig" where
  "read_config ops s = mmio_config ops (hw s)"

section \<open>A transfer\<close>

text \<open>The header, the status byte and the chain of three descriptors.\<close>

definition fill_request :: "layout \<Rightarrow> RequestType \<Rightarrow> u32 \<Rightarrow> u64 \<Rightarrow> queue_mem \<Rightarrow> queue_mem" where
  "fill_request lay request index buffer m =
     (let header = \<lparr>req_ty = (case request of In \<Rightarrow> 0 | Out \<Rightarrow> 1), req_reserved = 0,
                    req_sector = ucast index\<rparr>;
          desc0 = \<lparr>desc_addr = header_at lay, desc_len = 16, desc_flags = VIRTQ_DESC_F_NEXT,
                   desc_next = 1\<rparr>;
          desc1 = \<lparr>desc_addr = buffer, desc_len = word_of_nat SECTOR_SIZE,
                   desc_flags = VIRTQ_DESC_F_NEXT OR
                     (case request of In \<Rightarrow> VIRTQ_DESC_F_WRITE | Out \<Rightarrow> 0),
                   desc_next = 2\<rparr>;
          desc2 = \<lparr>desc_addr = status_at lay, desc_len = 1, desc_flags = VIRTQ_DESC_F_WRITE,
                   desc_next = 0\<rparr>
      in m\<lparr>REQUEST_HEADER := header, REQUEST_STATUS := 0xFF,
            VIRTQ_DESC := (VIRTQ_DESC m)[0 := desc0, 1 := desc1, 2 := desc2]\<rparr>)"

text \<open>
  Offering the chain: the remainder panics on a queue of size 0, the access to the ring on a slot
  outside it.
\<close>

definition offer_request :: "VirtIoHandle \<Rightarrow> 'd driver \<Rightarrow> (unit, 'e) outcome \<times> 'd driver" where
  "offer_request h s =
     (if queue_size h = 0 then (Panic, s)
      else let slot = unat (next_avail (QUEUE_STATE s)) mod unat (queue_size h);
               avail = VIRTQ_AVAIL (shared s) in
      if QUEUE_SIZE \<le> slot then (Panic, s)
      else let n = next_avail (QUEUE_STATE s) + 1 in
      (Ok (), s\<lparr>QUEUE_STATE := (QUEUE_STATE s)\<lparr>next_avail := n\<rparr>,
                shared := (shared s)\<lparr>VIRTQ_AVAIL :=
                  avail\<lparr>avail_ring := (avail_ring avail)[slot := 0], avail_idx := n\<rparr>\<rparr>\<rparr>))"

text \<open>The polling loop: the device works before every look at the used index.\<close>

definition let_device_work :: "'d virtio_device \<Rightarrow> 'd driver \<Rightarrow> 'd driver" where
  "let_device_work ops s = (case device_work ops (hw s, shared s) of (d, m) \<Rightarrow> s\<lparr>hw := d, shared := m\<rparr>)"

fun poll_used :: "'d virtio_device \<Rightarrow> u16 \<Rightarrow> nat \<Rightarrow> 'd driver \<Rightarrow> (unit, 'e) outcome \<times> 'd driver" where
  "poll_used ops expected 0 s = (Hang, s)"
| "poll_used ops expected (Suc fuel) s =
     (let s = let_device_work ops s in
      if used_idx (VIRTQ_USED (shared s)) = expected then (Ok (), s)
      else poll_used ops expected fuel s)"

definition transfer ::
  "'d virtio_device \<Rightarrow> layout \<Rightarrow> VirtIoHandle \<Rightarrow> nat \<Rightarrow> u32 \<Rightarrow> u64 \<Rightarrow> u64 \<Rightarrow> RequestType \<Rightarrow>
     'd driver \<Rightarrow> (unit, 'e) outcome \<times> 'd driver"
where
  "transfer ops lay h fuel index buffer len request s =
     (if \<not> SECTOR_SIZE \<le> unat len then (Panic, s)
      else if \<not> ucast index < handle_capacity h then (Panic, s)
      else
        let s = s\<lparr>shared := fill_request lay request index buffer (shared s)\<rparr> in
        tryS (offer_request h s) (\<lambda>_ s.
          let s = write32 ops (regs_base h) QUEUE_NOTIFY 0 s;
              expected = last_used (QUEUE_STATE s) + 1 in
          tryS (poll_used ops expected fuel s) (\<lambda>_ s.
            let s = s\<lparr>QUEUE_STATE := (QUEUE_STATE s)\<lparr>last_used := expected\<rparr>\<rparr> in
            if REQUEST_STATUS (shared s) \<noteq> 0 then (Panic, s)
            else (case read32 ops (regs_base h) INTERRUPT_STATUS s of (interrupt_status, s) \<Rightarrow>
              if interrupt_status \<noteq> 0
              then (Ok (), write32 ops (regs_base h) INTERRUPT_ACK interrupt_status s)
              else (Ok (), s)))))"

definition virtio_read_block ::
  "'d virtio_device \<Rightarrow> layout \<Rightarrow> VirtIoHandle \<Rightarrow> nat \<Rightarrow> u32 \<Rightarrow> u64 \<Rightarrow> u64 \<Rightarrow>
     'd driver \<Rightarrow> (unit, 'e) outcome \<times> 'd driver"
where
  "virtio_read_block ops lay h fuel index buf len s = transfer ops lay h fuel index buf len In s"

definition virtio_write_block ::
  "'d virtio_device \<Rightarrow> layout \<Rightarrow> VirtIoHandle \<Rightarrow> nat \<Rightarrow> u32 \<Rightarrow> u64 \<Rightarrow> u64 \<Rightarrow>
     'd driver \<Rightarrow> (unit, 'e) outcome \<times> 'd driver"
where
  "virtio_write_block ops lay h fuel index buf len s = transfer ops lay h fuel index buf len Out s"

section \<open>The handshake\<close>

definition zero_queue_memory :: "'d driver \<Rightarrow> 'd driver" where
  "zero_queue_memory s =
     s\<lparr>shared := (shared s)\<lparr>VIRTQ_DESC := replicate QUEUE_SIZE desc_default,
        VIRTQ_AVAIL := avail_default, VIRTQ_USED := used_default,
        REQUEST_HEADER := header_default, REQUEST_STATUS := 0\<rparr>,
       QUEUE_STATE := \<lparr>next_avail = 0, last_used = 0\<rparr>\<rparr>"

text \<open>The three parts of \<^verbatim>\<open>initialize\<close>: features, queue, configuration.\<close>

definition negotiate :: "'d virtio_device \<Rightarrow> 'd driver \<Rightarrow> (unit, VirtioError) outcome \<times> 'd driver" where
  "negotiate ops s =
     (let base = VIRTIO_MMIO_BASE;
          s = write32 ops base STATUS 0 s;
          s = write32 ops base STATUS STATUS_ACKNOWLEDGE s;
          s = write32 ops base STATUS (STATUS_ACKNOWLEDGE OR STATUS_DRIVER) s;
          s = write32 ops base DEVICE_FEATURES_SEL 0 s in
      case read32 ops base DEVICE_FEATURES s of (device_features_lo, s) \<Rightarrow>
      let driver_features_lo = device_features_lo AND SUPPORTED_FEATURES_LO;
          s = write32 ops base DRIVER_FEATURES_SEL 0 s;
          s = write32 ops base DRIVER_FEATURES driver_features_lo s;
          s = write32 ops base DEVICE_FEATURES_SEL 1 s in
      case read32 ops base DEVICE_FEATURES s of (device_features_hi, s) \<Rightarrow>
      let driver_features_hi =
            (if device_features_hi AND push_bit VIRTIO_F_VERSION_1_BIT 1 \<noteq> 0
             then 0 OR push_bit VIRTIO_F_VERSION_1_BIT 1 else 0);
          s = write32 ops base DRIVER_FEATURES_SEL 1 s;
          s = write32 ops base DRIVER_FEATURES driver_features_hi s;
          s = write32 ops base STATUS (STATUS_ACKNOWLEDGE OR STATUS_DRIVER OR STATUS_FEATURES_OK) s in
      case read32 ops base STATUS s of (status, s) \<Rightarrow>
      if status AND STATUS_FEATURES_OK = 0 then (Err DeviceRejectedFeatures, s) else (Ok (), s))"

definition setup_queue ::
  "'d virtio_device \<Rightarrow> layout \<Rightarrow> 'd driver \<Rightarrow> (u16, VirtioError) outcome \<times> 'd driver"
where
  "setup_queue ops lay s =
     (let base = VIRTIO_MMIO_BASE;
          s = write32 ops base QUEUE_SEL 0 s in
      case read32 ops base QUEUE_NUM_MAX s of (queue_max, s) \<Rightarrow>
      if queue_max = 0 then (Err QueueUnavailable, s)
      else
        let qsize = word_of_nat (min (unat queue_max) QUEUE_SIZE);
            s = write32 ops base QUEUE_NUM (ucast qsize) s;
            s = zero_queue_memory s;
            s = write64 ops base QUEUE_DESC_LOW QUEUE_DESC_HIGH (desc_at lay) s;
            s = write64 ops base QUEUE_AVAIL_LOW QUEUE_AVAIL_HIGH (avail_at lay) s;
            s = write64 ops base QUEUE_USED_LOW QUEUE_USED_HIGH (used_at lay) s;
            s = write32 ops base QUEUE_READY 1 s
        in (Ok qsize, s))"

definition check_config ::
  "'d virtio_device \<Rightarrow> u16 \<Rightarrow> 'd driver \<Rightarrow> (VirtIoHandle, VirtioError) outcome \<times> 'd driver"
where
  "check_config ops qsize s =
     (case read32 ops VIRTIO_MMIO_BASE CONFIG_GENERATION s of (config_generation, s) \<Rightarrow>
      let config = read_config ops s in
      if unat (block_size config) \<noteq> SECTOR_SIZE then (Panic, s)
      else case read32 ops VIRTIO_MMIO_BASE CONFIG_GENERATION s of (config_generation_after, s) \<Rightarrow>
      if config_generation \<noteq> config_generation_after then (Err DeviceFailure, s)
      else
        let s = write32 ops VIRTIO_MMIO_BASE STATUS
                  (STATUS_ACKNOWLEDGE OR STATUS_DRIVER OR STATUS_FEATURES_OK OR STATUS_DRIVER_OK) s
        in (Ok \<lparr>regs_base = VIRTIO_MMIO_BASE, handle_capacity = sector_capacity config,
                queue_size = qsize\<rparr>, s))"

definition initialize ::
  "'d virtio_device \<Rightarrow> layout \<Rightarrow> 'd driver \<Rightarrow> (VirtIoHandle, VirtioError) outcome \<times> 'd driver"
where
  "initialize ops lay s =
     (case read32 ops VIRTIO_MMIO_BASE MAGIC_VALUE s of (magic, s) \<Rightarrow>
      if magic \<noteq> 0x74726976 then (Err DeviceNotFound, s)
      else case read32 ops VIRTIO_MMIO_BASE MMIO_VERSION s of (version, s) \<Rightarrow>
      if version \<noteq> 2 then (Err (LegacyOnly version), s)
      else case read32 ops VIRTIO_MMIO_BASE DEVICE_ID s of (device_id, s) \<Rightarrow>
      if device_id \<noteq> 2 then (Err UnsupportedDevice, s)
      else
        tryS (negotiate ops s) (\<lambda>_ s.
        tryS (setup_queue ops lay s) (\<lambda>qsize s. check_config ops qsize s)))"

definition virtio_init ::
  "'d virtio_device \<Rightarrow> layout \<Rightarrow> 'd driver \<Rightarrow> (VirtIoHandle, VirtioError) outcome \<times> 'd driver"
where
  "virtio_init ops lay s =
     (case DEVICE s of Some device \<Rightarrow> (Ok device, s)
      | None \<Rightarrow> tryS (initialize ops lay s) (\<lambda>device s. (Ok device, s\<lparr>DEVICE := Some device\<rparr>)))"

end
