(* ===== verification/VirtioProps.thy ===== *)
theory VirtioProps
  imports Virtio
begin

text \<open>
  What the VirtIO driver relies on, in the vocabulary of the VirtIO specification, and what it then
  guarantees: the handshake leaves driver and device in agreement about the queue
  (\<open>driver_ok\<close>), every transfer keeps that agreement, and sequences of transfers refine the
  sector store of theory \<^verbatim>\<open>BlockDev\<close>.
\<close>

section \<open>The device's side of the contract\<close>

text \<open>
  What can be known of the device: the sectors of its disk, its capacity, the value last written to
  each register, the features the driver has asked for in each bank, how many entries of the
  available ring it has consumed, and whether it has been notified.
\<close>

record 'd device_view =
  disk :: "'d \<Rightarrow> nat \<Rightarrow> bytes"
  disk_capacity :: "'d \<Rightarrow> u64"
  written :: "'d \<Rightarrow> u64 \<Rightarrow> u32"
  features :: "'d \<Rightarrow> u32 \<Rightarrow> u32"
  consumed :: "'d \<Rightarrow> u16"
  notified :: "'d \<Rightarrow> bool"

definition reg :: "u64 \<Rightarrow> u64" where
  "reg offset = VIRTIO_MMIO_BASE + offset"

definition area :: "'d device_view \<Rightarrow> 'd \<Rightarrow> u64 \<Rightarrow> u64 \<Rightarrow> u64" where
  "area V d low high = ucast (written V d (reg low)) OR push_bit 32 (ucast (written V d (reg high)))"

text \<open>The queue is live when the driver has finished the handshake for the areas it uses.\<close>

definition live :: "layout \<Rightarrow> 'd device_view \<Rightarrow> 'd \<Rightarrow> bool" where
  "live lay V d \<longleftrightarrow>
     written V d (reg STATUS) AND STATUS_DRIVER_OK \<noteq> 0 \<and> written V d (reg QUEUE_READY) = 1 \<and>
     area V d QUEUE_DESC_LOW QUEUE_DESC_HIGH = desc_at lay \<and>
     area V d QUEUE_AVAIL_LOW QUEUE_AVAIL_HIGH = avail_at lay \<and>
     area V d QUEUE_USED_LOW QUEUE_USED_HIGH = used_at lay"

text \<open>
  Registers: reading changes nothing; writing is remembered, and a write of features goes to the bank
  selected before; writing 0 to the status resets the queue (and may reset every register).
\<close>

definition keeps_registers :: "'d virtio_device \<Rightarrow> 'd device_view \<Rightarrow> bool" where
  "keeps_registers ops V \<longleftrightarrow>
     (\<forall>a d. let d' = snd (mmio_read ops a d) in
        disk V d' = disk V d \<and> disk_capacity V d' = disk_capacity V d \<and>
        written V d' = written V d \<and> features V d' = features V d \<and> consumed V d' = consumed V d) \<and>
     (\<forall>a v d. let d' = mmio_write ops a v d in
        disk V d' = disk V d \<and> disk_capacity V d' = disk_capacity V d \<and>
        (if a = reg STATUS \<and> v = 0 then consumed V d' = 0
         else consumed V d' = consumed V d \<and> written V d' = (written V d)(a := v) \<and>
           features V d' = (if a = reg DRIVER_FEATURES
             then (features V d)(written V d (reg DRIVER_FEATURES_SEL) := v) else features V d)) \<and>
        (a = reg QUEUE_NOTIFY \<longrightarrow> notified V d')) \<and>
     (\<forall>d. sector_capacity (mmio_config ops d) = disk_capacity V d) \<and>
     (\<forall>d j. length (disk V d j) = SECTOR_SIZE)"

text \<open>A descriptor chain, followed from its head inside a table of the queue's size.\<close>

fun desc_chain :: "nat \<Rightarrow> VirtqDesc list \<Rightarrow> nat \<Rightarrow> VirtqDesc list option" where
  "desc_chain 0 ds i = None"
| "desc_chain (Suc k) ds i =
     (if i < length ds then
        if desc_flags (ds ! i) AND VIRTQ_DESC_F_NEXT = 0 then Some [ds ! i]
        else map_option (Cons (ds ! i)) (desc_chain k ds (unat (desc_next (ds ! i))))
      else None)"

datatype blk_request = Fetch u64 u64 | Store u64 u64

fun request_sector :: "blk_request \<Rightarrow> u64" where
  "request_sector (Fetch sec a) = sec"
| "request_sector (Store sec a) = sec"

definition device_writes :: "VirtqDesc \<Rightarrow> bool" where
  "device_writes d \<longleftrightarrow> desc_flags d AND VIRTQ_DESC_F_WRITE \<noteq> 0"

text \<open>
  A block request: a header of 16 bytes the device reads, one sector of data in the direction of the
  request, one status byte the device writes.
\<close>

definition request_of :: "layout \<Rightarrow> VirtioBlkReqHeader \<Rightarrow> VirtqDesc list \<Rightarrow> blk_request option" where
  "request_of lay header ds =
     (case ds of
        [h, b, s] \<Rightarrow>
          if desc_addr h = header_at lay \<and> desc_len h = 16 \<and> \<not> device_writes h \<and>
             desc_len b = word_of_nat SECTOR_SIZE \<and>
             desc_addr s = status_at lay \<and> desc_len s = 1 \<and> device_writes s
          then if req_ty header = 0 \<and> device_writes b
               then Some (Fetch (req_sector header) (desc_addr b))
               else if req_ty header = 1 \<and> \<not> device_writes b
               then Some (Store (req_sector header) (desc_addr b)) else None
          else None
      | _ \<Rightarrow> None)"

definition parse_request :: "layout \<Rightarrow> nat \<Rightarrow> queue_mem \<Rightarrow> nat \<Rightarrow> blk_request option" where
  "parse_request lay n m head =
     Option.bind (desc_chain n (take n (VIRTQ_DESC m)) head) (request_of lay (REQUEST_HEADER m))"

definition bytes_at :: "(u64 \<Rightarrow> u8) \<Rightarrow> u64 \<Rightarrow> nat \<Rightarrow> bytes" where
  "bytes_at r a n = map (\<lambda>i. r (a + word_of_nat i)) [0..<n]"

definition store_bytes :: "u64 \<Rightarrow> bytes \<Rightarrow> (u64 \<Rightarrow> u8) \<Rightarrow> u64 \<Rightarrow> u8" where
  "store_bytes a bs r = (\<lambda>x. if unat (x - a) < length bs then bs ! unat (x - a) else r x)"

fun serve :: "blk_request \<Rightarrow> (nat \<Rightarrow> bytes) \<times> (u64 \<Rightarrow> u8) \<Rightarrow> (nat \<Rightarrow> bytes) \<times> (u64 \<Rightarrow> u8)" where
  "serve (Fetch sec a) (dk, r) = (dk, store_bytes a (dk (unat sec)) r)"
| "serve (Store sec a) (dk, r) = (dk(unat sec := bytes_at r a SECTOR_SIZE), r)"

text \<open>
  A notified device with one outstanding request inside its capacity serves it after finitely many
  steps: it moves the sector, sets the status to 0 and advances the used index by one, and before
  that the used index stays as it is.
\<close>

definition ring_size :: "'d device_view \<Rightarrow> 'd \<Rightarrow> nat" where
  "ring_size V d = unat (written V d (reg QUEUE_NUM))"

definition outstanding :: "layout \<Rightarrow> 'd device_view \<Rightarrow> 'd \<Rightarrow> queue_mem \<Rightarrow> blk_request \<Rightarrow> bool" where
  "outstanding lay V d m r \<longleftrightarrow>
     live lay V d \<and> notified V d \<and> avail_idx (VIRTQ_AVAIL m) = consumed V d + 1 \<and>
     parse_request lay (ring_size V d) m
       (unat (avail_ring (VIRTQ_AVAIL m) ! (unat (consumed V d) mod ring_size V d))) = Some r \<and>
     request_sector r < disk_capacity V d"

definition served ::
  "'d device_view \<Rightarrow> blk_request \<Rightarrow> 'd \<times> queue_mem \<Rightarrow> 'd \<times> queue_mem \<Rightarrow> bool"
where
  "served V r x y \<longleftrightarrow>
     (case x of (d, m) \<Rightarrow> case y of (d', m') \<Rightarrow>
      (disk V d', ram m') = serve r (disk V d, ram m) \<and>
      m' = m\<lparr>ram := ram m', REQUEST_STATUS := 0, VIRTQ_USED := VIRTQ_USED m'\<rparr> \<and>
      used_idx (VIRTQ_USED m') = used_idx (VIRTQ_USED m) + 1 \<and>
      consumed V d' = consumed V d + 1 \<and> disk_capacity V d' = disk_capacity V d \<and>
      written V d' = written V d)"

definition completes_requests :: "'d virtio_device \<Rightarrow> layout \<Rightarrow> 'd device_view \<Rightarrow> bool" where
  "completes_requests ops lay V \<longleftrightarrow>
     (\<forall>d m r. outstanding lay V d m r \<longrightarrow>
       (\<exists>k. served V r (d, m) ((device_work ops ^^ Suc k) (d, m)) \<and>
            (\<forall>j\<le>k. used_idx (VIRTQ_USED (snd ((device_work ops ^^ j) (d, m)))) =
                    used_idx (VIRTQ_USED m))))"

section \<open>Agreement of driver and device\<close>

definition driver_ok :: "layout \<Rightarrow> 'd device_view \<Rightarrow> VirtIoHandle \<Rightarrow> 'd driver \<Rightarrow> bool" where
  "driver_ok lay V h s \<longleftrightarrow>
     regs_base h = VIRTIO_MMIO_BASE \<and> 3 \<le> unat (queue_size h) \<and> unat (queue_size h) \<le> QUEUE_SIZE \<and>
     written V (hw s) (reg QUEUE_NUM) = ucast (queue_size h) \<and>
     live lay V (hw s) \<and> disk_capacity V (hw s) = handle_capacity h \<and>
     length (VIRTQ_DESC (shared s)) = QUEUE_SIZE \<and>
     length (avail_ring (VIRTQ_AVAIL (shared s))) = QUEUE_SIZE \<and>
     avail_idx (VIRTQ_AVAIL (shared s)) = next_avail (QUEUE_STATE s) \<and>
     used_idx (VIRTQ_USED (shared s)) = last_used (QUEUE_STATE s) \<and>
     consumed V (hw s) = next_avail (QUEUE_STATE s)"

definition driver_disk :: "'d device_view \<Rightarrow> VirtIoHandle \<Rightarrow> 'd driver \<Rightarrow> VirtIoBlock" where
  "driver_disk V h s = \<lparr>capacity_sectors = handle_capacity h, sectors = disk V (hw s)\<rparr>"

section \<open>Memory\<close>

lemma length_bytes_at [simp]: "length (bytes_at r a n) = n"
  by (simp add: bytes_at_def)

lemma unat_offset: "i < 2 ^ 64 \<Longrightarrow> unat (a + word_of_nat i - a :: u64) = i"
  by (simp add: unat_of_nat take_bit_eq_mod)

lemma bytes_at_store:
  assumes "length bs \<le> n" and "n \<le> 2 ^ 64"
  shows "bytes_at (store_bytes a bs r) a n = put_slice 0 bs (bytes_at r a n)"
proof (rule nth_equalityI)
  show "length (bytes_at (store_bytes a bs r) a n) = length (put_slice 0 bs (bytes_at r a n))"
    using assms by simp
  fix i assume "i < length (bytes_at (store_bytes a bs r) a n)"
  then have i: "i < n" "unat (a + word_of_nat i - a) = i"
    using assms(2) unat_offset [of i a] by auto
  then show "bytes_at (store_bytes a bs r) a n ! i = put_slice 0 bs (bytes_at r a n) ! i"
    using assms(1) by (simp add: bytes_at_def store_bytes_def put_slice_def nth_append)
qed

lemma store_bytes_at:
  assumes "length bs \<le> n" and "n \<le> 2 ^ 64"
  shows "store_bytes a (put_slice 0 bs (bytes_at r a n)) r = store_bytes a bs r"
proof
  fix x
  have "a + word_of_nat (unat (x - a)) = x" by simp
  then show "store_bytes a (put_slice 0 bs (bytes_at r a n)) r x = store_bytes a bs r x"
    using assms(1) by (simp add: store_bytes_def put_slice_def nth_append bytes_at_def)
qed

lemma take_bytes_at: "n \<le> k \<Longrightarrow> take n (bytes_at r a k) = bytes_at r a n"
  by (simp add: bytes_at_def take_map)

lemma halves: "(ucast (ucast a :: u32) OR push_bit 32 (ucast (ucast (drop_bit 32 a) :: u32)) :: u64) = a"
  for a :: u64
  by (rule bit_word_eqI) (auto simp: bit_simps)

section \<open>The polling loop\<close>

lemma let_device_work_simps [simp]:
  "hw (let_device_work ops s) = fst (device_work ops (hw s, shared s))"
  "shared (let_device_work ops s) = snd (device_work ops (hw s, shared s))"
  "(let_device_work ops s)\<lparr>hw := d, shared := m\<rparr> = s\<lparr>hw := d, shared := m\<rparr>"
  by (simp_all add: let_device_work_def split: prod.split)

lemma poll_used_ok:
  assumes "(device_work ops ^^ Suc k) (hw s, shared s) = (d', m')"
    and "\<And>j. j \<le> k \<Longrightarrow> used_idx (VIRTQ_USED (snd ((device_work ops ^^ j) (hw s, shared s)))) \<noteq> e"
    and "used_idx (VIRTQ_USED m') = e" and "k < fuel"
  shows "poll_used ops e fuel s = (Ok () :: (unit, 'e) outcome, s\<lparr>hw := d', shared := m'\<rparr>)"
  using assms
proof (induction k arbitrary: s fuel)
  case 0
  then show ?case by (cases fuel) (auto simp: let_device_work_def Let_def)
next
  case (Suc k)
  let ?s = "let_device_work ops s"
  have work: "(device_work ops ^^ j) (hw ?s, shared ?s) = (device_work ops ^^ Suc j) (hw s, shared s)" for j
    by (simp only: let_device_work_simps prod.collapse funpow_Suc_right comp_def)
  from Suc.prems(4) obtain f where f: "fuel = Suc f" "k < f" by (cases fuel) auto
  have "used_idx (VIRTQ_USED (shared ?s)) \<noteq> e" using Suc.prems(2) [of 1] by simp
  moreover have "poll_used ops e f ?s = (Ok () :: (unit, 'e) outcome, ?s\<lparr>hw := d', shared := m'\<rparr>)"
  proof (rule Suc.IH)
    show "(device_work ops ^^ Suc k) (hw ?s, shared ?s) = (d', m')"
      using Suc.prems(1) by (simp only: work)
    show "used_idx (VIRTQ_USED (snd ((device_work ops ^^ j) (hw ?s, shared ?s)))) \<noteq> e"
      if "j \<le> k" for j
      using Suc.prems(2) [of "Suc j"] that by (simp only: work Suc_le_mono not_False_eq_True)
  qed (use Suc.prems(3) f in auto)
  ultimately show ?case by (simp add: f(1) Let_def)
qed

section \<open>One transfer\<close>

fun request_for :: "RequestType \<Rightarrow> u32 \<Rightarrow> u64 \<Rightarrow> blk_request" where
  "request_for In index buffer = Fetch (ucast index) buffer"
| "request_for Out index buffer = Store (ucast index) buffer"

lemma request_sector_for [simp]: "request_sector (request_for q index buffer) = ucast index"
  by (cases q) simp_all

text \<open>The chain \<^verbatim>\<open>transfer\<close> lays out is the request it means, in a queue of at least three descriptors.\<close>

lemma parse_fill_request:
  assumes "3 \<le> n" and "n \<le> length (VIRTQ_DESC m)"
  shows "parse_request lay n (fill_request lay q index buffer m) 0 = Some (request_for q index buffer)"
proof -
  from assms(1) obtain k where n: "n = Suc (Suc (Suc k))"
    by (metis Suc_le_D numeral_3_eq_3 Suc_le_mono)
  with assms(2) have len: "0 < length (VIRTQ_DESC m)" "1 < length (VIRTQ_DESC m)" "2 < length (VIRTQ_DESC m)"
    by auto
  show ?thesis
    using n len assms(2)
    by (cases q)
      (simp_all add: parse_request_def fill_request_def Let_def request_of_def device_writes_def
        virtio_defs nth_list_update)
qed

lemma parse_request_avail [simp]:
  "parse_request lay n (m\<lparr>VIRTQ_AVAIL := a\<rparr>) head = parse_request lay n m head"
  by (simp add: parse_request_def)

lemma fill_request_simps [simp]:
  "length (VIRTQ_DESC (fill_request lay q index buffer m)) = length (VIRTQ_DESC m)"
  "VIRTQ_AVAIL (fill_request lay q index buffer m) = VIRTQ_AVAIL m"
  "VIRTQ_USED (fill_request lay q index buffer m) = VIRTQ_USED m"
  "ram (fill_request lay q index buffer m) = ram m"
  by (simp_all add: fill_request_def Let_def)

text \<open>What the laws say of the three register accesses of a transfer.\<close>

lemma read_keeps:
  assumes "keeps_registers ops V"
  shows "disk V (snd (mmio_read ops a d)) = disk V d"
    "disk_capacity V (snd (mmio_read ops a d)) = disk_capacity V d"
    "written V (snd (mmio_read ops a d)) = written V d"
    "consumed V (snd (mmio_read ops a d)) = consumed V d"
    "features V (snd (mmio_read ops a d)) = features V d"
  using assms unfolding keeps_registers_def Let_def by blast+

lemma write_keeps:
  assumes "keeps_registers ops V"
  shows "disk V (mmio_write ops a v d) = disk V d"
    "disk_capacity V (mmio_write ops a v d) = disk_capacity V d"
    "\<not> (a = reg STATUS \<and> v = 0) \<Longrightarrow> consumed V (mmio_write ops a v d) = consumed V d"
    "\<not> (a = reg STATUS \<and> v = 0) \<Longrightarrow> written V (mmio_write ops a v d) = (written V d)(a := v)"
    "\<not> (a = reg STATUS \<and> v = 0) \<Longrightarrow> a \<noteq> reg DRIVER_FEATURES \<Longrightarrow> features V (mmio_write ops a v d) = features V d"
    "features V (mmio_write ops (reg DRIVER_FEATURES) v d) = (features V d)(written V d (reg DRIVER_FEATURES_SEL) := v)"
proof -
  have "reg DRIVER_FEATURES \<noteq> reg STATUS" by (simp add: reg_def mmio_defs)
  then show "features V (mmio_write ops (reg DRIVER_FEATURES) v d) = (features V d)(written V d (reg DRIVER_FEATURES_SEL) := v)"
    using assms unfolding keeps_registers_def Let_def by metis
qed (use assms in \<open>unfold keeps_registers_def Let_def, metis+\<close>)

lemma status_reset: "keeps_registers ops V \<Longrightarrow> consumed V (mmio_write ops (reg STATUS) 0 d) = 0"
  unfolding keeps_registers_def Let_def by metis

lemma notify_notifies: "keeps_registers ops V \<Longrightarrow> notified V (mmio_write ops (reg QUEUE_NOTIFY) v d)"
  unfolding keeps_registers_def Let_def by metis

lemma reg_distinct [simp]:
  "reg QUEUE_NOTIFY \<noteq> reg STATUS" "reg INTERRUPT_ACK \<noteq> reg STATUS"
  by (simp_all add: reg_def mmio_defs)

text \<open>Registers a live queue does not depend on.\<close>

definition queue_registers :: "u64 set" where
  "queue_registers = reg ` {STATUS, QUEUE_READY, QUEUE_NUM, QUEUE_DESC_LOW, QUEUE_DESC_HIGH,
     QUEUE_AVAIL_LOW, QUEUE_AVAIL_HIGH, QUEUE_USED_LOW, QUEUE_USED_HIGH}"

lemma live_cong:
  assumes "written V d' = (written V d)(a := v)" and "a \<notin> queue_registers"
  shows "live lay V d' = live lay V d" "written V d' (reg QUEUE_NUM) = written V d (reg QUEUE_NUM)"
  using assms by (auto simp: live_def area_def queue_registers_def)

lemma ring_size_ucast: "written V d (reg QUEUE_NUM) = ucast (n :: u16) \<Longrightarrow> ring_size V d = unat n"
  using unat_less_pow [of n] by (simp add: ring_size_def unat_ucast_mod)

lemma not_queue_register: "reg QUEUE_NOTIFY \<notin> queue_registers" "reg INTERRUPT_ACK \<notin> queue_registers"
  by (simp_all add: queue_registers_def reg_def mmio_defs)

lemma slot_bound: "0 < n \<Longrightarrow> n \<le> QUEUE_SIZE \<Longrightarrow> i mod n < QUEUE_SIZE"
  by (meson less_le_trans mod_less_divisor)

lemma offer_request_ok:
  assumes "0 < unat (queue_size h)" and "unat (queue_size h) \<le> QUEUE_SIZE"
  shows "offer_request h s = (Ok (),
    s\<lparr>QUEUE_STATE := (QUEUE_STATE s)\<lparr>next_avail := next_avail (QUEUE_STATE s) + 1\<rparr>,
      shared := (shared s)\<lparr>VIRTQ_AVAIL := (VIRTQ_AVAIL (shared s))\<lparr>
        avail_ring := (avail_ring (VIRTQ_AVAIL (shared s)))
          [unat (next_avail (QUEUE_STATE s)) mod unat (queue_size h) := 0],
        avail_idx := next_avail (QUEUE_STATE s) + 1\<rparr>\<rparr>\<rparr>)"
proof -
  have "unat (next_avail (QUEUE_STATE s)) mod unat (queue_size h) < QUEUE_SIZE"
    using assms by (rule slot_bound)
  moreover have "queue_size h \<noteq> 0" using assms(1) by auto
  ultimately show ?thesis by (simp add: offer_request_def Let_def)
qed

text \<open>The state in which the device finds the request.\<close>

definition request_posted ::
  "'d virtio_device \<Rightarrow> layout \<Rightarrow> VirtIoHandle \<Rightarrow> u32 \<Rightarrow> u64 \<Rightarrow> RequestType \<Rightarrow> 'd driver \<Rightarrow> 'd driver"
where
  "request_posted ops lay h index buffer q s =
     write32 ops (regs_base h) QUEUE_NOTIFY 0
       (snd (offer_request h (s\<lparr>shared := fill_request lay q index buffer (shared s)\<rparr>) :: (unit, unit) outcome \<times> _))"

lemma request_posted_simps:
  fixes s :: "'d driver" and ops :: "'d virtio_device" and index :: u32 and buffer :: u64 and q :: RequestType
  assumes "driver_ok lay V h s"
  defines "t \<equiv> request_posted ops lay h index buffer q s"
  shows "hw t = mmio_write ops (reg QUEUE_NOTIFY) 0 (hw s)"
    "QUEUE_STATE t = (QUEUE_STATE s)\<lparr>next_avail := next_avail (QUEUE_STATE s) + 1\<rparr>"
    "DEVICE t = DEVICE s"
    "shared t = (fill_request lay q index buffer (shared s))\<lparr>VIRTQ_AVAIL := (VIRTQ_AVAIL (shared s))\<lparr>
        avail_ring := (avail_ring (VIRTQ_AVAIL (shared s)))
          [unat (next_avail (QUEUE_STATE s)) mod unat (queue_size h) := 0],
        avail_idx := next_avail (QUEUE_STATE s) + 1\<rparr>\<rparr>"
  using assms by (simp_all add: request_posted_def driver_ok_def offer_request_ok write32_def reg_def)

lemma request_posted_outstanding:
  fixes s :: "'d driver" and ops :: "'d virtio_device" and index :: u32 and buffer :: u64 and q :: RequestType
  assumes regs: "keeps_registers ops V" and ok: "driver_ok lay V h s"
    and index: "ucast index < handle_capacity h"
  defines "t \<equiv> request_posted ops lay h index buffer q s"
  shows "outstanding lay V (hw t) (shared t) (request_for q index buffer)"
proof -
  note t = request_posted_simps [OF ok, of ops index buffer q, folded t_def]
  have written: "written V (hw t) = (written V (hw s))(reg QUEUE_NOTIFY := 0)"
    using regs by (simp add: t(1) write_keeps)
  then have live: "live lay V (hw t)" and num: "ring_size V (hw t) = unat (queue_size h)"
    using live_cong [OF written not_queue_register(1)] ok by (simp_all add: driver_ok_def ring_size_ucast)
  let ?n = "unat (queue_size h)" and ?na = "next_avail (QUEUE_STATE s)"
  have "unat ?na mod ?n < length (avail_ring (VIRTQ_AVAIL (shared s)))"
    using ok slot_bound [of ?n "unat ?na"] by (simp add: driver_ok_def)
  moreover have "parse_request lay ?n (shared t) 0 = Some (request_for q index buffer)"
    using ok by (simp add: t(4) parse_fill_request driver_ok_def)
  ultimately show ?thesis
    using ok regs index live
    by (simp add: outstanding_def t(1,4) num [unfolded t(1)] live [unfolded t(1)] write_keeps
        notify_notifies driver_ok_def)
qed

text \<open>After the device has served the request.\<close>

definition request_done ::
  "'d virtio_device \<Rightarrow> 'd driver \<Rightarrow> 'd \<Rightarrow> queue_mem \<Rightarrow> 'd driver"
where
  "request_done ops t d m =
     (let s = t\<lparr>hw := d, shared := m, QUEUE_STATE := (QUEUE_STATE t)\<lparr>last_used := last_used (QUEUE_STATE t) + 1\<rparr>\<rparr> in
      case read32 ops VIRTIO_MMIO_BASE INTERRUPT_STATUS s of (v, s) \<Rightarrow>
      if v \<noteq> 0 then write32 ops VIRTIO_MMIO_BASE INTERRUPT_ACK v s else s)"

lemma request_done_simps [simp]:
  "shared (request_done ops t d m) = m" "DEVICE (request_done ops t d m) = DEVICE t"
  "QUEUE_STATE (request_done ops t d m) = (QUEUE_STATE t)\<lparr>last_used := last_used (QUEUE_STATE t) + 1\<rparr>"
  by (auto simp: request_done_def read32_def write32_def Let_def split: prod.split)

lemma request_done_view:
  assumes "keeps_registers ops V"
  shows "disk V (hw (request_done ops t d m)) = disk V d"
    "disk_capacity V (hw (request_done ops t d m)) = disk_capacity V d"
    "consumed V (hw (request_done ops t d m)) = consumed V d"
    "live lay V (hw (request_done ops t d m)) = live lay V d"
    "written V (hw (request_done ops t d m)) (reg QUEUE_NUM) = written V d (reg QUEUE_NUM)"
proof -
  obtain v d1 where r: "mmio_read ops (reg INTERRUPT_STATUS) d = (v, d1)" by fastforce
  note r1 = read_keeps [OF assms, of "reg INTERRUPT_STATUS" d, unfolded r snd_conv]
  have hw: "hw (request_done ops t d m) = (if v \<noteq> 0 then mmio_write ops (reg INTERRUPT_ACK) v d1 else d1)"
    using r by (simp add: request_done_def read32_def write32_def reg_def)
  have w: "written V (mmio_write ops (reg INTERRUPT_ACK) v d1) = (written V d1)(reg INTERRUPT_ACK := v)"
    using assms by (simp add: write_keeps)
  note l = live_cong [OF w not_queue_register(2)]
  have l1: "live lay V d1 = live lay V d" using r1(3) by (simp add: live_def area_def)
  show "disk V (hw (request_done ops t d m)) = disk V d"
    "disk_capacity V (hw (request_done ops t d m)) = disk_capacity V d"
    "consumed V (hw (request_done ops t d m)) = consumed V d"
    using r1 by (simp_all add: hw write_keeps [OF assms])
  show "live lay V (hw (request_done ops t d m)) = live lay V d"
    "written V (hw (request_done ops t d m)) (reg QUEUE_NUM) = written V d (reg QUEUE_NUM)"
    using r1 l l1 by (simp_all add: hw)
qed

lemma transfer_ok:
  fixes s :: "'d driver"
  assumes regs: "keeps_registers ops V" and completes: "completes_requests ops lay V"
    and ok: "driver_ok lay V h s"
    and len: "SECTOR_SIZE \<le> unat len" and index: "ucast index < handle_capacity h"
  shows "\<exists>F s'. driver_ok lay V h s' \<and>
      (disk V (hw s'), ram (shared s')) = serve (request_for q index buffer) (disk V (hw s), ram (shared s)) \<and>
      (\<forall>fuel \<ge> F. transfer ops lay h fuel index buffer len q s = (Ok () :: (unit, 'e) outcome, s'))"
proof -
  let ?t = "request_posted ops lay h index buffer q s" and ?r = "request_for q index buffer"
  note t = request_posted_simps [OF ok, of ops index buffer q]
  from completes request_posted_outstanding [OF regs ok index, of buffer q]
  obtain k d m where work: "(device_work ops ^^ Suc k) (hw ?t, shared ?t) = (d, m)"
    and served: "served V ?r (hw ?t, shared ?t) (d, m)"
    and early: "\<And>j. j \<le> k \<Longrightarrow> used_idx (VIRTQ_USED (snd ((device_work ops ^^ j) (hw ?t, shared ?t)))) =
                  used_idx (VIRTQ_USED (shared ?t))"
    unfolding completes_requests_def by (metis surj_pair)
  define s' where "s' = request_done ops ?t d m"
  have base: "regs_base h = VIRTIO_MMIO_BASE" and last: "used_idx (VIRTQ_USED (shared s)) = last_used (QUEUE_STATE s)"
    using ok by (simp_all add: driver_ok_def)
  have m: "m = (shared ?t)\<lparr>ram := ram m, REQUEST_STATUS := 0, VIRTQ_USED := VIRTQ_USED m\<rparr>"
    and sv: "used_idx (VIRTQ_USED m) = used_idx (VIRTQ_USED (shared ?t)) + 1"
      "consumed V d = consumed V (hw ?t) + 1" "disk_capacity V d = disk_capacity V (hw ?t)"
      "written V d = written V (hw ?t)" "(disk V d, ram m) = serve ?r (disk V (hw ?t), ram (shared ?t))"
    using served by (simp_all add: served_def)
  have mem: "VIRTQ_DESC m = VIRTQ_DESC (shared ?t)" "VIRTQ_AVAIL m = VIRTQ_AVAIL (shared ?t)" "REQUEST_STATUS m = 0"
    using arg_cong [OF m, of VIRTQ_DESC] arg_cong [OF m, of VIRTQ_AVAIL] arg_cong [OF m, of REQUEST_STATUS]
    by simp_all
  have poll: "poll_used ops (last_used (QUEUE_STATE ?t) + 1) fuel ?t =
      (Ok () :: (unit, 'e) outcome, ?t\<lparr>hw := d, shared := m\<rparr>)" if "Suc k \<le> fuel" for fuel
    by (rule poll_used_ok [OF work]) (use early sv that in \<open>simp_all add: t(2,4) last\<close>)
  have "transfer ops lay h fuel index buffer len q s = (Ok () :: (unit, 'e) outcome, s')"
    if "Suc k \<le> fuel" for fuel
  proof -
    show ?thesis
      using len index poll [OF that] ok mem(3)
      by (simp add: transfer_def Let_def request_posted_def offer_request_ok driver_ok_def
          s'_def request_done_def base split: prod.split)
  qed
  moreover have "driver_ok lay V h s'"
  proof -
    have "live lay V d" "written V d (reg QUEUE_NUM) = ucast (queue_size h)"
      using live_cong [OF _ not_queue_register(1), of V d "hw s" 0] sv(4) ok regs
      by (simp_all add: t(1) write_keeps driver_ok_def)
    then show ?thesis
      using ok sv mem regs by (simp add: driver_ok_def s'_def request_done_view t write_keeps)
  qed
  moreover have "(disk V (hw s'), ram (shared s')) = serve ?r (disk V (hw s), ram (shared s))"
    using sv(5) regs by (simp add: s'_def request_done_view t write_keeps)
  ultimately show ?thesis by blast
qed

section \<open>Sequences of transfers\<close>

text \<open>A call names the block, the address of the buffer and its length.\<close>

datatype block_call = ReadCall u32 u64 u64 | WriteCall u32 u64 u64

fun driver_call ::
  "'d virtio_device \<Rightarrow> layout \<Rightarrow> VirtIoHandle \<Rightarrow> nat \<Rightarrow> block_call \<Rightarrow> 'd driver \<Rightarrow> (unit, 'e) outcome \<times> 'd driver"
where
  "driver_call ops lay h fuel (ReadCall i a n) s = virtio_read_block ops lay h fuel i a n s"
| "driver_call ops lay h fuel (WriteCall i a n) s = virtio_write_block ops lay h fuel i a n s"

fun driver_calls ::
  "'d virtio_device \<Rightarrow> layout \<Rightarrow> VirtIoHandle \<Rightarrow> nat \<Rightarrow> block_call list \<Rightarrow> 'd driver \<Rightarrow> (unit, 'e) outcome \<times> 'd driver"
where
  "driver_calls ops lay h fuel [] s = (Ok (), s)"
| "driver_calls ops lay h fuel (c # cs) s =
     tryS (driver_call ops lay h fuel c s) (\<lambda>_ s. driver_calls ops lay h fuel cs s)"

text \<open>The same calls on the sector store, with the callers' memory.\<close>

fun store_call :: "block_call \<Rightarrow> VirtIoBlock \<times> (u64 \<Rightarrow> u8) \<Rightarrow> (unit, 'e) outcome \<times> VirtIoBlock \<times> (u64 \<Rightarrow> u8)"
where
  "store_call (ReadCall i a n) (b, r) =
     tryS (read_block b i (bytes_at r a (unat n)), b, r) (\<lambda>buf (b, r). (Ok (), b, store_bytes a buf r))"
| "store_call (WriteCall i a n) (b, r) =
     (case write_block b i (bytes_at r a (unat n)) of (result, b') \<Rightarrow> (result, b', r))"

fun store_calls ::
  "block_call list \<Rightarrow> VirtIoBlock \<times> (u64 \<Rightarrow> u8) \<Rightarrow> (unit, 'e) outcome \<times> VirtIoBlock \<times> (u64 \<Rightarrow> u8)"
where
  "store_calls [] x = (Ok (), x)"
| "store_calls (c # cs) x = tryS (store_call c x) (\<lambda>_ x. store_calls cs x)"

definition call_request :: "block_call \<Rightarrow> RequestType \<times> u32 \<times> u64 \<times> u64" where
  "call_request c = (case c of ReadCall i a n \<Rightarrow> (In, i, a, n) | WriteCall i a n \<Rightarrow> (Out, i, a, n))"

lemma driver_call_transfer:
  "call_request c = (q, i, a, n) \<Longrightarrow> driver_call ops lay h fuel c s = transfer ops lay h fuel i a n q s"
  by (cases c) (auto simp: call_request_def virtio_read_block_def virtio_write_block_def)

lemma store_call_serve:
  assumes "call_request c = (q, i, a, n)" and "SECTOR_SIZE \<le> unat n" and "ucast i < capacity_sectors b"
    and "length (sectors b (unat i)) = SECTOR_SIZE"
  shows "store_call c (b, r) =
    (Ok (), b\<lparr>sectors := fst (serve (request_for q i a) (sectors b, r))\<rparr>,
     snd (serve (request_for q i a) (sectors b, r)))"
proof -
  have "unat n \<le> 2 ^ 64" using unat_less_pow [of n] by simp
  with assms show ?thesis
    by (cases c)
      (auto simp: call_request_def read_block_def write_block_def SECTOR_SIZE_def unat_u32_to_u64
        store_bytes_at take_bytes_at)
qed

lemma store_call_panic:
  assumes "call_request c = (q, i, a, n)" and "\<not> (SECTOR_SIZE \<le> unat n \<and> ucast i < capacity_sectors b)"
  shows "store_call c (b, r) = (Panic, b, r)"
  using assms
  by (cases c) (auto simp: call_request_def read_block_def write_block_def SECTOR_SIZE_def)

lemma driver_call_ok:
  fixes s :: "'d driver"
  assumes regs: "keeps_registers ops V" and completes: "completes_requests ops lay V"
    and ok: "driver_ok lay V h s"
  shows "\<exists>F s'. driver_ok lay V h s' \<and>
    (\<exists>result :: (unit, 'e) outcome.
      store_call c (driver_disk V h s, ram (shared s)) = (result, driver_disk V h s', ram (shared s')) \<and>
      (\<forall>fuel \<ge> F. driver_call ops lay h fuel c s = (result, s')))"
proof -
  obtain q i a n where c: "call_request c = (q, i, a, n)" by (metis surj_pair)
  have len: "length (disk V (hw s) j) = SECTOR_SIZE" for j
    using regs by (simp add: keeps_registers_def)
  show ?thesis
  proof (cases "SECTOR_SIZE \<le> unat n \<and> ucast i < handle_capacity h")
    case True
    with transfer_ok [OF regs completes ok, of n i q a]
    obtain F s' where s': "driver_ok lay V h s'"
      "(disk V (hw s'), ram (shared s')) = serve (request_for q i a) (disk V (hw s), ram (shared s))"
      "\<forall>fuel \<ge> F. transfer ops lay h fuel i a n q s = (Ok () :: (unit, 'e) outcome, s')"
      by blast
    have "store_call c (driver_disk V h s, ram (shared s)) =
        (Ok () :: (unit, 'e) outcome, driver_disk V h s', ram (shared s'))"
      using True len s'(2) [symmetric] by (simp add: store_call_serve [OF c] driver_disk_def)
    with s' driver_call_transfer [OF c] show ?thesis by metis
  next
    case False
    then have "transfer ops lay h fuel i a n q s = (Panic :: (unit, 'e) outcome, s)" for fuel
      by (auto simp: transfer_def)
    moreover have "store_call c (driver_disk V h s, ram (shared s)) =
        (Panic :: (unit, 'e) outcome, driver_disk V h s, ram (shared s))"
      using False by (intro store_call_panic [OF c]) (simp add: driver_disk_def)
    ultimately show ?thesis using ok driver_call_transfer [OF c] by metis
  qed
qed

lemma tryS_stop: "\<not> is_ok r \<Longrightarrow> tryS (r, s) f = (r, s)"
  by (cases r) simp_all

lemma driver_calls_ok:
  fixes s :: "'d driver"
  assumes regs: "keeps_registers ops V" and completes: "completes_requests ops lay V"
    and ok: "driver_ok lay V h s"
  shows "\<exists>F s'. driver_ok lay V h s' \<and>
    (\<exists>result :: (unit, 'e) outcome.
      store_calls cs (driver_disk V h s, ram (shared s)) = (result, driver_disk V h s', ram (shared s')) \<and>
      (\<forall>fuel \<ge> F. driver_calls ops lay h fuel cs s = (result, s')))"
  using ok
proof (induction cs arbitrary: s)
  case Nil
  then show ?case by auto
next
  case (Cons c cs)
  from driver_call_ok [OF regs completes Cons.prems, of c]
  obtain F1 s1 and r1 :: "(unit, 'e) outcome" where 1: "driver_ok lay V h s1"
      "store_call c (driver_disk V h s, ram (shared s)) = (r1, driver_disk V h s1, ram (shared s1))"
      "\<forall>fuel \<ge> F1. driver_call ops lay h fuel c s = (r1, s1)"
    by blast
  from Cons.IH [OF 1(1)]
  obtain F2 s2 and r2 :: "(unit, 'e) outcome" where 2: "driver_ok lay V h s2"
      "store_calls cs (driver_disk V h s1, ram (shared s1)) = (r2, driver_disk V h s2, ram (shared s2))"
      "\<forall>fuel \<ge> F2. driver_calls ops lay h fuel cs s1 = (r2, s2)"
    by blast
  show ?case
  proof (cases "is_ok r1")
    case True
    with 1 2 have "store_calls (c # cs) (driver_disk V h s, ram (shared s)) = (r2, driver_disk V h s2, ram (shared s2))"
      "\<forall>fuel \<ge> max F1 F2. driver_calls ops lay h fuel (c # cs) s = (r2, s2)"
      by (auto simp: is_ok_iff)
    with 2(1) show ?thesis by blast
  next
    case False
    with 1 have "store_calls (c # cs) (driver_disk V h s, ram (shared s)) = (r1, driver_disk V h s1, ram (shared s1))"
      "\<forall>fuel \<ge> F1. driver_calls ops lay h fuel (c # cs) s = (r1, s1)"
      by (simp_all add: tryS_stop)
    with 1(1) show ?thesis by blast
  qed
qed

section \<open>The handshake\<close>

text \<open>
  What the registers and the configuration space answer: the identification; the features offered in
  each bank, read through the bank selected; whether the device accepts the features it was asked
  for, which it tells by keeping \<^verbatim>\<open>FEATURES_OK\<close> when the driver sets it in the status; and the limit of
  each queue, read through the queue selected.
\<close>

record device_answers =
  ans_magic :: u32
  ans_version :: u32
  ans_id :: u32
  ans_offers :: "u32 \<Rightarrow> u32"
  ans_accepts :: "u32 \<Rightarrow> u32 \<Rightarrow> bool"
  ans_queue_max :: "u32 \<Rightarrow> u32"
  ans_config :: VirtioBlockConfig
  ans_stable :: bool

definition answers :: "'d virtio_device \<Rightarrow> 'd device_view \<Rightarrow> device_answers \<Rightarrow> bool" where
  "answers ops V A \<longleftrightarrow>
     (\<forall>d. fst (mmio_read ops (reg MAGIC_VALUE) d) = ans_magic A) \<and>
     (\<forall>d. fst (mmio_read ops (reg MMIO_VERSION) d) = ans_version A) \<and>
     (\<forall>d. fst (mmio_read ops (reg DEVICE_ID) d) = ans_id A) \<and>
     (\<forall>d. fst (mmio_read ops (reg DEVICE_FEATURES) d) = ans_offers A (written V d (reg DEVICE_FEATURES_SEL))) \<and>
     (\<forall>d v. v AND STATUS_FEATURES_OK \<noteq> 0 \<longrightarrow>
        (fst (mmio_read ops (reg STATUS) (mmio_write ops (reg STATUS) v d)) AND STATUS_FEATURES_OK \<noteq> 0) =
          ans_accepts A (features V d 0) (features V d 1)) \<and>
     (\<forall>d. fst (mmio_read ops (reg QUEUE_NUM_MAX) d) = ans_queue_max A (written V d (reg QUEUE_SEL))) \<and>
     (\<forall>d. mmio_config ops d = ans_config A) \<and>
     (\<forall>d. (fst (mmio_read ops (reg CONFIG_GENERATION) (snd (mmio_read ops (reg CONFIG_GENERATION) d))) =
           fst (mmio_read ops (reg CONFIG_GENERATION) d)) = ans_stable A)"

text \<open>
  What the driver makes of the answers. Of the features offered it asks for none in bank 0, and in bank
  1 for version 1 of the interface, bit 0, when it is offered.
\<close>

definition handshake_result :: "device_answers \<Rightarrow> (VirtIoHandle, VirtioError) outcome" where
  "handshake_result A =
     (if ans_magic A \<noteq> 0x74726976 then Err DeviceNotFound
      else if ans_version A \<noteq> 2 then Err (LegacyOnly (ans_version A))
      else if ans_id A \<noteq> 2 then Err UnsupportedDevice
      else if \<not> ans_accepts A 0 (ans_offers A 1 AND 1) then Err DeviceRejectedFeatures
      else if ans_queue_max A 0 = 0 then Err QueueUnavailable
      else if blk_size (ans_config A) \<notin> {0, 512} then Panic
      else if \<not> ans_stable A then Err DeviceFailure
      else Ok \<lparr>regs_base = VIRTIO_MMIO_BASE, handle_capacity = cfg_capacity (ans_config A),
               queue_size = word_of_nat (min (unat (ans_queue_max A 0)) 8)\<rparr>)"

lemma write32_simps [simp]:
  "shared (write32 ops base a v s) = shared s" "QUEUE_STATE (write32 ops base a v s) = QUEUE_STATE s"
  "DEVICE (write32 ops base a v s) = DEVICE s"
  "hw (write32 ops VIRTIO_MMIO_BASE a v s) = mmio_write ops (reg a) v (hw s)"
  by (simp_all add: write32_def reg_def)

lemma read32_simps [simp]:
  "shared (snd (read32 ops base a s)) = shared s" "QUEUE_STATE (snd (read32 ops base a s)) = QUEUE_STATE s"
  "DEVICE (snd (read32 ops base a s)) = DEVICE s"
  "fst (read32 ops VIRTIO_MMIO_BASE a s) = fst (mmio_read ops (reg a) (hw s))"
  "hw (snd (read32 ops VIRTIO_MMIO_BASE a s)) = snd (mmio_read ops (reg a) (hw s))"
  by (simp_all add: read32_def reg_def split: prod.split)

lemma zero_queue_memory_hw [simp]:
  "hw (zero_queue_memory s) = hw s" "DEVICE (zero_queue_memory s) = DEVICE s"
  "ram (shared (zero_queue_memory s)) = ram (shared s)"
  by (simp_all add: zero_queue_memory_def)

lemma reg_eq [simp]: "reg a = reg b \<longleftrightarrow> a = b"
  by (simp add: reg_def)

lemma offset_neqs [simp]:
  "DEVICE_FEATURES_SEL \<noteq> STATUS" "DRIVER_FEATURES_SEL \<noteq> STATUS" "DRIVER_FEATURES \<noteq> STATUS"
  "DEVICE_FEATURES_SEL \<noteq> DRIVER_FEATURES" "DRIVER_FEATURES_SEL \<noteq> DRIVER_FEATURES" "STATUS \<noteq> DRIVER_FEATURES"
  "DRIVER_FEATURES_SEL \<noteq> DEVICE_FEATURES_SEL" "QUEUE_SEL \<noteq> DRIVER_FEATURES" "QUEUE_NUM \<noteq> DRIVER_FEATURES" "QUEUE_READY \<noteq> DRIVER_FEATURES"
  "QUEUE_DESC_LOW \<noteq> DRIVER_FEATURES" "QUEUE_DESC_HIGH \<noteq> DRIVER_FEATURES" "QUEUE_AVAIL_LOW \<noteq> DRIVER_FEATURES"
  "QUEUE_AVAIL_HIGH \<noteq> DRIVER_FEATURES" "QUEUE_USED_LOW \<noteq> DRIVER_FEATURES" "QUEUE_USED_HIGH \<noteq> DRIVER_FEATURES"
  "QUEUE_SEL \<noteq> STATUS" "QUEUE_NUM \<noteq> STATUS" "QUEUE_READY \<noteq> STATUS"
  "QUEUE_DESC_LOW \<noteq> STATUS" "QUEUE_DESC_HIGH \<noteq> STATUS" "QUEUE_AVAIL_LOW \<noteq> STATUS"
  "QUEUE_AVAIL_HIGH \<noteq> STATUS" "QUEUE_USED_LOW \<noteq> STATUS" "QUEUE_USED_HIGH \<noteq> STATUS"
  by (simp_all add: mmio_defs)

text \<open>The features that are asked for, in whatever the registers held after the reset.\<close>

definition asked :: "'d virtio_device \<Rightarrow> u32 \<Rightarrow> u32 \<Rightarrow> 'd driver \<Rightarrow> 'd driver" where
  "asked ops lo hi s =
     write32 ops VIRTIO_MMIO_BASE DRIVER_FEATURES hi (write32 ops VIRTIO_MMIO_BASE DRIVER_FEATURES_SEL 1
       (snd (read32 ops VIRTIO_MMIO_BASE DEVICE_FEATURES (write32 ops VIRTIO_MMIO_BASE DEVICE_FEATURES_SEL 1
       (write32 ops VIRTIO_MMIO_BASE DRIVER_FEATURES lo (write32 ops VIRTIO_MMIO_BASE DRIVER_FEATURES_SEL 0
       (snd (read32 ops VIRTIO_MMIO_BASE DEVICE_FEATURES (write32 ops VIRTIO_MMIO_BASE DEVICE_FEATURES_SEL 0 s)))))))))"

lemma one_bit: "(if x AND push_bit VIRTIO_F_VERSION_1_BIT 1 \<noteq> 0 then 0 OR push_bit VIRTIO_F_VERSION_1_BIT 1 else 0) = x AND (1 :: u32)"
  by (simp add: VIRTIO_F_VERSION_1_BIT_def and_one_eq odd_iff_mod_2_eq_one)

lemma negotiate_eq:
  assumes regs: "keeps_registers ops V" and answers: "answers ops V A"
  defines "s0 \<equiv> \<lambda>s. write32 ops VIRTIO_MMIO_BASE STATUS 3 (write32 ops VIRTIO_MMIO_BASE STATUS 1 (write32 ops VIRTIO_MMIO_BASE STATUS 0 s))"
  shows "negotiate ops s =
    (let r = read32 ops VIRTIO_MMIO_BASE STATUS (write32 ops VIRTIO_MMIO_BASE STATUS 11 (asked ops 0 (ans_offers A 1 AND 1) (s0 s)))
     in (if fst r AND 8 = 0 then Err DeviceRejectedFeatures else Ok (), snd r))"
proof -
  have f: "fst (mmio_read ops (reg DEVICE_FEATURES) d) = ans_offers A (written V d (reg DEVICE_FEATURES_SEL))" for d
    using answers by (simp add: answers_def)
  have hi: "fst (mmio_read ops (reg DEVICE_FEATURES) (mmio_write ops (reg DEVICE_FEATURES_SEL) v d)) = ans_offers A v" for v d
    by (simp add: f write_keeps(4) [OF regs])
  show ?thesis
    unfolding negotiate_def Let_def case_prod_beta one_bit
    by (simp add: asked_def s0_def hi virtio_defs SUPPORTED_FEATURES_LO_def)
qed

lemma asked_features:
  assumes regs: "keeps_registers ops V"
  shows "features V (hw (asked ops lo hi s)) 0 = lo" "features V (hw (asked ops lo hi s)) 1 = hi"
  by (simp_all add: asked_def write_keeps [OF regs] read_keeps [OF regs])

lemma negotiate_result:
  assumes regs: "keeps_registers ops V" and answers: "answers ops V A"
  shows "fst (negotiate ops s) = (if ans_accepts A 0 (ans_offers A 1 AND 1) then Ok () else Err DeviceRejectedFeatures)"
    "features V (hw (snd (negotiate ops s))) 0 = 0"
    "features V (hw (snd (negotiate ops s))) 1 = ans_offers A 1 AND 1"
proof -
  have "(11 :: u32) AND 8 \<noteq> 0" by simp
  with answers have "fst (mmio_read ops (reg STATUS) (mmio_write ops (reg STATUS) 11 d)) AND 8 = 0 \<longleftrightarrow>
      \<not> ans_accepts A (features V d 0) (features V d 1)" for d
    unfolding answers_def STATUS_FEATURES_OK_def by blast
  then show "fst (negotiate ops s) = (if ans_accepts A 0 (ans_offers A 1 AND 1) then Ok () else Err DeviceRejectedFeatures)"
    by (simp add: negotiate_eq [OF assms] Let_def asked_features [OF regs])
  show "features V (hw (snd (negotiate ops s))) 0 = 0" "features V (hw (snd (negotiate ops s))) 1 = ans_offers A 1 AND 1"
    by (simp_all add: negotiate_eq [OF assms] Let_def asked_features [OF regs] write_keeps [OF regs] read_keeps [OF regs])
qed

lemma negotiate_keeps:
  assumes "keeps_registers ops V"
  shows "shared (snd (negotiate ops s)) = shared s" "DEVICE (snd (negotiate ops s)) = DEVICE s"
    "disk V (hw (snd (negotiate ops s))) = disk V (hw s)"
    "disk_capacity V (hw (snd (negotiate ops s))) = disk_capacity V (hw s)"
    "consumed V (hw (snd (negotiate ops s))) = 0"
  by (simp_all add: negotiate_def Let_def case_prod_beta virtio_defs if_distrib [of snd]
      read_keeps [OF assms] write_keeps [OF assms] status_reset [OF assms])

lemma setup_queue_result:
  assumes "keeps_registers ops V" and "answers ops V A"
  shows "fst (setup_queue ops lay s) =
    (if ans_queue_max A 0 = 0 then Err QueueUnavailable
     else Ok (word_of_nat (min (unat (ans_queue_max A 0)) 8)))"
  using assms(2) by (simp add: setup_queue_def Let_def case_prod_beta answers_def QUEUE_SIZE_def write_keeps [OF assms(1)])

lemma check_config_result:
  assumes "answers ops V A"
  shows "fst (check_config ops n s) =
    (if blk_size (ans_config A) \<notin> {0, 512} then Panic
     else if \<not> ans_stable A then Err DeviceFailure
     else Ok \<lparr>regs_base = VIRTIO_MMIO_BASE, handle_capacity = cfg_capacity (ans_config A), queue_size = n\<rparr>)"
proof -
  let ?b = "blk_size (ans_config A)"
  have unat_512: "unat (512 :: u32) = 512" by simp
  have "unat ?b = 512 \<longleftrightarrow> ?b = 512" by (metis unat_512 word_unat_eq_iff)
  then have "unat (block_size (ans_config A)) = SECTOR_SIZE \<longleftrightarrow> ?b \<in> {0, 512}"
    by (simp add: block_size_def SECTOR_SIZE_def)
  with assms show ?thesis
    by (simp add: check_config_def Let_def case_prod_beta answers_def read_config_def sector_capacity_def
        if_distrib [of fst] eq_commute [of _ "fst (mmio_read ops (reg CONFIG_GENERATION) (snd x))" for x])
qed

lemma setup_queue_keeps:
  assumes "keeps_registers ops V" and "fst (setup_queue ops lay s) = Ok n"
  shows "shared (snd (setup_queue ops lay s)) = shared (zero_queue_memory s)"
    "QUEUE_STATE (snd (setup_queue ops lay s)) = \<lparr>next_avail = 0, last_used = 0\<rparr>"
    "DEVICE (snd (setup_queue ops lay s)) = DEVICE s"
    "disk V (hw (snd (setup_queue ops lay s))) = disk V (hw s)"
    "disk_capacity V (hw (snd (setup_queue ops lay s))) = disk_capacity V (hw s)"
    "consumed V (hw (snd (setup_queue ops lay s))) = consumed V (hw s)"
    "features V (hw (snd (setup_queue ops lay s))) = features V (hw s)"
  using assms(2)
  by (simp_all add: setup_queue_def write64_def Let_def case_prod_beta zero_queue_memory_def
      read_keeps [OF assms(1)] write_keeps [OF assms(1)] split: if_splits)

lemma setup_queue_written:
  assumes "keeps_registers ops V" and "fst (setup_queue ops lay s) = Ok n"
  defines "d \<equiv> hw (snd (setup_queue ops lay s))"
  shows "written V d (reg QUEUE_NUM) = ucast n" "written V d (reg QUEUE_READY) = 1"
    "area V d QUEUE_DESC_LOW QUEUE_DESC_HIGH = desc_at lay"
    "area V d QUEUE_AVAIL_LOW QUEUE_AVAIL_HIGH = avail_at lay"
    "area V d QUEUE_USED_LOW QUEUE_USED_HIGH = used_at lay"
proof -
  have w: "written V (mmio_write ops (reg a) v e) = (written V e)(reg a := v)" if "a \<noteq> STATUS" for a v e
    using that by (simp add: write_keeps [OF assms(1)])
  define e where "e = snd (mmio_read ops (reg QUEUE_NUM_MAX) (mmio_write ops (reg QUEUE_SEL) 0 (hw s)))"
  have d: "written V d = (written V e)(reg QUEUE_NUM := ucast n,
      reg QUEUE_DESC_LOW := ucast (desc_at lay), reg QUEUE_DESC_HIGH := ucast (drop_bit 32 (desc_at lay)),
      reg QUEUE_AVAIL_LOW := ucast (avail_at lay), reg QUEUE_AVAIL_HIGH := ucast (drop_bit 32 (avail_at lay)),
      reg QUEUE_USED_LOW := ucast (used_at lay), reg QUEUE_USED_HIGH := ucast (drop_bit 32 (used_at lay)),
      reg QUEUE_READY := 1)"
    using assms(2)
    by (simp add: d_def e_def setup_queue_def write64_def Let_def case_prod_beta w
        del: fun_upd_apply split: if_splits)
  show "written V d (reg QUEUE_NUM) = ucast n" "written V d (reg QUEUE_READY) = 1"
    by (simp_all add: d mmio_defs)
  show "area V d QUEUE_DESC_LOW QUEUE_DESC_HIGH = desc_at lay"
    "area V d QUEUE_AVAIL_LOW QUEUE_AVAIL_HIGH = avail_at lay"
    "area V d QUEUE_USED_LOW QUEUE_USED_HIGH = used_at lay"
    by (simp_all add: area_def d mmio_defs halves)
qed

lemma check_config_keeps:
  assumes "keeps_registers ops V" and "fst (check_config ops n s) = Ok h"
  shows "shared (snd (check_config ops n s)) = shared s"
    "QUEUE_STATE (snd (check_config ops n s)) = QUEUE_STATE s"
    "DEVICE (snd (check_config ops n s)) = DEVICE s"
    "disk V (hw (snd (check_config ops n s))) = disk V (hw s)"
    "disk_capacity V (hw (snd (check_config ops n s))) = disk_capacity V (hw s)"
    "consumed V (hw (snd (check_config ops n s))) = consumed V (hw s)"
    "written V (hw (snd (check_config ops n s))) = (written V (hw s))(reg STATUS := 15)"
    "features V (hw (snd (check_config ops n s))) = features V (hw s)"
    "h = \<lparr>regs_base = VIRTIO_MMIO_BASE, handle_capacity = disk_capacity V (hw s), queue_size = n\<rparr>"
proof -
  have "sector_capacity (mmio_config ops d) = disk_capacity V d" for d
    using assms(1) by (simp add: keeps_registers_def)
  with assms(2) show "h = \<lparr>regs_base = VIRTIO_MMIO_BASE, handle_capacity = disk_capacity V (hw s), queue_size = n\<rparr>"
    by (simp add: check_config_def Let_def case_prod_beta read_config_def read_keeps [OF assms(1)]
        split: if_splits)
qed (use assms(2) in \<open>simp_all add: check_config_def Let_def case_prod_beta virtio_defs
    read_keeps [OF assms(1)] write_keeps [OF assms(1)] split: if_splits\<close>)

text \<open>
  A device that is ready: the handshake is complete, with the features asked for, the queue's size and
  areas told and the queue enabled, an empty queue on both sides, and the handle remembered.
\<close>

definition device_ready :: "layout \<Rightarrow> 'd device_view \<Rightarrow> device_answers \<Rightarrow> VirtIoHandle \<Rightarrow> 'd driver \<Rightarrow> bool" where
  "device_ready lay V A h s \<longleftrightarrow>
     live lay V (hw s) \<and> written V (hw s) (reg STATUS) = 15 \<and>
     features V (hw s) 0 = 0 \<and> features V (hw s) 1 = ans_offers A 1 AND 1 \<and>
     written V (hw s) (reg QUEUE_NUM) = ucast (queue_size h) \<and> consumed V (hw s) = 0 \<and>
     disk_capacity V (hw s) = handle_capacity h \<and> regs_base h = VIRTIO_MMIO_BASE \<and>
     VIRTQ_DESC (shared s) = replicate QUEUE_SIZE desc_default \<and> VIRTQ_AVAIL (shared s) = avail_default \<and>
     VIRTQ_USED (shared s) = used_default \<and> QUEUE_STATE s = \<lparr>next_avail = 0, last_used = 0\<rparr> \<and> DEVICE s = Some h"

lemma setup_ready:
  assumes regs: "keeps_registers ops V" and n: "fst (setup_queue ops lay s) = Ok n"
    and h: "fst (check_config ops n (snd (setup_queue ops lay s))) = Ok h"
    and "consumed V (hw s) = 0" and "features V (hw s) 0 = 0" and "features V (hw s) 1 = ans_offers A 1 AND 1"
  defines "t \<equiv> snd (check_config ops n (snd (setup_queue ops lay s)))"
  shows "device_ready lay V A h (t\<lparr>DEVICE := Some h\<rparr>)" "disk V (hw t) = disk V (hw s)" "ram (shared t) = ram (shared s)"
    "DEVICE t = DEVICE s"
proof -
  note q = setup_queue_keeps [OF regs n] and w = setup_queue_written [OF regs n]
  note c = check_config_keeps [OF regs h, folded t_def]
  have "live lay V (hw t)"
    using w by (simp add: live_def area_def c(7) virtio_defs reg_def mmio_defs)
  moreover have "written V (hw t) (reg QUEUE_NUM) = ucast n" using w(1) by (simp add: c(7))
  ultimately show "device_ready lay V A h (t\<lparr>DEVICE := Some h\<rparr>)"
    using assms(4-6) q c by (simp add: device_ready_def zero_queue_memory_def)
  show "disk V (hw t) = disk V (hw s)" "ram (shared t) = ram (shared s)" "DEVICE t = DEVICE s"
    using q c by simp_all
qed

lemma ready_driver_ok:
  assumes "device_ready lay V A h s" and "3 \<le> unat (queue_size h)" and "unat (queue_size h) \<le> 8"
  shows "driver_ok lay V h s"
  using assms by (simp add: device_ready_def driver_ok_def QUEUE_SIZE_def avail_default_def used_default_def)

lemma tryS_cases:
  "tryS m f = (case fst m of Ok x \<Rightarrow> f x (snd m) | Err e \<Rightarrow> (Err e, snd m) | Panic \<Rightarrow> (Panic, snd m) | Hang \<Rightarrow> (Hang, snd m))"
  by (cases "(m, f)" rule: tryS.cases) auto

lemma initialize_DEVICE: "DEVICE (snd (initialize ops lay s)) = DEVICE s"
proof -
  have "DEVICE (snd (negotiate ops s)) = DEVICE s" "DEVICE (snd (setup_queue ops lay s)) = DEVICE s"
    "DEVICE (snd (check_config ops n s)) = DEVICE s" for n and s :: "'a driver"
    by (simp_all add: negotiate_def setup_queue_def check_config_def write64_def Let_def case_prod_beta
        if_distrib [of snd] if_distrib [of DEVICE])
  then show ?thesis
    by (simp add: initialize_def tryS_cases case_prod_beta split: outcome.split)
qed

lemma initialize_result:
  assumes regs: "keeps_registers ops V" and answers: "answers ops V A"
  shows "fst (initialize ops lay s) = handshake_result A"
proof -
  have ids: "fst (mmio_read ops (reg MAGIC_VALUE) d) = ans_magic A"
    "fst (mmio_read ops (reg MMIO_VERSION) d) = ans_version A"
    "fst (mmio_read ops (reg DEVICE_ID) d) = ans_id A" for d
    using answers by (simp_all add: answers_def)
  show ?thesis
    by (simp add: initialize_def handshake_result_def tryS_cases case_prod_beta ids negotiate_result(1) [OF assms]
        setup_queue_result [OF assms] check_config_result [OF answers])
qed

lemma init_ready:
  assumes regs: "keeps_registers ops V" and answers: "answers ops V A"
    and h: "handshake_result A = Ok h" and new: "DEVICE s = None"
  shows "\<exists>s1. virtio_init ops lay s = (Ok h, s1) \<and> device_ready lay V A h s1 \<and>
    disk V (hw s1) = disk V (hw s) \<and> disk_capacity V (hw s) = handle_capacity h \<and> ram (shared s1) = ram (shared s)"
proof -
  define s0 where "s0 = snd (read32 ops VIRTIO_MMIO_BASE DEVICE_ID
    (snd (read32 ops VIRTIO_MMIO_BASE MMIO_VERSION (snd (read32 ops VIRTIO_MMIO_BASE MAGIC_VALUE s)))))"
  define sn where "sn = snd (negotiate ops s0)"
  define n :: u16 where "n = word_of_nat (min (unat (ans_queue_max A 0)) 8)"
  define t where "t = snd (check_config ops n (snd (setup_queue ops lay sn)))"
  have q: "fst (setup_queue ops lay sn) = Ok n"
    using h by (auto simp: setup_queue_result [OF regs answers] n_def handshake_result_def split: if_splits)
  have c: "fst (check_config ops n (snd (setup_queue ops lay sn))) = Ok h"
    using h by (simp add: check_config_result [OF answers] handshake_result_def n_def split: if_splits)
  note neg = negotiate_keeps [OF regs, of s0, folded sn_def] negotiate_result [OF regs answers, of s0, folded sn_def]
  note ready = setup_ready [OF regs q c neg(5,7,8), folded t_def]
  have "initialize ops lay s = (Ok h, t)"
  proof -
    have "fst (initialize ops lay s) = Ok h" using h by (simp add: initialize_result [OF regs answers])
    moreover have "fst (negotiate ops s0) = Ok ()"
      using h by (simp add: negotiate_result(1) [OF regs answers] handshake_result_def split: if_splits)
    ultimately show ?thesis
      using q by (simp add: initialize_def tryS_cases case_prod_beta s0_def [symmetric] sn_def [symmetric]
          t_def prod_eq_iff split: if_splits)
  qed
  then have init: "virtio_init ops lay s = (Ok h, t\<lparr>DEVICE := Some h\<rparr>)" using new by (simp add: virtio_init_def)
  have "disk V (hw sn) = disk V (hw s)" "disk_capacity V (hw sn) = disk_capacity V (hw s)" "ram (shared sn) = ram (shared s)"
    by (simp_all add: neg s0_def read_keeps [OF regs])
  moreover have "disk_capacity V (hw sn) = handle_capacity h"
    using check_config_keeps(9) [OF regs c] setup_queue_keeps(5) [OF regs q] by simp
  ultimately show ?thesis using init ready by (intro exI [of _ "t\<lparr>DEVICE := Some h\<rparr>"]) simp
qed

lemma init_agrees:
  assumes regs: "keeps_registers ops V" and answers: "answers ops V A"
    and h: "handshake_result A = Ok h" and size: "3 \<le> ans_queue_max A 0" and new: "DEVICE s = None"
  shows "\<exists>s1. virtio_init ops lay s = (Ok h, s1) \<and> driver_ok lay V h s1 \<and>
    driver_disk V h s1 = \<lparr>capacity_sectors = disk_capacity V (hw s), sectors = disk V (hw s)\<rparr> \<and>
    ram (shared s1) = ram (shared s)"
proof -
  from size have "3 \<le> unat (ans_queue_max A 0)" by (simp add: word_le_nat_alt)
  moreover have "queue_size h = word_of_nat (min (unat (ans_queue_max A 0)) 8)"
    using h by (auto simp: handshake_result_def split: if_splits)
  ultimately have "3 \<le> unat (queue_size h)" "unat (queue_size h) \<le> 8" by (auto simp: unat_of_nat take_bit_eq_mod min_def)
  with init_ready [OF regs answers h new, of lay] ready_driver_ok show ?thesis by (fastforce simp: driver_disk_def)
qed

section \<open>Properties\<close>

text \<open>
  C36. For every device, what \<^verbatim>\<open>virtio::block::init\<close> returns is determined by what the
  identification registers, the status register after the driver has asked for its features, the
  limit of queue 0 and the configuration space answer, in the order the driver asks: a missing
  device, a legacy interface, another kind of device, rejected features, no queue, a block size
  other than 512 (a panic), a configuration that changed under way, or a handle with the device's
  capacity and a queue of at most eight entries. With a handle the device is ready: it has been
  told the features, the size and the three areas of the queue, the queue is enabled and
  \<^verbatim>\<open>DRIVER_OK\<close> is set, the queue is empty on both sides, and neither the disk nor the callers' memory has
  changed. The handle is remembered exactly when there is one, and the next call returns it without
  touching the device.
\<close>

theorem init_answers:
  assumes "keeps_registers ops V" and "answers ops V A" and "DEVICE s = None"
  shows "\<exists>s1. virtio_init ops lay s = (handshake_result A, s1) \<and>
    DEVICE s1 = (case handshake_result A of Ok h \<Rightarrow> Some h | _ \<Rightarrow> None) \<and>
    (\<forall>h. handshake_result A = Ok h \<longrightarrow> device_ready lay V A h s1 \<and>
       disk V (hw s1) = disk V (hw s) \<and> ram (shared s1) = ram (shared s)) \<and>
    (\<forall>h. DEVICE s1 = Some h \<longrightarrow> virtio_init ops lay s1 = (Ok h, s1))"
proof (cases "handshake_result A")
  case (Ok h)
  from init_ready [OF assms(1,2) Ok assms(3), of lay] Ok show ?thesis
    by (auto simp: virtio_init_def device_ready_def)
qed (use assms(3) initialize_result [OF assms(1,2), of lay s] initialize_DEVICE [of ops lay s] in
    \<open>cases "initialize ops lay s"; auto simp: virtio_init_def tryS_cases\<close>)+

text \<open>
  C35. The driver implements the sector store. With a device that follows the VirtIO rules and
  answers with a queue of three entries or more, \<^verbatim>\<open>init\<close> returns a handle for the device's
  capacity, changes neither the disk nor the callers' memory, and from then on every sequence of
  \<^verbatim>\<open>read_block\<close> and \<^verbatim>\<open>write_block\<close> calls, of any length (so also when the
  16-bit ring indices wrap around), with buffers anywhere in memory, returns or panics as the same
  sequence on \<open>VirtIoBlock\<close> of theory \<^verbatim>\<open>BlockDev\<close> does, with the same disk and the
  same memory afterwards. Every polling loop ends: from some number of polls on, the result is there.
\<close>

theorem driver_refines_block_device:
  fixes s :: "'d driver"
  assumes "keeps_registers ops V" and "completes_requests ops lay V"
    and "answers ops V A" and "handshake_result A = Ok h" and "3 \<le> ans_queue_max A 0"
    and "DEVICE s = None"
  shows "\<exists>s1. virtio_init ops lay s = (Ok h, s1) \<and>
    (\<forall>cs. \<exists>F s2. \<exists>result :: (unit, 'e) outcome.
      store_calls cs (\<lparr>capacity_sectors = disk_capacity V (hw s), sectors = disk V (hw s)\<rparr>, ram (shared s)) =
        (result, driver_disk V h s2, ram (shared s2)) \<and>
      (\<forall>fuel \<ge> F. driver_calls ops lay h fuel cs s1 = (result, s2)))"
proof -
  from init_agrees [OF assms(1,3-6)] obtain s1 where s1: "virtio_init ops lay s = (Ok h, s1)"
    "driver_ok lay V h s1"
    "driver_disk V h s1 = \<lparr>capacity_sectors = disk_capacity V (hw s), sectors = disk V (hw s)\<rparr>"
    "ram (shared s1) = ram (shared s)"
    by blast
  note calls = driver_calls_ok [OF assms(1,2) s1(2), unfolded s1(3,4)]
  have "\<exists>F s2. \<exists>result :: (unit, 'e) outcome.
      store_calls cs (\<lparr>capacity_sectors = disk_capacity V (hw s), sectors = disk V (hw s)\<rparr>, ram (shared s)) =
        (result, driver_disk V h s2, ram (shared s2)) \<and>
      (\<forall>fuel \<ge> F. driver_calls ops lay h fuel cs s1 = (result, s2))" for cs
    using calls [of cs] by blast
  with s1(1) show ?thesis by (intro exI [of _ s1] conjI allI)
qed

text \<open>
  A queue of one or two entries is accepted by the handshake, but the chain of three descriptors does
  not fit into its table.
\<close>

lemma small_queue_accepted:
  assumes "n < 3"
  shows "parse_request lay n (fill_request lay q index buffer m) 0 = None"
    and "handshake_result A = Ok h \<Longrightarrow>
      handshake_result (A\<lparr>ans_queue_max := (\<lambda>_. 2)\<rparr>) = Ok (h\<lparr>queue_size := 2\<rparr>)"
proof -
  have "n = 0 \<or> n = 1 \<or> n = 2" using assms by auto
  then show "parse_request lay n (fill_request lay q index buffer m) 0 = None"
    by (cases q; cases "VIRTQ_DESC m"; cases "tl (VIRTQ_DESC m)")
      (auto simp: parse_request_def fill_request_def Let_def virtio_defs numeral_2_eq_2)
  assume "handshake_result A = Ok h"
  then show "handshake_result (A\<lparr>ans_queue_max := (\<lambda>_. 2)\<rparr>) = Ok (h\<lparr>queue_size := 2\<rparr>)"
    by (auto simp: handshake_result_def split: if_splits)
qed

section \<open>A device that serves a request in one step\<close>

record demo_dev =
  dd_disk :: "nat \<Rightarrow> bytes"
  dd_written :: "u64 \<Rightarrow> u32"
  dd_features :: "u32 \<Rightarrow> u32"
  dd_consumed :: u16
  dd_notified :: bool

definition demo_config :: VirtioBlockConfig where
  "demo_config = \<lparr>cfg_capacity = 16, size_max = 0, seg_max = 0,
     geometry = \<lparr>cylinders = 0, heads = 0, geo_sectors = 0\<rparr>, blk_size = 512,
     topology = \<lparr>physical_block_exp = 0, alignment_offset = 0, min_io_size = 0, opt_io_size = 0\<rparr>,
     writeback = 0, unused0 = 0, unused1 = 0, max_discard_sectors = 0, max_discard_seg = 0,
     discard_sector_alignment = 0, max_write_zeroes_sectors = 0, max_write_zeroes_seg = 0,
     write_zeroes_may_unmap = 0, unused2 = [0, 0, 0], max_secure_erase_sectors = 0,
     max_secure_erase_seg = 0, secure_erase_sector_alignment = 0\<rparr>"

definition demo_view :: "demo_dev device_view" where
  "demo_view = \<lparr>disk = (\<lambda>d j. take 512 (dd_disk d j @ replicate 512 0)), disk_capacity = (\<lambda>d. 16),
     written = dd_written, features = dd_features, consumed = dd_consumed, notified = dd_notified\<rparr>"

definition demo_work :: "layout \<Rightarrow> demo_dev \<times> queue_mem \<Rightarrow> demo_dev \<times> queue_mem" where
  "demo_work lay x =
     (case x of (d, m) \<Rightarrow>
      if live lay demo_view d \<and> dd_notified d \<and> avail_idx (VIRTQ_AVAIL m) = dd_consumed d + 1 then
        (case parse_request lay (ring_size demo_view d) m
           (unat (avail_ring (VIRTQ_AVAIL m) ! (unat (dd_consumed d) mod ring_size demo_view d))) of
           None \<Rightarrow> (d, m)
         | Some r \<Rightarrow>
             (case serve r (disk demo_view d, ram m) of (dk, rm) \<Rightarrow>
              (d\<lparr>dd_disk := dk, dd_consumed := dd_consumed d + 1\<rparr>,
               m\<lparr>ram := rm, REQUEST_STATUS := 0,
                 VIRTQ_USED := (VIRTQ_USED m)\<lparr>used_idx := used_idx (VIRTQ_USED m) + 1\<rparr>\<rparr>)))
      else (d, m))"

definition demo_ops :: "layout \<Rightarrow> demo_dev virtio_device" where
  "demo_ops lay =
     \<lparr>mmio_read = (\<lambda>a d. (if a = reg MAGIC_VALUE then 0x74726976
        else if a = reg MMIO_VERSION \<or> a = reg DEVICE_ID then 2
        else if a = reg DEVICE_FEATURES then (if dd_written d (reg DEVICE_FEATURES_SEL) = 1 then 1 else 0x246)
        else if a = reg STATUS \<and> \<not> (dd_features d 0 = 0 \<and> dd_features d 1 = 1) then dd_written d a AND 7
        else if a = reg QUEUE_NUM_MAX then (if dd_written d (reg QUEUE_SEL) = 0 then 16 else 0) else dd_written d a, d)),
      mmio_write = (\<lambda>a v d. if a = reg STATUS \<and> v = 0 then d\<lparr>dd_consumed := 0\<rparr>
        else d\<lparr>dd_written := (dd_written d)(a := v),
          dd_features := (if a = reg DRIVER_FEATURES then (dd_features d)(dd_written d (reg DRIVER_FEATURES_SEL) := v) else dd_features d),
          dd_notified := dd_notified d \<or> a = reg QUEUE_NOTIFY\<rparr>),
      mmio_config = (\<lambda>d. demo_config), device_work = demo_work lay\<rparr>"

definition demo_answers :: device_answers where
  "demo_answers = \<lparr>ans_magic = 0x74726976, ans_version = 2, ans_id = 2,
     ans_offers = (\<lambda>bank. if bank = 1 then 1 else 0x246), ans_accepts = (\<lambda>lo hi. lo = 0 \<and> hi = 1),
     ans_queue_max = (\<lambda>queue. if queue = 0 then 16 else 0), ans_config = demo_config, ans_stable = True\<rparr>"

definition demo_layout :: layout where
  "demo_layout = \<lparr>desc_at = 0x80300000, avail_at = 0x80301000, used_at = 0x80302000,
     header_at = 0x80303000, status_at = 0x80303010\<rparr>"

definition demo_driver :: "demo_dev driver" where
  "demo_driver = \<lparr>DEVICE = None, QUEUE_STATE = \<lparr>next_avail = 0, last_used = 0\<rparr>,
     shared = \<lparr>VIRTQ_DESC = replicate 8 desc_default, VIRTQ_AVAIL = avail_default,
       VIRTQ_USED = used_default, REQUEST_HEADER = header_default, REQUEST_STATUS = 0, ram = (\<lambda>_. 7)\<rparr>,
     hw = \<lparr>dd_disk = (\<lambda>_. replicate 512 0), dd_written = (\<lambda>_. 0), dd_features = (\<lambda>_. 5), dd_consumed = 0, dd_notified = False\<rparr>\<rparr>"

lemma demo_keeps_registers: "keeps_registers (demo_ops lay) demo_view"
  by (auto simp: keeps_registers_def demo_ops_def demo_view_def Let_def reg_def mmio_defs
      SECTOR_SIZE_def sector_capacity_def demo_config_def)

lemma serve_length:
  "(\<And>j. length (dk j) = 512) \<Longrightarrow> length (fst (serve r (dk, rm)) j) = 512"
  by (cases r) (auto simp: SECTOR_SIZE_def)

lemma demo_completes_requests: "completes_requests (demo_ops lay) lay demo_view"
  unfolding completes_requests_def
proof (intro allI impI)
  fix d m r assume out: "outstanding lay demo_view d m r"
  obtain dk rm where sv: "serve r (disk demo_view d, ram m) = (dk, rm)" by fastforce
  have "length (dk j) = 512" for j
    using serve_length [of "disk demo_view d" r "ram m" j] sv by (simp add: demo_view_def)
  then have full: "(\<lambda>j. take 512 (dk j @ replicate 512 0)) = dk" by simp
  have work: "device_work (demo_ops lay) (d, m) =
      (d\<lparr>dd_disk := dk, dd_consumed := dd_consumed d + 1\<rparr>,
       m\<lparr>ram := rm, REQUEST_STATUS := 0,
         VIRTQ_USED := (VIRTQ_USED m)\<lparr>used_idx := used_idx (VIRTQ_USED m) + 1\<rparr>\<rparr>)"
    using out sv by (simp add: outstanding_def demo_ops_def demo_work_def) (simp add: demo_view_def)
  have "served demo_view r (d, m) (device_work (demo_ops lay) (d, m))"
    unfolding work served_def using sv full by (simp add: demo_view_def)
  then show "\<exists>k. served demo_view r (d, m) ((device_work (demo_ops lay) ^^ Suc k) (d, m)) \<and>
      (\<forall>j\<le>k. used_idx (VIRTQ_USED (snd ((device_work (demo_ops lay) ^^ j) (d, m)))) = used_idx (VIRTQ_USED m))"
    by (intro exI [of _ 0]) simp
qed

lemma demo_answers: "answers (demo_ops lay) demo_view demo_answers"
proof -
  have "(v AND 7) AND 8 = (0 :: u32)" for v by (simp add: and.assoc)
  then show ?thesis
    by (auto simp: answers_def demo_ops_def demo_answers_def demo_view_def reg_def mmio_defs STATUS_FEATURES_OK_def)
qed

lemma demo_handshake: "handshake_result demo_answers = Ok \<lparr>regs_base = VIRTIO_MMIO_BASE, handle_capacity = 16, queue_size = 8\<rparr>"
  by (simp add: handshake_result_def demo_answers_def demo_config_def)

theorem init_answers_witness:
  "\<exists>s1. virtio_init (demo_ops demo_layout) demo_layout demo_driver =
      (Ok \<lparr>regs_base = VIRTIO_MMIO_BASE, handle_capacity = 16, queue_size = 8\<rparr>, s1) \<and>
    dd_features (hw s1) 1 = 1 \<and> dd_written (hw s1) (reg QUEUE_READY) = 1 \<and> dd_written (hw s1) (reg STATUS) = 15 \<and>
    area demo_view (hw s1) QUEUE_AVAIL_LOW QUEUE_AVAIL_HIGH = 0x80301000"
proof -
  have "DEVICE demo_driver = None" by (simp add: demo_driver_def)
  from init_answers [OF demo_keeps_registers demo_answers this, of demo_layout demo_layout] obtain s1 where
    "virtio_init (demo_ops demo_layout) demo_layout demo_driver =
      (Ok \<lparr>regs_base = VIRTIO_MMIO_BASE, handle_capacity = 16, queue_size = 8\<rparr>, s1)"
    "device_ready demo_layout demo_view demo_answers \<lparr>regs_base = VIRTIO_MMIO_BASE, handle_capacity = 16, queue_size = 8\<rparr> s1"
    unfolding demo_handshake by auto
  then show ?thesis
    by (intro exI [of _ s1]) (simp add: device_ready_def live_def demo_layout_def demo_answers_def, simp add: demo_view_def)
qed

theorem driver_refines_block_device_witness:
  "\<exists>s1. virtio_init (demo_ops demo_layout) demo_layout demo_driver =
      (Ok \<lparr>regs_base = VIRTIO_MMIO_BASE, handle_capacity = 16, queue_size = 8\<rparr>, s1) \<and>
    (\<exists>F s2. ram (shared s2) 0x80400000 = 0 \<and>
      (\<forall>fuel \<ge> F. driver_calls (demo_ops demo_layout) demo_layout
        \<lparr>regs_base = VIRTIO_MMIO_BASE, handle_capacity = 16, queue_size = 8\<rparr> fuel
        [ReadCall 3 0x80400000 512] s1 = (Ok () :: (unit, unit) outcome, s2)))"
proof -
  let ?h = "\<lparr>regs_base = VIRTIO_MMIO_BASE, handle_capacity = 16, queue_size = 8\<rparr>"
  let ?b = "\<lparr>capacity_sectors = 16, sectors = \<lambda>_. replicate 512 0\<rparr>"
  have start: "disk_capacity demo_view (hw demo_driver) = 16"
      "disk demo_view (hw demo_driver) = (\<lambda>_. replicate 512 0)" "DEVICE demo_driver = None"
      "ram (shared demo_driver) = (\<lambda>_. 7)" "3 \<le> ans_queue_max demo_answers 0"
    by (simp_all add: demo_view_def demo_driver_def demo_answers_def)
  note main = driver_refines_block_device [OF demo_keeps_registers demo_completes_requests demo_answers
      demo_handshake start(5,3), of demo_layout, unfolded start]
  have spec: "store_calls [ReadCall 3 0x80400000 512] (?b, \<lambda>_. 7) =
      (Ok () :: (unit, unit) outcome, ?b, store_bytes 0x80400000 (replicate 512 0) (\<lambda>_. 7))"
    by (simp add: read_block_def put_slice_def)
  from main obtain s1 where s1: "virtio_init (demo_ops demo_layout) demo_layout demo_driver = (Ok ?h, s1)"
    and run: "\<And>cs. \<exists>F s2. \<exists>result :: (unit, unit) outcome.
      store_calls cs (?b, \<lambda>_. 7) = (result, driver_disk demo_view ?h s2, ram (shared s2)) \<and>
      (\<forall>fuel \<ge> F. driver_calls (demo_ops demo_layout) demo_layout ?h fuel cs s1 = (result, s2))"
    by blast
  from run [of "[ReadCall 3 0x80400000 512]", unfolded spec] obtain F s2 where
    "ram (shared s2) = store_bytes 0x80400000 (replicate 512 0) (\<lambda>_. 7)"
    "\<forall>fuel \<ge> F. driver_calls (demo_ops demo_layout) demo_layout ?h fuel [ReadCall 3 0x80400000 512] s1 =
      (Ok () :: (unit, unit) outcome, s2)"
    by auto
  moreover from this(1) have "ram (shared s2) 0x80400000 = 0" by (simp add: store_bytes_def)
  ultimately show ?thesis using s1 by blast
qed

end
