(* ===== verification/Uart.thy ===== *)
theory Uart
  imports Prelude
begin

text \<open>
  The console at the level of its registers: the 16550 driver of \<^verbatim>\<open>src/uart.rs\<close> with its
  receive queue, and the interrupt controller code of \<^verbatim>\<open>src/interrupts.rs\<close>. The bus with the
  devices behind it is a parameter: what a register access answers and does, and what waiting for an
  interrupt does. The busy loops take fuel; running out of it is \<open>Hang\<close>, the loop that does not
  end. Theory \<^verbatim>\<open>UartProps\<close> states what is known of the devices and relates this driver to
  the two byte streams of the kernel model.
\<close>

section \<open>Registers\<close>

definition UART0_BASE :: u64 where "UART0_BASE = 0x10000000"
definition REG_RBR :: u64 where "REG_RBR = 0"
definition REG_THR :: u64 where "REG_THR = 0"
definition REG_IER :: u64 where "REG_IER = 1"
definition REG_FCR :: u64 where "REG_FCR = 2"
definition REG_LCR :: u64 where "REG_LCR = 3"
definition REG_MCR :: u64 where "REG_MCR = 4"
definition REG_LSR :: u64 where "REG_LSR = 5"
definition LSR_DATA_READY :: u8 where "LSR_DATA_READY = push_bit 0 1"
definition LSR_THR_EMPTY :: u8 where "LSR_THR_EMPTY = push_bit 5 1"
definition IER_RECEIVE_AVAILABLE :: u8 where "IER_RECEIVE_AVAILABLE = push_bit 0 1"

definition PLIC_BASE :: u64 where "PLIC_BASE = 0x0c000000"
definition PLIC_PRIORITY_BASE :: u64 where "PLIC_PRIORITY_BASE = PLIC_BASE"
definition PLIC_SENABLE :: u64 where "PLIC_SENABLE = PLIC_BASE + 0x2080"
definition PLIC_STHRESHOLD :: u64 where "PLIC_STHRESHOLD = PLIC_BASE + 0x201000"
definition PLIC_SCLAIM :: u64 where "PLIC_SCLAIM = PLIC_BASE + 0x201004"
definition UART_IRQ :: u32 where "UART_IRQ = 10"

lemmas uart_regs = UART0_BASE_def REG_RBR_def REG_THR_def REG_IER_def REG_FCR_def REG_LCR_def
  REG_MCR_def REG_LSR_def

lemmas plic_regs = PLIC_BASE_def PLIC_PRIORITY_BASE_def PLIC_SENABLE_def PLIC_STHRESHOLD_def
  PLIC_SCLAIM_def UART_IRQ_def

text \<open>
  The bus; \<open>bus_wfi\<close> waits, and tells whether the hart then takes the external interrupt. The
  driver's state: the receive queue, the event flag and the two interrupt enable bits.
\<close>

record 'd bus =
  bus_read8 :: "u64 \<Rightarrow> 'd \<Rightarrow> u8 \<times> 'd"
  bus_write8 :: "u64 \<Rightarrow> u8 \<Rightarrow> 'd \<Rightarrow> 'd"
  bus_read32 :: "u64 \<Rightarrow> 'd \<Rightarrow> u32 \<times> 'd"
  bus_write32 :: "u64 \<Rightarrow> u32 \<Rightarrow> 'd \<Rightarrow> 'd"
  bus_wfi :: "'d \<Rightarrow> bool \<times> 'd"

record 'd uart_state =
  RX_QUEUE :: bytes
  EVENT_READY :: bool
  sie_sext :: bool
  sstatus_sie :: bool
  devices :: 'd

section \<open>The driver\<close>

definition read_reg :: "'d bus \<Rightarrow> u64 \<Rightarrow> 'd uart_state \<Rightarrow> u8 \<times> 'd uart_state" where
  "read_reg bus offset s =
     (case bus_read8 bus (UART0_BASE + offset) (devices s) of (v, d) \<Rightarrow> (v, s\<lparr>devices := d\<rparr>))"

definition write_reg :: "'d bus \<Rightarrow> u64 \<Rightarrow> u8 \<Rightarrow> 'd uart_state \<Rightarrow> 'd uart_state" where
  "write_reg bus offset value s = s\<lparr>devices := bus_write8 bus (UART0_BASE + offset) value (devices s)\<rparr>"

definition uart_init :: "'d bus \<Rightarrow> 'd uart_state \<Rightarrow> 'd uart_state" where
  "uart_init bus s =
     (let s = write_reg bus REG_LCR 0x80 s;
          s = write_reg bus REG_THR 0x00 s;
          s = write_reg bus REG_IER 0x00 s;
          s = write_reg bus REG_LCR 0x03 s;
          s = write_reg bus REG_FCR 0x07 s;
          s = write_reg bus REG_MCR 0x0B s
      in write_reg bus REG_IER IER_RECEIVE_AVAILABLE s)"

fun write_byte :: "'d bus \<Rightarrow> nat \<Rightarrow> u8 \<Rightarrow> 'd uart_state \<Rightarrow> (unit, 'e) outcome \<times> 'd uart_state" where
  "write_byte bus 0 byte s = (Hang, s)"
| "write_byte bus (Suc fuel) byte s =
     (case read_reg bus REG_LSR s of (lsr, s) \<Rightarrow>
      if lsr AND LSR_THR_EMPTY = 0 then write_byte bus fuel byte s
      else (Ok (), write_reg bus REG_THR byte s))"

fun hw_write_bytes :: "'d bus \<Rightarrow> nat \<Rightarrow> bytes \<Rightarrow> 'd uart_state \<Rightarrow> (unit, 'e) outcome \<times> 'd uart_state" where
  "hw_write_bytes bus fuel [] s = (Ok (), s)"
| "hw_write_bytes bus fuel (byte # bytes) s =
     tryS (if byte = 10 then write_byte bus fuel 13 s else (Ok (), s)) (\<lambda>_ s.
     tryS (write_byte bus fuel byte s) (\<lambda>_ s. hw_write_bytes bus fuel bytes s))"

definition hw_write_str :: "'d bus \<Rightarrow> nat \<Rightarrow> bytes \<Rightarrow> 'd uart_state \<Rightarrow> (unit, 'e) outcome \<times> 'd uart_state" where
  "hw_write_str bus fuel s c = hw_write_bytes bus fuel s c"

definition read_byte_nonblocking :: "'d uart_state \<Rightarrow> u8 option \<times> 'd uart_state" where
  "read_byte_nonblocking s = (case RX_QUEUE s of [] \<Rightarrow> (None, s) | b # q \<Rightarrow> (Some b, s\<lparr>RX_QUEUE := q\<rparr>))"

fun hw_read_byte_blocking :: "'d bus \<Rightarrow> nat \<Rightarrow> 'd uart_state \<Rightarrow> (u8, 'e) outcome \<times> 'd uart_state" where
  "hw_read_byte_blocking bus 0 s = (Hang, s)"
| "hw_read_byte_blocking bus (Suc fuel) s =
     (case read_byte_nonblocking s of
        (Some b, s) \<Rightarrow> (Ok b, s)
      | (None, s) \<Rightarrow>
          (case read_reg bus REG_LSR s of (lsr, s) \<Rightarrow>
           if lsr AND LSR_DATA_READY \<noteq> 0
           then (case read_reg bus REG_RBR s of (b, s) \<Rightarrow> (Ok b, s))
           else hw_read_byte_blocking bus fuel s))"

definition has_pending_byte :: "'d uart_state \<Rightarrow> bool" where
  "has_pending_byte s \<longleftrightarrow> RX_QUEUE s \<noteq> []"

definition signal_event :: "'d uart_state \<Rightarrow> 'd uart_state" where
  "signal_event s = s\<lparr>EVENT_READY := True\<rparr>"

fun drain_fifo :: "'d bus \<Rightarrow> nat \<Rightarrow> 'd uart_state \<Rightarrow> (unit, 'e) outcome \<times> 'd uart_state" where
  "drain_fifo bus 0 s = (Hang, s)"
| "drain_fifo bus (Suc fuel) s =
     (case read_reg bus REG_LSR s of (lsr, s) \<Rightarrow>
      if lsr AND LSR_DATA_READY \<noteq> 0
      then (case read_reg bus REG_RBR s of (byte, s) \<Rightarrow>
            drain_fifo bus fuel (s\<lparr>RX_QUEUE := RX_QUEUE s @ [byte]\<rparr>))
      else (Ok (), s))"

definition handle_interrupt :: "'d bus \<Rightarrow> nat \<Rightarrow> 'd uart_state \<Rightarrow> (unit, 'e) outcome \<times> 'd uart_state" where
  "handle_interrupt bus fuel s = tryS (drain_fifo bus fuel s) (\<lambda>_ s. (Ok (), signal_event s))"

section \<open>Interrupts\<close>

definition plic_read32 :: "'d bus \<Rightarrow> u64 \<Rightarrow> 'd uart_state \<Rightarrow> u32 \<times> 'd uart_state" where
  "plic_read32 bus addr s = (case bus_read32 bus addr (devices s) of (v, d) \<Rightarrow> (v, s\<lparr>devices := d\<rparr>))"

definition plic_write32 :: "'d bus \<Rightarrow> u64 \<Rightarrow> u32 \<Rightarrow> 'd uart_state \<Rightarrow> 'd uart_state" where
  "plic_write32 bus addr value s = s\<lparr>devices := bus_write32 bus addr value (devices s)\<rparr>"

definition interrupts_init :: "'d bus \<Rightarrow> 'd uart_state \<Rightarrow> 'd uart_state" where
  "interrupts_init bus s =
     (let s = plic_write32 bus (PLIC_PRIORITY_BASE + ucast UART_IRQ * 4) 1 s in
      case plic_read32 bus PLIC_SENABLE s of (enabled, s) \<Rightarrow>
      let s = plic_write32 bus PLIC_SENABLE (enabled OR push_bit (unat UART_IRQ) 1) s;
          s = plic_write32 bus PLIC_STHRESHOLD 0 s
      in s\<lparr>sie_sext := True, sstatus_sie := True\<rparr>)"

definition supervisor_external :: "'d bus \<Rightarrow> nat \<Rightarrow> 'd uart_state \<Rightarrow> (unit, 'e) outcome \<times> 'd uart_state" where
  "supervisor_external bus fuel s =
     (case plic_read32 bus PLIC_SCLAIM s of (claim, s) \<Rightarrow>
      tryS (if claim = UART_IRQ then handle_interrupt bus fuel s else (Ok (), s)) (\<lambda>_ s.
      let s = plic_write32 bus PLIC_SCLAIM claim s in (Ok (), signal_event s)))"

text \<open>\<^verbatim>\<open>wait_for_event\<close>: an interrupt that ends the wait is taken before the flag is looked at.\<close>

fun wait_loop :: "'d bus \<Rightarrow> nat \<Rightarrow> 'd uart_state \<Rightarrow> (unit, 'e) outcome \<times> 'd uart_state" where
  "wait_loop bus 0 s = (Hang, s)"
| "wait_loop bus (Suc fuel) s =
     (case bus_wfi bus (devices s) of (taken, d) \<Rightarrow>
      let s = s\<lparr>devices := d\<rparr> in
      tryS (if taken then supervisor_external bus fuel s else (Ok (), s)) (\<lambda>_ s.
        let ready = EVENT_READY s; s = s\<lparr>EVENT_READY := False\<rparr> in
        if ready \<or> has_pending_byte s then (Ok (), s) else wait_loop bus fuel s))"

definition wait_for_event :: "'d bus \<Rightarrow> nat \<Rightarrow> 'd uart_state \<Rightarrow> (unit, 'e) outcome \<times> 'd uart_state" where
  "wait_for_event bus fuel s =
     (if has_pending_byte s then (Ok (), s) else wait_loop bus fuel (s\<lparr>EVENT_READY := False\<rparr>))"

end
