(* ===== verification/UartProps.thy ===== *)
theory UartProps
  imports Uart Fd
begin

text \<open>
  The console driver refines the kernel's view of the console: two byte streams. What is known of
  the 16550 and of the interrupt controller is stated as laws over a view of the devices; the
  refinement is a simulation for every operation and for every sequence of interrupts, reads and
  writes.
\<close>

section \<open>What is known of the devices\<close>

text \<open>
  The receive FIFO, the bytes that will still arrive on the line, the bytes sent, whether the transmit
  holding register is empty, whether the divisor latch is open (register 0 and 1 then are the
  divisor), and the enabled interrupts.
\<close>

record 'd line_view =
  fifo :: "'d \<Rightarrow> bytes"
  incoming :: "'d \<Rightarrow> bytes"
  sent :: "'d \<Rightarrow> bytes"
  thr_empty :: "'d \<Rightarrow> bool"
  dlab :: "'d \<Rightarrow> bool"
  ier :: "'d \<Rightarrow> u8"

definition lsr :: "'d bus \<Rightarrow> 'd \<Rightarrow> u8 \<times> 'd" where
  "lsr bus d = bus_read8 bus (UART0_BASE + REG_LSR) d"

definition poll :: "'d bus \<Rightarrow> nat \<Rightarrow> 'd \<Rightarrow> 'd" where
  "poll bus k = (\<lambda>d. snd (lsr bus d)) ^^ k"

definition arrived :: "'d line_view \<Rightarrow> 'd \<Rightarrow> bytes" where
  "arrived U d = fifo U d @ incoming U d"

text \<open>
  Looking at the line status may let bytes arrive, and tells whether there are any. Reading the
  receive buffer takes the oldest byte.
\<close>

definition receives :: "'d bus \<Rightarrow> 'd line_view \<Rightarrow> bool" where
  "receives bus U \<longleftrightarrow>
     (\<forall>d v d'. lsr bus d = (v, d') \<longrightarrow>
        arrived U d' = arrived U d \<and> (v AND LSR_DATA_READY \<noteq> 0 \<longleftrightarrow> fifo U d' \<noteq> []) \<and>
        sent U d' = sent U d \<and> dlab U d' = dlab U d) \<and>
     (\<forall>d v d'. \<not> dlab U d \<and> fifo U d \<noteq> [] \<and> bus_read8 bus (UART0_BASE + REG_RBR) d = (v, d') \<longrightarrow>
        v = hd (fifo U d) \<and> fifo U d' = tl (fifo U d) \<and> incoming U d' = incoming U d \<and>
        sent U d' = sent U d \<and> dlab U d' = dlab U d) \<and>
     (\<forall>d. arrived U d \<noteq> [] \<longrightarrow> (\<exists>k. fst (lsr bus (poll bus k d)) AND LSR_DATA_READY \<noteq> 0))"

text \<open>
  The line status tells whether the transmit holding register is empty, and it becomes empty again and
  again. A byte written while it is empty is sent; of a byte written while it is not, nothing is
  known.
\<close>

definition transmits :: "'d bus \<Rightarrow> 'd line_view \<Rightarrow> bool" where
  "transmits bus U \<longleftrightarrow>
     (\<forall>d v d'. lsr bus d = (v, d') \<longrightarrow> (v AND LSR_THR_EMPTY \<noteq> 0 \<longleftrightarrow> thr_empty U d')) \<and>
     (\<forall>d. \<exists>k. fst (lsr bus (poll bus k d)) AND LSR_THR_EMPTY \<noteq> 0) \<and>
     (\<forall>v d. let d' = bus_write8 bus (UART0_BASE + REG_THR) v d in
        (dlab U d \<longrightarrow> sent U d' = sent U d) \<and>
        (\<not> dlab U d \<and> thr_empty U d \<longrightarrow> sent U d' = sent U d @ [v]) \<and>
        arrived U d' = arrived U d \<and> dlab U d' = dlab U d \<and> ier U d' = ier U d)"

definition configures :: "'d bus \<Rightarrow> 'd line_view \<Rightarrow> bool" where
  "configures bus U \<longleftrightarrow>
     (\<forall>v d. let d' = bus_write8 bus (UART0_BASE + REG_LCR) v d in
        dlab U d' = bit v 7 \<and> sent U d' = sent U d \<and> ier U d' = ier U d) \<and>
     (\<forall>v d. let d' = bus_write8 bus (UART0_BASE + REG_IER) v d in
        ier U d' = (if dlab U d then ier U d else v) \<and> sent U d' = sent U d \<and> dlab U d' = dlab U d) \<and>
     (\<forall>a \<in> {REG_FCR, REG_MCR}. \<forall>v d. let d' = bus_write8 bus (UART0_BASE + a) v d in
        ier U d' = ier U d \<and> sent U d' = sent U d \<and> dlab U d' = dlab U d)"

text \<open>The interrupt controller is another device.\<close>

definition plic_apart :: "'d bus \<Rightarrow> 'd line_view \<Rightarrow> bool" where
  "plic_apart bus U \<longleftrightarrow>
     (\<forall>a d. let d' = snd (bus_read32 bus a d) in
        arrived U d' = arrived U d \<and> sent U d' = sent U d \<and> dlab U d' = dlab U d) \<and>
     (\<forall>a v d. let d' = bus_write32 bus a v d in
        arrived U d' = arrived U d \<and> sent U d' = sent U d \<and> dlab U d' = dlab U d)"

section \<open>The relation to the kernel's streams\<close>

definition stream :: "'d line_view \<Rightarrow> 'd uart_state \<Rightarrow> bytes" where
  "stream U s = RX_QUEUE s @ arrived U (devices s)"

definition console_rel :: "'d line_view \<Rightarrow> 'd uart_state \<Rightarrow> kernel \<Rightarrow> bool" where
  "console_rel U s k \<longleftrightarrow>
     \<not> dlab U (devices s) \<and> k_rx k = stream U s \<and> wire k = sent U (devices s)"

lemma receives_lsr:
  assumes "receives bus U" and "lsr bus d = (v, d')"
  shows "arrived U d' = arrived U d" "v AND LSR_DATA_READY \<noteq> 0 \<longleftrightarrow> fifo U d' \<noteq> []"
    "sent U d' = sent U d" "dlab U d' = dlab U d"
  using assms unfolding receives_def by blast+

lemma receives_rbr:
  assumes "receives bus U" and "bus_read8 bus (UART0_BASE + REG_RBR) d = (v, d')"
    and "\<not> dlab U d" and "fifo U d \<noteq> []"
  shows "arrived U d = v # arrived U d'" "sent U d' = sent U d" "dlab U d' = dlab U d"
proof -
  have "v = hd (fifo U d) \<and> fifo U d' = tl (fifo U d) \<and> incoming U d' = incoming U d \<and>
      sent U d' = sent U d \<and> dlab U d' = dlab U d"
    using assms unfolding receives_def by blast
  then show "arrived U d = v # arrived U d'" "sent U d' = sent U d" "dlab U d' = dlab U d"
    using assms(4) by (simp_all add: arrived_def)
qed

lemma read_reg_lsr: "read_reg bus REG_LSR s = (fst (lsr bus (devices s)), s\<lparr>devices := snd (lsr bus (devices s))\<rparr>)"
  by (simp add: read_reg_def lsr_def split: prod.split)

lemma read_reg_rbr:
  "read_reg bus REG_RBR s = (fst (bus_read8 bus (UART0_BASE + REG_RBR) (devices s)),
     s\<lparr>devices := snd (bus_read8 bus (UART0_BASE + REG_RBR) (devices s))\<rparr>)"
  by (simp add: read_reg_def split: prod.split)

lemma poll_Suc: "poll bus (Suc k) d = poll bus k (snd (lsr bus d))"
  by (simp only: poll_def funpow_Suc_right comp_def)

text \<open>Two consoles that differ only in how often the status was looked at.\<close>

definition same_console :: "'d line_view \<Rightarrow> 'd uart_state \<Rightarrow> 'd uart_state \<Rightarrow> bool" where
  "same_console U s t \<longleftrightarrow> stream U t = stream U s \<and> sent U (devices t) = sent U (devices s) \<and>
     dlab U (devices t) = dlab U (devices s)"

lemma same_console_lsr:
  assumes "receives bus U"
  shows "same_console U s (s\<lparr>devices := snd (lsr bus (devices s))\<rparr>)"
  using receives_lsr [OF assms, of "devices s"] by (cases "lsr bus (devices s)") (simp add: same_console_def stream_def)

lemma same_console_trans: "same_console U s t \<Longrightarrow> same_console U t u \<Longrightarrow> same_console U s u"
  by (simp add: same_console_def)

lemma same_console_rel: "same_console U s t \<Longrightarrow> console_rel U s k \<Longrightarrow> console_rel U t k"
  by (simp add: same_console_def console_rel_def)

section \<open>Receiving\<close>

lemma drain_fifo_ok:
  fixes s :: "'d uart_state"
  assumes recv: "receives bus U" and "\<not> dlab U (devices s)"
  shows "\<exists>s'. same_console U s s' \<and> fifo U (devices s') = [] \<and> prefix (RX_QUEUE s) (RX_QUEUE s') \<and>
    (\<forall>fuel > length (arrived U (devices s)). drain_fifo bus fuel s = (Ok () :: (unit, 'e) outcome, s'))"
  using assms(2)
proof (induction "length (arrived U (devices s))" arbitrary: s rule: less_induct)
  case less
  obtain v d where l: "lsr bus (devices s) = (v, d)" by fastforce
  let ?s = "s\<lparr>devices := d\<rparr>"
  note r = receives_lsr [OF recv l]
  have same: "same_console U s ?s" using same_console_lsr [OF recv, of s] l by simp
  show ?case
  proof (cases "v AND LSR_DATA_READY \<noteq> 0")
    case False
    then have "drain_fifo bus fuel s = (Ok () :: (unit, 'e) outcome, ?s)" if "0 < fuel" for fuel
      using that l by (cases fuel) (simp_all add: read_reg_lsr)
    moreover have "fifo U (devices ?s) = []" using False r(2) by simp
    ultimately show ?thesis using same by (intro exI [of _ ?s]) auto
  next
    case True
    obtain b d' where b: "bus_read8 bus (UART0_BASE + REG_RBR) d = (b, d')" by fastforce
    let ?t = "s\<lparr>devices := d', RX_QUEUE := RX_QUEUE s @ [b]\<rparr>"
    have rb: "arrived U d = b # arrived U d'" "sent U d' = sent U d" "dlab U d' = dlab U d"
      using receives_rbr [OF recv b] True r less.prems by simp_all
    have step: "drain_fifo bus (Suc fuel) s = (drain_fifo bus fuel ?t :: (unit, 'e) outcome \<times> _)" for fuel
      using True l b by (simp add: read_reg_lsr read_reg_rbr)
    have len: "length (arrived U (devices s)) = Suc (length (arrived U (devices ?t)))"
      by (simp add: r(1) [symmetric] rb(1))
    have "same_console U s ?t" using same rb by (simp add: same_console_def stream_def)
    moreover obtain s' where s': "same_console U ?t s'" "fifo U (devices s') = []" "prefix (RX_QUEUE ?t) (RX_QUEUE s')"
      "\<And>fuel. length (arrived U (devices ?t)) < fuel \<Longrightarrow> drain_fifo bus fuel ?t = (Ok () :: (unit, 'e) outcome, s')"
      using less.hyps [of ?t] len rb r less.prems by auto
    moreover have "drain_fifo bus fuel s = (Ok () :: (unit, 'e) outcome, s')"
      if "length (arrived U (devices s)) < fuel" for fuel
    proof -
      from that len obtain f where f: "fuel = Suc f" "length (arrived U (devices ?t)) < f"
        by (cases fuel) auto
      show ?thesis unfolding f(1) step by (rule s'(4) [OF f(2)])
    qed
    moreover have "prefix (RX_QUEUE s) (RX_QUEUE s')"
      using s'(3) by (simp add: append_prefixD)
    ultimately show ?thesis by (meson same_console_trans)
  qed
qed

lemma supervisor_external_ok:
  fixes s :: "'d uart_state"
  assumes recv: "receives bus U" and plic: "plic_apart bus U" and "\<not> dlab U (devices s)"
  shows "\<exists>F s'. same_console U s s' \<and>
    (\<forall>fuel \<ge> F. supervisor_external bus fuel s = (Ok () :: (unit, 'e) outcome, s'))"
proof -
  obtain claim d where c: "bus_read32 bus PLIC_SCLAIM (devices s) = (claim, d)" by fastforce
  let ?s = "s\<lparr>devices := d\<rparr>"
  let ?done = "\<lambda>t. signal_event (plic_write32 bus PLIC_SCLAIM claim t)"
  have rd: "arrived U (snd (bus_read32 bus a e)) = arrived U e \<and> sent U (snd (bus_read32 bus a e)) = sent U e \<and>
      dlab U (snd (bus_read32 bus a e)) = dlab U e" for a e
    using plic by (simp add: plic_apart_def Let_def)
  have wr: "arrived U (bus_write32 bus a v e) = arrived U e \<and> sent U (bus_write32 bus a v e) = sent U e \<and>
      dlab U (bus_write32 bus a v e) = dlab U e" for a v e
    using plic by (simp add: plic_apart_def Let_def)
  have same: "same_console U s ?s"
    using rd [of PLIC_SCLAIM "devices s"] c by (simp add: same_console_def stream_def)
  have fin: "same_console U t (?done t)" "same_console U t (?done (signal_event t))" for t
    using wr by (simp_all add: same_console_def stream_def signal_event_def plic_write32_def)
  have dlab: "\<not> dlab U (devices ?s)" using same assms(3) by (simp add: same_console_def)
  show ?thesis
  proof (cases "claim = UART_IRQ")
    case True
    obtain t where t: "same_console U ?s t"
      "\<forall>fuel > length (arrived U (devices ?s)). drain_fifo bus fuel ?s = (Ok () :: (unit, 'e) outcome, t)"
      using drain_fifo_ok [OF recv dlab] by blast
    then have "\<forall>fuel \<ge> Suc (length (arrived U (devices ?s))).
        supervisor_external bus fuel s = (Ok () :: (unit, 'e) outcome, ?done (signal_event t))"
      using c True by (simp add: supervisor_external_def plic_read32_def handle_interrupt_def Let_def)
    moreover have "same_console U s (?done (signal_event t))"
      using same t(1) fin(2) by (meson same_console_trans)
    ultimately show ?thesis by blast
  next
    case False
    then have "supervisor_external bus fuel s = (Ok () :: (unit, 'e) outcome, ?done ?s)" for fuel
      using c by (simp add: supervisor_external_def plic_read32_def Let_def)
    moreover have "same_console U s (?done ?s)" using same fin(1) by (meson same_console_trans)
    ultimately show ?thesis by blast
  qed
qed

text \<open>A read returns the next byte of the stream, after enough looks at the status register.\<close>

lemma read_empty_hangs:
  assumes recv: "receives bus U" and "stream U s = []"
  shows "fst (hw_read_byte_blocking bus fuel s) = Hang"
  using assms(2)
proof (induction fuel arbitrary: s)
  case 0
  then show ?case by simp
next
  case (Suc fuel)
  obtain v d where l: "lsr bus (devices s) = (v, d)" by fastforce
  have q: "RX_QUEUE s = []" "arrived U (devices s) = []" using Suc.prems by (simp_all add: stream_def)
  then have "v AND LSR_DATA_READY = 0"
    using receives_lsr [OF recv l] by (simp add: arrived_def)
  moreover have "stream U (s\<lparr>devices := d\<rparr>) = []"
    using receives_lsr(1) [OF recv l] q by (simp add: stream_def)
  ultimately show ?case
    using Suc.IH q l by (simp add: read_byte_nonblocking_def read_reg_lsr)
qed

lemma read_now:
  fixes s :: "'d uart_state"
  assumes recv: "receives bus U" and l: "lsr bus (devices s) = (v, d)" and "v AND LSR_DATA_READY \<noteq> 0"
    and dl: "\<not> dlab U (devices s)" and q: "RX_QUEUE s = []" and st: "stream U s = b # bs"
  shows "\<exists>F s'. stream U s' = bs \<and> sent U (devices s') = sent U (devices s) \<and> \<not> dlab U (devices s') \<and>
    (\<forall>fuel \<ge> F. hw_read_byte_blocking bus fuel s = (Ok b :: (u8, 'e) outcome, s'))"
proof -
  note r = receives_lsr [OF recv l]
  obtain c d' where rb: "bus_read8 bus (UART0_BASE + REG_RBR) d = (c, d')" by fastforce
  note rr = receives_rbr [OF recv rb]
  have 1: "arrived U d = c # arrived U d'" "sent U d' = sent U d" "dlab U d' = dlab U d"
    using rr r assms(3) dl by simp_all
  have cb: "c = b" "arrived U d' = bs" using st q r(1) 1(1) by (auto simp: stream_def)
  have "hw_read_byte_blocking bus fuel s = (Ok b :: (u8, 'e) outcome, s\<lparr>devices := d'\<rparr>)" if "1 \<le> fuel" for fuel
    using that assms(3) l rb q cb
    by (cases fuel) (simp_all add: read_byte_nonblocking_def read_reg_lsr read_reg_rbr)
  moreover have "stream U (s\<lparr>devices := d'\<rparr>) = bs" using q cb by (simp add: stream_def)
  moreover have "sent U (devices (s\<lparr>devices := d'\<rparr>)) = sent U (devices s)" "\<not> dlab U (devices (s\<lparr>devices := d'\<rparr>))"
    using 1 r dl by simp_all
  ultimately show ?thesis by blast
qed

lemma read_polls:
  fixes s :: "'d uart_state"
  assumes recv: "receives bus U" and "\<not> dlab U (devices s)" and "RX_QUEUE s = []"
    and "stream U s = b # bs" and "fst (lsr bus (poll bus k (devices s))) AND LSR_DATA_READY \<noteq> 0"
  shows "\<exists>F s'. stream U s' = bs \<and> sent U (devices s') = sent U (devices s) \<and> \<not> dlab U (devices s') \<and>
    (\<forall>fuel \<ge> F. hw_read_byte_blocking bus fuel s = (Ok b :: (u8, 'e) outcome, s'))"
  using assms(2-)
proof (induction k arbitrary: s)
  case 0
  obtain v d where l: "lsr bus (devices s) = (v, d)" by fastforce
  then have "v AND LSR_DATA_READY \<noteq> 0" using "0.prems"(4) by (simp add: poll_def)
  from read_now [OF recv l this "0.prems"(1-3)] show ?case .
next
  case (Suc k)
  obtain v d where l: "lsr bus (devices s) = (v, d)" by fastforce
  note r = receives_lsr [OF recv l]
  let ?s = "s\<lparr>devices := d\<rparr>"
  show ?case
  proof (cases "v AND LSR_DATA_READY = 0")
    case True
    from Suc.IH [of ?s] Suc.prems r l obtain F s' where s': "stream U s' = bs"
      "sent U (devices s') = sent U (devices s)" "\<not> dlab U (devices s')"
      "\<And>fuel. F \<le> fuel \<Longrightarrow> hw_read_byte_blocking bus fuel ?s = (Ok b :: (u8, 'e) outcome, s')"
      by (auto simp: stream_def poll_Suc)
    have "hw_read_byte_blocking bus fuel s = (Ok b :: (u8, 'e) outcome, s')" if "Suc F \<le> fuel" for fuel
      using that True l Suc.prems s'(4) by (cases fuel) (simp_all add: read_byte_nonblocking_def read_reg_lsr)
    with s' show ?thesis by blast
  next
    case False
    from read_now [OF recv l False Suc.prems(1-3)] show ?thesis .
  qed
qed

lemma read_ok:
  fixes s :: "'d uart_state"
  assumes recv: "receives bus U" and dl: "\<not> dlab U (devices s)" and st: "stream U s = b # bs"
  shows "\<exists>F s'. stream U s' = bs \<and> sent U (devices s') = sent U (devices s) \<and> \<not> dlab U (devices s') \<and>
    (\<forall>fuel \<ge> F. hw_read_byte_blocking bus fuel s = (Ok b :: (u8, 'e) outcome, s'))"
proof (cases "RX_QUEUE s")
  case Nil
  then have "arrived U (devices s) \<noteq> []" using st by (simp add: stream_def)
  then obtain k where "fst (lsr bus (poll bus k (devices s))) AND LSR_DATA_READY \<noteq> 0"
    using recv unfolding receives_def by blast
  from read_polls [OF recv dl Nil st this] show ?thesis .
next
  case (Cons c q)
  then have "hw_read_byte_blocking bus fuel s = (Ok b :: (u8, 'e) outcome, s\<lparr>RX_QUEUE := q\<rparr>)" if "1 \<le> fuel" for fuel
    using that st by (cases fuel) (simp_all add: read_byte_nonblocking_def stream_def)
  moreover have "stream U (s\<lparr>RX_QUEUE := q\<rparr>) = bs" using Cons st by (simp add: stream_def)
  ultimately show ?thesis
    using dl by (intro exI [of _ 1] exI [of _ "s\<lparr>RX_QUEUE := q\<rparr>"]) simp
qed

section \<open>Sending\<close>

definition line_sends :: "'d line_view \<Rightarrow> bytes \<Rightarrow> 'd uart_state \<Rightarrow> 'd uart_state \<Rightarrow> bool" where
  "line_sends U bs s s' \<longleftrightarrow> sent U (devices s') = sent U (devices s) @ bs \<and> stream U s' = stream U s \<and>
     \<not> dlab U (devices s')"

lemma sends_trans: "line_sends U bs s t \<Longrightarrow> line_sends U cs t u \<Longrightarrow> line_sends U (bs @ cs) s u"
  by (simp add: line_sends_def)

lemma write_now:
  fixes s :: "'d uart_state"
  assumes recv: "receives bus U" and trans: "transmits bus U" and "\<not> dlab U (devices s)"
    and l: "lsr bus (devices s) = (v, d)" and "v AND LSR_THR_EMPTY \<noteq> 0"
  shows "\<exists>F s'. line_sends U [b] s s' \<and> (\<forall>fuel \<ge> F. write_byte bus fuel b s = (Ok () :: (unit, 'e) outcome, s'))"
proof -
  note r = receives_lsr [OF recv l]
  let ?d = "bus_write8 bus (UART0_BASE + REG_THR) b d"
  have "write_byte bus fuel b s = (Ok () :: (unit, 'e) outcome, s\<lparr>devices := ?d\<rparr>)" if "1 \<le> fuel" for fuel
    using that assms(5) l by (cases fuel) (simp_all add: read_reg_lsr write_reg_def)
  moreover have "thr_empty U d" using trans l assms(5) unfolding transmits_def by blast
  then have "line_sends U [b] s (s\<lparr>devices := ?d\<rparr>)"
    using trans r assms(3) by (simp add: line_sends_def transmits_def Let_def stream_def)
  ultimately show ?thesis by blast
qed

lemma write_byte_polls:
  fixes s :: "'d uart_state"
  assumes recv: "receives bus U" and trans: "transmits bus U" and "\<not> dlab U (devices s)"
    and "fst (lsr bus (poll bus k (devices s))) AND LSR_THR_EMPTY \<noteq> 0"
  shows "\<exists>F s'. line_sends U [b] s s' \<and> (\<forall>fuel \<ge> F. write_byte bus fuel b s = (Ok () :: (unit, 'e) outcome, s'))"
  using assms(3-)
proof (induction k arbitrary: s)
  case 0
  obtain v d where l: "lsr bus (devices s) = (v, d)" by fastforce
  then have "v AND LSR_THR_EMPTY \<noteq> 0" using "0.prems"(2) by (simp add: poll_def)
  from write_now [OF recv trans "0.prems"(1) l this] show ?case .
next
  case (Suc k)
  obtain v d where l: "lsr bus (devices s) = (v, d)" by fastforce
  note r = receives_lsr [OF recv l]
  show ?case
  proof (cases "v AND LSR_THR_EMPTY = 0")
    case True
    let ?s = "s\<lparr>devices := d\<rparr>"
    from Suc.IH [of ?s] Suc.prems r l obtain F s' where s': "line_sends U [b] ?s s'"
      "\<And>fuel. F \<le> fuel \<Longrightarrow> write_byte bus fuel b ?s = (Ok () :: (unit, 'e) outcome, s')"
      by (auto simp: poll_Suc)
    have "write_byte bus fuel b s = (Ok () :: (unit, 'e) outcome, s')" if "Suc F \<le> fuel" for fuel
      using that True l s'(2) by (cases fuel) (simp_all add: read_reg_lsr)
    moreover have "line_sends U [b] s s'" using s'(1) r by (simp add: line_sends_def stream_def)
    ultimately show ?thesis by blast
  next
    case False
    from write_now [OF recv trans Suc.prems(1) l False] show ?thesis .
  qed
qed

lemma write_byte_ok:
  assumes recv: "receives bus U" and trans: "transmits bus U" and "\<not> dlab U (devices s)"
  shows "\<exists>F s'. line_sends U [b] s s' \<and> (\<forall>fuel \<ge> F. write_byte bus fuel b s = (Ok () :: (unit, 'e) outcome, s'))"
proof -
  obtain k where "fst (lsr bus (poll bus k (devices s))) AND LSR_THR_EMPTY \<noteq> 0"
    using trans unfolding transmits_def by blast
  from write_byte_polls [OF recv trans assms(3) this] show ?thesis .
qed

lemma hw_write_bytes_ok:
  fixes s :: "'d uart_state"
  assumes recv: "receives bus U" and trans: "transmits bus U" and "\<not> dlab U (devices s)"
  shows "\<exists>F s'. line_sends U (console bs) s s' \<and>
    (\<forall>fuel \<ge> F. hw_write_bytes bus fuel bs s = (Ok () :: (unit, 'e) outcome, s'))"
  using assms(3)
proof (induction bs arbitrary: s)
  case Nil
  then show ?case by (auto simp: line_sends_def console_def)
next
  case (Cons b bs)
  have "\<exists>F s1. line_sends U (if b = 10 then [13] else []) s s1 \<and>
      (\<forall>fuel \<ge> F. (if b = 10 then write_byte bus fuel 13 s else (Ok (), s)) = (Ok () :: (unit, 'e) outcome, s1))"
    using write_byte_ok [OF recv trans Cons.prems, of 13] Cons.prems by (auto simp: line_sends_def)
  then obtain F1 s1 where 1: "line_sends U (if b = 10 then [13] else []) s s1"
    "\<And>fuel. F1 \<le> fuel \<Longrightarrow> (if b = 10 then write_byte bus fuel 13 s else (Ok (), s)) = (Ok () :: (unit, 'e) outcome, s1)"
    by blast
  then have d1: "\<not> dlab U (devices s1)" by (simp add: line_sends_def)
  obtain F2 s2 where 2: "line_sends U [b] s1 s2"
    "\<And>fuel. F2 \<le> fuel \<Longrightarrow> write_byte bus fuel b s1 = (Ok () :: (unit, 'e) outcome, s2)"
    using write_byte_ok [OF recv trans d1, of b] by blast
  then have d2: "\<not> dlab U (devices s2)" by (simp add: line_sends_def)
  obtain F3 s3 where 3: "line_sends U (console bs) s2 s3"
    "\<And>fuel. F3 \<le> fuel \<Longrightarrow> hw_write_bytes bus fuel bs s2 = (Ok () :: (unit, 'e) outcome, s3)"
    using Cons.IH [OF d2] by blast
  have "line_sends U (console (b # bs)) s s3"
    using sends_trans [OF sends_trans [OF 1(1) 2(1)] 3(1)] by (simp add: console_def split: if_splits)
  moreover have "hw_write_bytes bus fuel (b # bs) s = (Ok () :: (unit, 'e) outcome, s3)"
    if "max F1 (max F2 F3) \<le> fuel" for fuel
  proof -
    from that have f: "F1 \<le> fuel" "F2 \<le> fuel" "F3 \<le> fuel" by simp_all
    show ?thesis by (simp only: hw_write_bytes.simps 1(2) [OF f(1)] 2(2) [OF f(2)] 3(2) [OF f(3)] tryS.simps)
  qed
  ultimately show ?case by blast
qed

section \<open>Sequences\<close>

datatype console_event = Interrupt | ReadByte | WriteBytes origin bytes

text \<open>
  What happens at the registers, and what the kernel's model of the console does. Who writes makes no
  difference to the device.
\<close>

fun hw_event :: "'d bus \<Rightarrow> nat \<Rightarrow> console_event \<Rightarrow> 'd uart_state \<Rightarrow> (bytes, unit) outcome \<times> 'd uart_state" where
  "hw_event bus fuel Interrupt s = tryS (supervisor_external bus fuel s) (\<lambda>_ s. (Ok [], s))"
| "hw_event bus fuel ReadByte s = tryS (hw_read_byte_blocking bus fuel s) (\<lambda>b s. (Ok [b], s))"
| "hw_event bus fuel (WriteBytes w bs) s = tryS (hw_write_bytes bus fuel bs s) (\<lambda>_ s. (Ok [], s))"

fun kernel_event :: "console_event \<Rightarrow> kernel \<Rightarrow> (bytes, unit) outcome \<times> kernel" where
  "kernel_event Interrupt k = (Ok [], k)"
| "kernel_event ReadByte k = tryS (read_byte_blocking k) (\<lambda>b k. (Ok [b], k))"
| "kernel_event (WriteBytes w bs) k = (Ok [], uart_write_bytes w bs k)"

fun run_events :: "('ev \<Rightarrow> 's \<Rightarrow> (bytes, unit) outcome \<times> 's) \<Rightarrow> 'ev list \<Rightarrow> 's \<Rightarrow> (bytes, unit) outcome \<times> 's" where
  "run_events step [] s = (Ok [], s)"
| "run_events step (e # es) s =
     tryS (step e s) (\<lambda>bs s. tryS (run_events step es s) (\<lambda>cs s. (Ok (bs @ cs), s)))"

lemma hw_event_ok:
  fixes s :: "'d uart_state"
  assumes recv: "receives bus U" and trans: "transmits bus U" and plic: "plic_apart bus U"
    and rel: "console_rel U s k" and ok: "kernel_event e k = (Ok bs, k')"
  shows "\<exists>F s'. console_rel U s' k' \<and> (\<forall>fuel \<ge> F. hw_event bus fuel e s = (Ok bs, s'))"
proof (cases e)
  case Interrupt
  have dl: "\<not> dlab U (devices s)" using rel by (simp add: console_rel_def)
  obtain F s' where s': "same_console U s s'"
    "\<forall>fuel \<ge> F. supervisor_external bus fuel s = (Ok () :: (unit, unit) outcome, s')"
    using supervisor_external_ok [OF recv plic dl] by blast
  from same_console_rel [OF s'(1) rel] s'(2) ok Interrupt show ?thesis
    by (auto intro!: exI [of _ F] exI [of _ s'])
next
  case ReadByte
  from ok ReadByte obtain b where b: "bs = [b]" "k_rx k = b # k_rx k'" "wire k' = wire k"
    by (cases "k_rx k") (auto simp: read_byte_blocking_def wire_def)
  obtain F s' where "stream U s' = k_rx k'" "sent U (devices s') = sent U (devices s)" "\<not> dlab U (devices s')"
    "\<forall>fuel \<ge> F. hw_read_byte_blocking bus fuel s = (Ok b :: (u8, unit) outcome, s')"
    using read_ok [OF recv, of s b "k_rx k'"] rel b by (auto simp: console_rel_def)
  with rel b ReadByte show ?thesis by (auto simp: console_rel_def intro!: exI [of _ F] exI [of _ s'])
next
  case (WriteBytes w cs)
  have dl: "\<not> dlab U (devices s)" using rel by (simp add: console_rel_def)
  obtain F s' where "line_sends U (console cs) s s'"
    "\<forall>fuel \<ge> F. hw_write_bytes bus fuel cs s = (Ok () :: (unit, unit) outcome, s')"
    using hw_write_bytes_ok [OF recv trans dl, of cs] by blast
  with rel ok WriteBytes show ?thesis
    by (auto simp: console_rel_def line_sends_def wire_def intro!: exI [of _ F] exI [of _ s'])
qed

lemma hw_event_hang:
  assumes recv: "receives bus U" and rel: "console_rel U s k" and "\<not> is_ok (fst (kernel_event e k))"
  shows "fst (kernel_event e k) = Hang \<and> fst (hw_event bus fuel e s) = Hang"
proof -
  from assms(3) have e: "e = ReadByte" "k_rx k = []"
    by (cases e; cases "k_rx k"; simp add: read_byte_blocking_def)+
  then have "fst (hw_read_byte_blocking bus fuel s :: (u8, unit) outcome \<times> _) = Hang"
    by (intro read_empty_hangs [OF recv]) (use rel e in \<open>simp add: console_rel_def\<close>)
  with e show ?thesis by (simp add: read_byte_blocking_def tryS_Hang)
qed

section \<open>Properties\<close>

text \<open>
  C37. The interrupt-driven console driver refines the kernel's two byte streams. For a 16550 that
  follows its laws, every sequence of external interrupts (taken or not, in any place), blocking reads
  and writes delivers the bytes the kernel model delivers, in order, none lost, none twice, whether
  they were taken off the line by the interrupt handler or by the polling fallback, and sends what the
  model sends, each line feed preceded by a carriage return. The device promises to send only what is
  written while its holding register is empty, so nothing is lost only because the driver waits.
  Every busy loop ends: from some fuel on the result is there; a sequence that reads beyond the input
  never returns in either.
\<close>

theorem console_refines_streams:
  fixes s :: "'d uart_state"
  assumes recv: "receives bus U" and trans: "transmits bus U" and plic: "plic_apart bus U"
    and rel: "console_rel U s k"
  shows "\<exists>F s'. \<forall>fuel \<ge> F.
    fst (run_events (hw_event bus fuel) es s) = fst (run_events kernel_event es k) \<and>
    (is_ok (fst (run_events kernel_event es k)) \<longrightarrow>
       snd (run_events (hw_event bus fuel) es s) = s' \<and> console_rel U s' (snd (run_events kernel_event es k)))"
  using rel
proof (induction es arbitrary: s k)
  case Nil
  then show ?case by auto
next
  case (Cons e es)
  show ?case
  proof (cases "is_ok (fst (kernel_event e k))")
    case False
    from hw_event_hang [OF recv Cons.prems False] show ?thesis by (simp add: tryS_Hang)
  next
    case True
    then obtain bs k1 where k1: "kernel_event e k = (Ok bs, k1)" by (metis is_ok_iff prod.collapse)
    from hw_event_ok [OF recv trans plic Cons.prems k1] obtain F1 s1 where 1: "console_rel U s1 k1"
      "\<And>fuel. F1 \<le> fuel \<Longrightarrow> hw_event bus fuel e s = (Ok bs, s1)" by blast
    from Cons.IH [OF 1(1)] obtain F2 s2 where 2: "\<And>fuel. F2 \<le> fuel \<Longrightarrow>
        fst (run_events (hw_event bus fuel) es s1) = fst (run_events kernel_event es k1) \<and>
        (is_ok (fst (run_events kernel_event es k1)) \<longrightarrow>
          snd (run_events (hw_event bus fuel) es s1) = s2 \<and> console_rel U s2 (snd (run_events kernel_event es k1)))"
      by blast
    have "fst (run_events (hw_event bus fuel) (e # es) s) = fst (run_events kernel_event (e # es) k) \<and>
      (is_ok (fst (run_events kernel_event (e # es) k)) \<longrightarrow>
        snd (run_events (hw_event bus fuel) (e # es) s) = s2 \<and>
        console_rel U s2 (snd (run_events kernel_event (e # es) k)))" if "max F1 F2 \<le> fuel" for fuel
    proof -
      from that have f: "F1 \<le> fuel" "F2 \<le> fuel" by simp_all
      show ?thesis
        using 2 [OF f(2)] k1 1(2) [OF f(1)]
        by (cases "run_events kernel_event es k1"; cases "fst (run_events kernel_event es k1)";
            cases "run_events (hw_event bus fuel) es s1") auto
    qed
    then show ?thesis by blast
  qed
qed

text \<open>
  C38. The interrupt handler ends. However many bytes have arrived or still arrive while it runs, one
  turn of its loop for each of them and one more is enough; it leaves the receive FIFO empty, appends
  what it took to the receive queue, keeps the stream of bytes to be read as it was, and signals the
  event.
\<close>

theorem interrupt_handler_ends:
  fixes s :: "'d uart_state"
  assumes "receives bus U" and "\<not> dlab U (devices s)"
  shows "\<exists>s'. (\<forall>fuel > length (arrived U (devices s)). handle_interrupt bus fuel s = (Ok () :: (unit, 'e) outcome, s')) \<and>
    fifo U (devices s') = [] \<and> prefix (RX_QUEUE s) (RX_QUEUE s') \<and> stream U s' = stream U s \<and> EVENT_READY s'"
proof -
  obtain t where t: "same_console U s t" "fifo U (devices t) = []" "prefix (RX_QUEUE s) (RX_QUEUE t)"
    "\<forall>fuel > length (arrived U (devices s)). drain_fifo bus fuel s = (Ok () :: (unit, 'e) outcome, t)"
    using drain_fifo_ok [OF assms] by blast
  then show ?thesis
    by (intro exI [of _ "signal_event t"]) (simp add: handle_interrupt_def signal_event_def same_console_def stream_def)
qed

text \<open>
  Setting the console up: the divisor bytes go to the divisor latch and are not sent, the latch is
  closed afterwards so that register 0 is the data register again, and receive interrupts are the ones
  enabled; the interrupt controller is then told to deliver interrupt 10, with the interrupts enabled
  before still enabled, and the hart takes external interrupts. The receive queue is left alone.
\<close>

lemma console_setup:
  fixes s :: "'d uart_state"
  assumes "transmits bus U" and "configures bus U"
    and regs: "\<And>a v d. regs32 (bus_write32 bus a v d) = (regs32 d)(a := v)"
    and uart: "\<And>a v d. regs32 (bus_write8 bus a v d) = regs32 d"
    and reads: "\<And>a d. bus_read32 bus a d = (regs32 d a, d)"
    and apart: "\<And>a v d. dlab U (bus_write32 bus a v d) = dlab U d \<and>
      ier U (bus_write32 bus a v d) = ier U d \<and> sent U (bus_write32 bus a v d) = sent U d"
  defines "t \<equiv> interrupts_init bus (uart_init bus s)"
  shows "sent U (devices t) = sent U (devices s)" "\<not> dlab U (devices t)"
    "ier U (devices t) = IER_RECEIVE_AVAILABLE" "sie_sext t \<and> sstatus_sie t" "RX_QUEUE t = RX_QUEUE s"
    "bit (regs32 (devices t) PLIC_SENABLE) i = (bit (regs32 (devices s) PLIC_SENABLE) i \<or> i = 10)"
    "regs32 (devices t) (0x0c000000 + 40) = 1" "regs32 (devices t) PLIC_STHRESHOLD = 0"
proof -
  let ?u = "uart_init bus s"
  have u: "sent U (devices ?u) = sent U (devices s)" "\<not> dlab U (devices ?u)"
    "ier U (devices ?u) = IER_RECEIVE_AVAILABLE" "RX_QUEUE ?u = RX_QUEUE s" "regs32 (devices ?u) = regs32 (devices s)"
    using assms(1,2) uart
    by (simp_all add: uart_init_def write_reg_def Let_def configures_def transmits_def)
  have t: "devices t = bus_write32 bus PLIC_STHRESHOLD 0
      (bus_write32 bus PLIC_SENABLE (regs32 (devices ?u) PLIC_SENABLE OR push_bit 10 1)
        (bus_write32 bus (PLIC_PRIORITY_BASE + 40) 1 (devices ?u)))"
    by (simp add: t_def interrupts_init_def plic_write32_def plic_read32_def Let_def reads regs plic_regs)
  show "sent U (devices t) = sent U (devices s)" "\<not> dlab U (devices t)"
    "ier U (devices t) = IER_RECEIVE_AVAILABLE" "sie_sext t \<and> sstatus_sie t" "RX_QUEUE t = RX_QUEUE s"
    using u by (simp_all add: t apart)
      (simp_all add: t_def interrupts_init_def plic_write32_def plic_read32_def Let_def reads)
  show "bit (regs32 (devices t) PLIC_SENABLE) i = (bit (regs32 (devices s) PLIC_SENABLE) i \<or> i = 10)"
    "regs32 (devices t) (0x0c000000 + 40) = 1" "regs32 (devices t) PLIC_STHRESHOLD = 0"
    using bit_exp_iff [where ?'a = u32, of 10 i] by (auto simp: t regs u plic_regs bit_or_iff)
qed

section \<open>A console whose bytes arrive one look at a time, and that loses what is written while it is busy\<close>

record demo_line =
  dl_fifo :: bytes
  dl_incoming :: bytes
  dl_sent :: bytes
  dl_busy :: nat
  dl_dlab :: bool
  dl_ier :: u8
  dl_plic :: "u64 \<Rightarrow> u32"

definition demo_line_view :: "demo_line line_view" where
  "demo_line_view = \<lparr>fifo = dl_fifo, incoming = dl_incoming, sent = dl_sent,
     thr_empty = (\<lambda>d. dl_busy d = 0), dlab = dl_dlab, ier = dl_ier\<rparr>"

definition demo_bus :: "demo_line bus" where
  "demo_bus = \<lparr>
     bus_read8 = (\<lambda>a d.
       if a = UART0_BASE + REG_LSR then
         (let d' = d\<lparr>dl_fifo := dl_fifo d @ take 1 (dl_incoming d), dl_incoming := drop 1 (dl_incoming d), dl_busy := dl_busy d - 1\<rparr>
          in ((if dl_fifo d' = [] then 0 else 1) OR (if dl_busy d' = 0 then 0x20 else 0), d'))
       else (case dl_fifo d of [] \<Rightarrow> (0, d) | b # q \<Rightarrow> (b, d\<lparr>dl_fifo := q\<rparr>))),
     bus_write8 = (\<lambda>a v d.
       if a = UART0_BASE + REG_THR then 
         (if dl_dlab d then d else if dl_busy d = 0 then d\<lparr>dl_sent := dl_sent d @ [v], dl_busy := 3\<rparr> else d)
       else if a = UART0_BASE + REG_IER then (if dl_dlab d then d else d\<lparr>dl_ier := v\<rparr>)
       else if a = UART0_BASE + REG_LCR then d\<lparr>dl_dlab := bit v 7\<rparr> else d),
     bus_read32 = (\<lambda>a d. (dl_plic d a, d)),
     bus_write32 = (\<lambda>a v d. d\<lparr>dl_plic := (dl_plic d)(a := v)\<rparr>),
     bus_wfi = (\<lambda>d. (True, d))\<rparr>"

definition demo_console :: "demo_line uart_state" where
  "demo_console = \<lparr>RX_QUEUE = [104], EVENT_READY = False, sie_sext = False, sstatus_sie = False,
     devices = \<lparr>dl_fifo = [105], dl_incoming = [33], dl_sent = [], dl_busy = 0, dl_dlab = False, dl_ier = 0,
       dl_plic = (\<lambda>a. if a = PLIC_SCLAIM then 10 else 0)\<rparr>\<rparr>"

lemma demo_receives: "receives demo_bus demo_line_view"
proof -
  have data: "fst (lsr demo_bus (poll demo_bus 0 d)) AND LSR_DATA_READY \<noteq> 0"
    if "arrived demo_line_view d \<noteq> []" for d
    using that
    by (cases "dl_incoming d")
      (auto simp: lsr_def poll_def demo_bus_def arrived_def demo_line_view_def LSR_DATA_READY_def Let_def)
  have "arrived demo_line_view d' = arrived demo_line_view d \<and>
      (v AND LSR_DATA_READY \<noteq> 0 \<longleftrightarrow> fifo demo_line_view d' \<noteq> []) \<and>
      sent demo_line_view d' = sent demo_line_view d \<and> dlab demo_line_view d' = dlab demo_line_view d"
    if "lsr demo_bus d = (v, d')" for d v d'
    using that
    by (auto simp: lsr_def demo_bus_def arrived_def demo_line_view_def LSR_DATA_READY_def Let_def split: if_splits)
  moreover have "v = hd (fifo demo_line_view d) \<and> fifo demo_line_view d' = tl (fifo demo_line_view d) \<and>
      incoming demo_line_view d' = incoming demo_line_view d \<and> sent demo_line_view d' = sent demo_line_view d \<and>
      dlab demo_line_view d' = dlab demo_line_view d"
    if "fifo demo_line_view d \<noteq> []" "bus_read8 demo_bus (UART0_BASE + REG_RBR) d = (v, d')" for d v d'
    using that by (cases "dl_fifo d") (auto simp: demo_bus_def demo_line_view_def uart_regs)
  ultimately show ?thesis using data unfolding receives_def by blast
qed

lemma demo_transmits: "transmits demo_bus demo_line_view"
proof -
  have status: "v AND LSR_THR_EMPTY \<noteq> 0 \<longleftrightarrow> dl_busy d' = 0" "dl_busy d' = dl_busy d - 1" if "lsr demo_bus d = (v, d')" for d v d'
    using that by (auto simp: lsr_def demo_bus_def LSR_THR_EMPTY_def Let_def split: if_splits)
  have busy: "dl_busy (poll demo_bus k d) = dl_busy d - k" for k d
  proof (induction k arbitrary: d)
    case (Suc k)
    then show ?case using status(2) [of d] by (cases "lsr demo_bus d") (simp add: poll_Suc)
  qed (simp add: poll_def)
  have "fst (lsr demo_bus (poll demo_bus (dl_busy d) d)) AND LSR_THR_EMPTY \<noteq> 0" for d
    using status [of "poll demo_bus (dl_busy d) d"] busy [of "dl_busy d" d] by (cases "lsr demo_bus (poll demo_bus (dl_busy d) d)") simp
  then have "\<forall>d. \<exists>k. fst (lsr demo_bus (poll demo_bus k d)) AND LSR_THR_EMPTY \<noteq> 0" by blast
  moreover have "\<forall>d v d'. lsr demo_bus d = (v, d') \<longrightarrow> (v AND LSR_THR_EMPTY \<noteq> 0 \<longleftrightarrow> thr_empty demo_line_view d')"
    using status(1) by (auto simp: demo_line_view_def)
  ultimately show ?thesis
    by (auto simp: transmits_def demo_bus_def demo_line_view_def arrived_def Let_def)
qed

lemma demo_plic_apart: "plic_apart demo_bus demo_line_view"
  by (simp add: plic_apart_def demo_bus_def demo_line_view_def arrived_def)

lemma demo_configures: "configures demo_bus demo_line_view"
  by (auto simp: configures_def demo_bus_def demo_line_view_def uart_regs Let_def)

lemma demo_rel:
  "console_rel demo_line_view demo_console
     \<lparr>k_table = table_new, k_locked = False, k_pipes = [], k_fs = None, k_rx = [104, 105, 33], k_tx = [],
      k_machine = m\<rparr>"
  by (simp add: console_rel_def stream_def arrived_def demo_console_def demo_line_view_def wire_def)

theorem console_refines_streams_witness:
  "\<exists>F s'. \<forall>fuel \<ge> F. run_events (hw_event demo_bus fuel)
     [ReadByte, Interrupt, WriteBytes ByKernel [72, 10], ReadByte, WriteBytes ByProgram [73], ReadByte] demo_console = (Ok [104, 105, 33], s') \<and>
     dl_sent (devices s') = [72, 13, 10, 73]"
proof -
  let ?es = "[ReadByte, Interrupt, WriteBytes ByKernel [72, 10], ReadByte, WriteBytes ByProgram [73], ReadByte]"
  let ?k = "\<lparr>k_table = table_new, k_locked = False, k_pipes = [], k_fs = None, k_rx = [104, 105, 33],
    k_tx = [], k_machine = undefined\<rparr>"
  have "fst (run_events kernel_event ?es ?k) = Ok [104, 105, 33]" "wire (snd (run_events kernel_event ?es ?k)) = [72, 13, 10, 73]"
    by (simp_all add: read_byte_blocking_def uart_write_bytes_def wire_def console_def)
  note k = this
  from console_refines_streams [OF demo_receives demo_transmits demo_plic_apart demo_rel, of ?es undefined, unfolded k(1)] obtain F s'
    where "\<forall>fuel \<ge> F. fst (run_events (hw_event demo_bus fuel) ?es demo_console) = Ok [104, 105, 33] \<and>
      (is_ok (Ok [104 :: u8, 105, 33] :: (bytes, unit) outcome) \<longrightarrow>
        snd (run_events (hw_event demo_bus fuel) ?es demo_console) = s' \<and>
        console_rel demo_line_view s' (snd (run_events kernel_event ?es ?k)))" by blast
  then have s': "\<forall>fuel \<ge> F. fst (run_events (hw_event demo_bus fuel) ?es demo_console) = Ok [104, 105, 33] \<and>
      snd (run_events (hw_event demo_bus fuel) ?es demo_console) = s' \<and> sent demo_line_view (devices s') = [72, 13, 10, 73]"
    using k(2) unfolding console_rel_def by (metis is_ok.simps(1))
  have "sent demo_line_view = dl_sent" by (simp add: demo_line_view_def)
  with s' have "\<forall>fuel \<ge> F. run_events (hw_event demo_bus fuel) ?es demo_console = (Ok [104, 105, 33], s') \<and>
      dl_sent (devices s') = [72, 13, 10, 73]" by (metis prod.collapse)
  then show ?thesis by blast
qed

theorem interrupt_handler_ends_witness:
  "\<exists>s'. (\<forall>fuel > 2. handle_interrupt demo_bus fuel demo_console = (Ok () :: (unit, unit) outcome, s')) \<and>
    dl_fifo (devices s') = []"
proof -
  have "\<not> dlab demo_line_view (devices demo_console)"
    "length (arrived demo_line_view (devices demo_console)) = 2" "fifo demo_line_view = dl_fifo"
    by (simp_all add: arrived_def demo_console_def demo_line_view_def)
  with interrupt_handler_ends [OF demo_receives, of demo_console] show ?thesis by metis
qed

text \<open>The laws of the set-up hold of the same console.\<close>

lemma console_setup_demo:
  "dl_ier (devices (interrupts_init demo_bus (uart_init demo_bus demo_console))) = IER_RECEIVE_AVAILABLE \<and>
   bit (dl_plic (devices (interrupts_init demo_bus (uart_init demo_bus demo_console))) PLIC_SENABLE) 10"
  using console_setup(3) [OF demo_transmits demo_configures, of dl_plic demo_console]
    console_setup(6) [OF demo_transmits demo_configures, of dl_plic demo_console 10]
  by (simp add: demo_bus_def demo_line_view_def)

end
