(* ===== verification/KernelMain.thy ===== *)
theory KernelMain
  imports KernelInv RustStr
begin

text \<open>
  The kernel's entry, \<^verbatim>\<open>src/main.rs\<close>: path normalization, the built-in commands of the kernel
  shell (which \<^verbatim>\<open>main\<close> no longer calls, but the crate still contains), installing the embedded
  programs, and launching the user shell. Printing goes to the console stream of the kernel's
  state. A function that hands control away for good (idling, shutdown, a trap, user mode) returns
  this as the error value \<open>leave\<close>. Parameters: the result of probing the block device, the
  allocator, the embedded binaries the build produces, and the call to the firmware.
\<close>

section \<open>Printing\<close>

definition print :: "bytes \<Rightarrow> kernel \<Rightarrow> kernel" where
  "print t k = uart_write_bytes ByKernel t k"

definition println :: "bytes \<Rightarrow> kernel \<Rightarrow> kernel" where
  "println t k = print [10] (print t k)"

fun printlns :: "bytes list \<Rightarrow> kernel \<Rightarrow> kernel" where
  "printlns [] k = k"
| "printlns (t # ts) k = printlns ts (println t k)"

fun virtio_message :: "VirtioError \<Rightarrow> bytes" where
  "virtio_message DeviceNotFound = ascii ''virtio block device missing''"
| "virtio_message UnsupportedDevice = ascii ''unsupported virtio block device''"
| "virtio_message (LegacyOnly ver) =
     (if ver = 1 then ascii ''legacy virtio-mmio (version 1) not supported; add ,disable-legacy=on''
      else ascii ''unknown virtio-mmio version'')"
| "virtio_message QueueUnavailable = ascii ''virtio queue unavailable''"
| "virtio_message DeviceRejectedFeatures = ascii ''virtio feature negotiation failed''"
| "virtio_message DeviceFailure = ascii ''virtio block device failed''"

fun fs_message :: "FsError \<Rightarrow> bytes" where
  "fs_message NotInitialized = ascii ''filesystem not initialized''"
| "fs_message NameTooLong = ascii ''filename too long''"
| "fs_message DirectoryFull = ascii ''no free directory entries''"
| "fs_message NotFound = ascii ''file not found''"
| "fs_message NoSpace = ascii ''disk is full''"
| "fs_message InvalidEncoding = ascii ''invalid string encoding''"
| "fs_message (DeviceInitFailed err) = virtio_message err"
| "fs_message InvalidPath = ascii ''invalid path''"
| "fs_message NotADirectory = ascii ''not a directory''"
| "fs_message AlreadyExists = ascii ''entry already exists''"
| "fs_message DirectoryNotEmpty = ascii ''directory not empty''"
| "fs_message IsDirectory = ascii ''expected file but found directory''"
| "fs_message IsFile = ascii ''expected directory but found file''"

text \<open>The derived \<^verbatim>\<open>Debug\<close> forms that are printed with \<^verbatim>\<open>{:?}\<close>.\<close>

fun elf_debug :: "ElfError \<Rightarrow> bytes" where
  "elf_debug BadMagic = ascii ''BadMagic''"
| "elf_debug UnsupportedClass = ascii ''UnsupportedClass''"
| "elf_debug UnsupportedEncoding = ascii ''UnsupportedEncoding''"
| "elf_debug UnsupportedVersion = ascii ''UnsupportedVersion''"
| "elf_debug Truncated = ascii ''Truncated''"
| "elf_debug UnsupportedType = ascii ''UnsupportedType''"

fun virtio_debug :: "VirtioError \<Rightarrow> bytes" where
  "virtio_debug DeviceNotFound = ascii ''DeviceNotFound''"
| "virtio_debug UnsupportedDevice = ascii ''UnsupportedDevice''"
| "virtio_debug (LegacyOnly ver) = ascii ''LegacyOnly('' @ show_nat (unat ver) @ ascii '')''"
| "virtio_debug QueueUnavailable = ascii ''QueueUnavailable''"
| "virtio_debug DeviceRejectedFeatures = ascii ''DeviceRejectedFeatures''"
| "virtio_debug DeviceFailure = ascii ''DeviceFailure''"

fun fs_debug :: "FsError \<Rightarrow> bytes" where
  "fs_debug NotInitialized = ascii ''NotInitialized''"
| "fs_debug NameTooLong = ascii ''NameTooLong''"
| "fs_debug DirectoryFull = ascii ''DirectoryFull''"
| "fs_debug NotFound = ascii ''NotFound''"
| "fs_debug NoSpace = ascii ''NoSpace''"
| "fs_debug InvalidEncoding = ascii ''InvalidEncoding''"
| "fs_debug (DeviceInitFailed err) = ascii ''DeviceInitFailed('' @ virtio_debug err @ ascii '')''"
| "fs_debug InvalidPath = ascii ''InvalidPath''"
| "fs_debug NotADirectory = ascii ''NotADirectory''"
| "fs_debug AlreadyExists = ascii ''AlreadyExists''"
| "fs_debug DirectoryNotEmpty = ascii ''DirectoryNotEmpty''"
| "fs_debug IsDirectory = ascii ''IsDirectory''"
| "fs_debug IsFile = ascii ''IsFile''"

fun fd_debug :: "FdError \<Rightarrow> bytes" where
  "fd_debug BadFd = ascii ''BadFd''"
| "fd_debug TooManyOpen = ascii ''TooManyOpen''"
| "fd_debug FdNotFound = ascii ''NotFound''"
| "fd_debug NotImplemented = ascii ''NotImplemented''"
| "fd_debug WouldBlock = ascii ''WouldBlock''"
| "fd_debug BrokenPipe = ascii ''BrokenPipe''"
| "fd_debug (FdFs err) = ascii ''Fs('' @ fs_debug err @ ascii '')''"

section \<open>Control\<close>

datatype leave = Idle | Shutdown | Breakpoint | UserMode u64 u64 nat nat

type_synonym 'a step = "('a, leave) outcome \<times> kernel"

definition on_fs :: "(fs_instance \<Rightarrow> ('a, FsError) outcome \<times> fs_instance) \<Rightarrow> kernel \<Rightarrow> ('a, FsError) outcome \<times> kernel" where
  "on_fs f k = (case f (k_fs k) of (r, g) \<Rightarrow> (r, k\<lparr>k_fs := g\<rparr>))"

text \<open>A match on a file system result whose error branch prints it and goes on with \<open>d\<close>.\<close>

fun or_report :: "'b \<Rightarrow> ('a, FsError) outcome \<times> kernel \<Rightarrow> ('a \<Rightarrow> kernel \<Rightarrow> 'b step) \<Rightarrow> 'b step" where
  "or_report d (Ok x, k) f = f x k"
| "or_report d (Err err, k) f = (Ok d, println (ascii ''fs error: '' @ fs_message err) k)"
| "or_report d (Panic, k) f = (Panic, k)"
| "or_report d (Hang, k) f = (Hang, k)"

type_synonym probe = "(VirtIoBlock, VirtioError) outcome"

definition with_init :: "probe \<Rightarrow> 'b \<Rightarrow> (kernel \<Rightarrow> 'b step) \<Rightarrow> kernel \<Rightarrow> 'b step" where
  "with_init probe d f k = or_report d (on_fs (fs_init probe) k) (\<lambda>_ k. f k)"

definition clear_screen :: "kernel \<Rightarrow> kernel" where
  "clear_screen k = print (27 # ascii ''[2J'' @ 27 # ascii ''[1;1H'') k"

definition print_help_text :: "kernel \<Rightarrow> kernel" where
  "print_help_text k = printlns
     [ascii ''available commands:'',
      ascii ''  help      print this help message  (alias: h, ?)'',
      ascii ''  shutdown  shutdown the machine     (alias: sd, exit)'',
      ascii ''  echo      print text to console'',
      ascii ''  ls        list directory contents  (usage: ls [path])'',
      ascii ''  cd        change directory         (usage: cd <path>)'',
      ascii ''  fs        simple filesystem tools  (try: fs ls)'',
      ascii ''  run       load and execute ELF user program''] k"

definition print_fs_usage :: "kernel \<Rightarrow> kernel" where
  "print_fs_usage k = printlns
     [ascii ''fs commands:'', ascii ''  fs cat <path>'', ascii ''  fs write <path> <text>'',
      ascii ''  fs rm <path>'', ascii ''  fs mkdir <path>'', ascii ''  fs format''] k"

definition print_prompt :: "bytes \<Rightarrow> kernel \<Rightarrow> kernel" where
  "print_prompt cwd k = (if cwd = [] then print (ascii ''/> '') k else print (cwd @ ascii ''/> '') k)"

section \<open>Paths\<close>

definition normalize_part :: "bytes list \<Rightarrow> bytes \<Rightarrow> bytes list" where
  "normalize_part segments part =
     (if part = [] \<or> part = ascii ''.'' then segments
      else if part = ascii ''..'' then butlast segments
      else segments @ [part])"

definition normalize_path :: "bytes \<Rightarrow> bytes \<Rightarrow> bytes" where
  "normalize_path cwd input =
     (if input = [] then cwd
      else
        let segments = (if starts_with [SLASH] input then [] else filter (\<lambda>s. s \<noteq> []) (split_on SLASH cwd));
            segments = foldl normalize_part segments (split_on SLASH input)
        in if segments = [] then [] else SLASH # join [SLASH] segments)"

section \<open>Running a program\<close>

definition dump :: "LoadedProgram \<Rightarrow> kernel \<Rightarrow> kernel" where
  "dump program k =
     foldl (\<lambda>k seg. print (ascii ''  segment @0x'' @ show_hex (si_dest seg) @ ascii '', '' @
         show_nat (length (si_data seg)) @ ascii '' bytes (flags 0x'' @ show_hex (unat (si_flags seg)) @ ascii '')'' @ [10]) k)
       (print (ascii '' entry: 0x'' @ show_hex (lp_entry program) @ [10])
         (print (ascii ''Loaded program:'' @ [10]) k))
       (lp_segments program)"

definition on_mem :: "(mem \<Rightarrow> ('a, LoadError) outcome \<times> mem) \<Rightarrow> kernel \<Rightarrow> ('a, LoadError) outcome \<times> kernel" where
  "on_mem f k = (case f (umem (k_machine k)) of (r, m) \<Rightarrow> (r, set_umem m k))"

text \<open>\<^verbatim>\<open>Result::expect\<close>.\<close>

fun expect :: "('a, LoadError) outcome \<times> kernel \<Rightarrow> 'a step" where
  "expect (Ok x, k) = (Ok x, k)"
| "expect (Err e, k) = (Panic, k)"
| "expect (Panic, k) = (Panic, k)"
| "expect (Hang, k) = (Hang, k)"

definition enter_user_at :: "u64 \<Rightarrow> u64 \<Rightarrow> nat \<Rightarrow> nat \<Rightarrow> kernel \<Rightarrow> 'a step" where
  "enter_user_at entry sp argc argv_ptr k =
     (Err (UserMode entry sp argc argv_ptr), k\<lparr>k_machine := (k_machine k)\<lparr>sepc := entry\<rparr>\<rparr>)"

definition enter_user :: "LoadedProgram \<Rightarrow> bytes list \<Rightarrow> kernel \<Rightarrow> 'a step" where
  "enter_user program args k =
     tryS (expect (on_mem (load_into_user_window program) k)) (\<lambda>_ k.
     tryS (expect (k_build_user_stack args k)) (\<lambda>(sp, argc, argv_ptr) k.
       enter_user_at (word_of_nat (lp_entry program)) (word_of_nat sp) argc argv_ptr k))"

text \<open>
  The static copy of the user window, and the return to the kernel that an exiting program would
  take: the addresses of \<^verbatim>\<open>kernel_resume_from_user\<close> and of the caller of the trampoline are parameters.
\<close>

definition snapshot_user_window_static :: "mem \<Rightarrow> bytes" where
  "snapshot_user_window_static m = mem_read USER_IMAGE_BASE USER_WINDOW_SIZE m"

definition restore_user_window_static :: "bytes \<Rightarrow> mem \<Rightarrow> mem" where
  "restore_user_window_static user_snapshot m = mem_write USER_IMAGE_BASE (take USER_WINDOW_SIZE user_snapshot) m"

definition prepare_for_kernel_return ::
  "u64 \<Rightarrow> u64 \<Rightarrow> TrapFrame \<Rightarrow> u64 \<Rightarrow> machine \<Rightarrow> TrapFrame \<times> machine"
where
  "prepare_for_kernel_return kernel_return_address kernel_resume trap_frame code m =
     (trap_frame\<lparr>ra := kernel_return_address, a0 := code\<rparr>, m\<lparr>sepc := kernel_resume\<rparr>)"

definition on_load :: "(nat \<Rightarrow> bool) \<Rightarrow> bytes \<Rightarrow> kernel \<Rightarrow> (LoadedProgram, LoadError) outcome \<times> kernel" where
  "on_load alloc_ok path k = (case load alloc_ok (k_fs k) path of (r, g) \<Rightarrow> (r, k\<lparr>k_fs := g\<rparr>))"

definition handle_run_command :: "probe \<Rightarrow> (nat \<Rightarrow> bool) \<Rightarrow> bytes \<Rightarrow> bytes \<Rightarrow> kernel \<Rightarrow> unit step" where
  "handle_run_command probe alloc_ok command cwd k =
     (case split_ascii_whitespace command of
        [] \<Rightarrow> (Ok (), k)
      | cmd # parts \<Rightarrow>
          if cmd \<noteq> ascii ''run'' then (Ok (), println (ascii ''unknown command: '' @ command) k)
          else case parts of
            [] \<Rightarrow> (Ok (), println (ascii ''usage: run <path> [args...]'') k)
          | path_arg # extra_args \<Rightarrow>
              with_init probe () (\<lambda>k.
                let path = normalize_path cwd path_arg in
                case on_load alloc_ok path k of
                  (Ok program, k) \<Rightarrow>
                    let k = println (ascii ''launching '' @ path) (dump program k);
                        normalized_args = map (normalize_path cwd) extra_args
                    in enter_user program (path # normalized_args) k
                | (Err (LoadFs err), k) \<Rightarrow> (Ok (), println (ascii ''fs error: '' @ fs_message err) k)
                | (Err (LoadElf err), k) \<Rightarrow> (Ok (), println (ascii ''elf error: '' @ elf_debug err) k)
                | (Err LoadError.OutOfMemory, k) \<Rightarrow> (Ok (), println (ascii ''loader error: out of memory'') k)
                | (Panic, k) \<Rightarrow> (Panic, k)
                | (Hang, k) \<Rightarrow> (Hang, k)) k)"

definition run_command_of :: "bytes \<Rightarrow> bytes list \<Rightarrow> bytes" where
  "run_command_of bin_path rest_of_command =
     (if rest_of_command = [] then ascii ''run '' @ bin_path
      else ascii ''run '' @ bin_path @ ascii '' '' @ join (ascii '' '') rest_of_command)"

section \<open>The fs command\<close>

definition fs_path_of :: "bytes \<Rightarrow> bytes \<Rightarrow> bytes" where
  "fs_path_of cwd path = (let target = normalize_path cwd path in if target = [] then [] else target)"

definition fs_write_command :: "bytes \<Rightarrow> bytes \<Rightarrow> kernel \<Rightarrow> bytes step" where
  "fs_write_command command cwd k =
     (let usage = ascii ''usage: fs write <path> <text>'';
          rest = trim_start (case strip_prefix (ascii ''fs'') command of Some r \<Rightarrow> r | None \<Rightarrow> []);
          rest = trim_start (case strip_prefix (ascii ''write'') rest of Some r \<Rightarrow> r | None \<Rightarrow> [])
      in
      if rest = [] then (Ok cwd, println usage k)
      else
        let path = takeWhile (\<lambda>b. \<not> is_ascii_whitespace b) rest in
        case dropWhile (\<lambda>b. \<not> is_ascii_whitespace b) rest of
          [] \<Rightarrow> (Ok cwd, println usage k)
        | _ # data \<Rightarrow>
            or_report cwd (on_fs (\<lambda>g. fs_write_file g (fs_path_of cwd path) data) k) (\<lambda>_ k.
              (Ok cwd, println (ascii ''wrote '' @ show_nat (length data) @ ascii '' bytes'') k)))"

text \<open>The three commands that take one path.\<close>

definition fs_path_command ::
  "bytes \<Rightarrow> (bytes \<Rightarrow> fs_instance \<Rightarrow> ('a, FsError) outcome \<times> fs_instance) \<Rightarrow> (bytes \<Rightarrow> 'a \<Rightarrow> bytes) \<Rightarrow>
     bytes list \<Rightarrow> bytes \<Rightarrow> kernel \<Rightarrow> bytes step"
where
  "fs_path_command usage f message parts cwd k =
     (case parts of
        path # _ \<Rightarrow>
          or_report cwd (on_fs (f (fs_path_of cwd path)) k) (\<lambda>x k. (Ok cwd, println (message path x) k))
      | [] \<Rightarrow> (Ok cwd, println usage k))"

definition handle_fs_command :: "probe \<Rightarrow> bytes \<Rightarrow> bytes \<Rightarrow> kernel \<Rightarrow> bytes step" where
  "handle_fs_command probe command cwd k =
     (case split_ascii_whitespace command of
        [] \<Rightarrow> (Ok cwd, k)
      | cmd # parts \<Rightarrow>
          if cmd \<noteq> ascii ''fs'' then (Ok cwd, println (ascii ''unknown command: '' @ command) k)
          else with_init probe cwd (\<lambda>k.
            case parts of
              [] \<Rightarrow> (Ok cwd, print_fs_usage k)
            | subcommand # parts \<Rightarrow>
                if subcommand = ascii ''mkdir'' then
                  fs_path_command (ascii ''usage: fs mkdir <path>'') (\<lambda>p g. fs_mkdir g p)
                    (\<lambda>path _. ascii ''created directory '' @ path) parts cwd k
                else if subcommand = ascii ''rm'' then
                  fs_path_command (ascii ''usage: fs rm <path>'') (\<lambda>p g. fs_remove_file g p)
                    (\<lambda>path _. ascii ''created directory '' @ path) parts cwd k
                else if subcommand = ascii ''cat'' then
                  fs_path_command (ascii ''usage: fs cat <path>'') (\<lambda>p g. fs_read_file g p)
                    (\<lambda>_ contents. case from_utf8 contents of Some text \<Rightarrow> text
                       | None \<Rightarrow> ascii ''fs error: file is not valid UTF-8'') parts cwd k
                else if subcommand = ascii ''write'' then fs_write_command command cwd k
                else if subcommand = ascii ''format'' then
                  or_report cwd (on_fs fs_format k) (\<lambda>_ k. (Ok [], println (ascii ''filesystem formatted'') k))
                else (Ok cwd, print_fs_usage k)) k)"

section \<open>The kernel shell's commands\<close>

definition ls_command :: "probe \<Rightarrow> bytes \<Rightarrow> bytes \<Rightarrow> kernel \<Rightarrow> bytes step" where
  "ls_command probe command cwd k =
     (let parts = tl (split_ascii_whitespace command);
          target_path = (case parts of arg # _ \<Rightarrow> normalize_path cwd arg | [] \<Rightarrow> cwd);
          path_opt = (if target_path = [] then None else Some target_path)
      in with_init probe cwd (\<lambda>k.
           or_report cwd (on_fs (\<lambda>g. fs_list_files g path_opt) k) (\<lambda>names k.
             (Ok cwd, if names = [] then println (ascii ''(empty)'') k else printlns names k))) k)"

definition cd_command :: "probe \<Rightarrow> bytes \<Rightarrow> bytes \<Rightarrow> kernel \<Rightarrow> bytes step" where
  "cd_command probe command cwd k =
     (let parts = tl (split_ascii_whitespace command);
          path_arg = (case parts of arg # _ \<Rightarrow> arg | [] \<Rightarrow> ascii ''/'');
          target = normalize_path cwd path_arg;
          fs_path = (if target = [] then [] else target)
      in with_init probe cwd (\<lambda>k.
           or_report cwd (on_fs (\<lambda>g. fs_ensure_directory g fs_path) k) (\<lambda>_ k. (Ok target, k))) k)"

definition bin_command :: "probe \<Rightarrow> (nat \<Rightarrow> bool) \<Rightarrow> bytes \<Rightarrow> bytes \<Rightarrow> kernel \<Rightarrow> bytes step" where
  "bin_command probe alloc_ok command cwd k =
     (if list_ex (\<lambda>b. b = 124 \<or> b = 62 \<or> b = 60) command
      then (Ok cwd, println (ascii ''Pipes/redirection are handled in /bin/sh. Launch the user shell to run: '' @ command) k)
      else case split_ascii_whitespace command of
        [] \<Rightarrow> (Ok cwd, k)
      | first_word # rest_of_command \<Rightarrow>
          let bin_path = ascii ''/bin/'' @ first_word in
          with_init probe cwd (\<lambda>k.
            case on_fs (\<lambda>g. fs_read_file g bin_path) k of
              (Ok _, k) \<Rightarrow>
                tryS (handle_run_command probe alloc_ok (run_command_of bin_path rest_of_command) cwd k) (\<lambda>_ k. (Ok cwd, k))
            | (Err _, k) \<Rightarrow> (Ok cwd, println (ascii ''unknown command: '' @ command) k)
            | (Panic, k) \<Rightarrow> (Panic, k)
            | (Hang, k) \<Rightarrow> (Hang, k)) k)"

text \<open>
  \<open>sbi_call\<close> is what the firmware makes of the trap instruction of \<^verbatim>\<open>syscalltest\<close>. The address
  \<^verbatim>\<open>pagefault\<close> reads is not a multiple of eight, so the alignment check of \<^verbatim>\<open>read_volatile\<close> panics.
\<close>

definition process_command ::
  "probe \<Rightarrow> (nat \<Rightarrow> bool) \<Rightarrow> (kernel \<Rightarrow> u64 \<times> kernel) \<Rightarrow> bytes \<Rightarrow> bytes \<Rightarrow> kernel \<Rightarrow> bytes step"
where
  "process_command probe alloc_ok sbi_call command cwd k =
     (if command = ascii ''help'' \<or> command = ascii ''?'' \<or> command = ascii ''h'' then (Ok cwd, print_help_text k)
      else if command = ascii ''shutdown'' \<or> command = ascii ''sd'' \<or> command = ascii ''exit'' then (Err Shutdown, k)
      else if command = ascii ''clear'' then (Ok cwd, print_help_text (clear_screen k))
      else if command = ascii ''pagefault'' then (Panic, k)
      else if command = ascii ''breakpoint'' then (Err Breakpoint, k)
      else if starts_with (ascii ''run'') command then
        tryS (handle_run_command probe alloc_ok command cwd k) (\<lambda>_ k. (Ok cwd, k))
      else if command = ascii ''syscalltest'' then
        (case sbi_call k of (ret, k) \<Rightarrow> (Ok cwd, println (ascii ''sys_write returned '' @ show_int (sint ret)) k))
      else if starts_with (ascii ''fs'') command then handle_fs_command probe command cwd k
      else if starts_with (ascii ''echo'') command then
        (Ok cwd, println (join (ascii '' '') (tl (split_ascii_whitespace command))) k)
      else if starts_with (ascii ''ls'') command then ls_command probe command cwd k
      else if starts_with (ascii ''cd'') command then cd_command probe command cwd k
      else if command = [] then (Ok cwd, k)
      else bin_command probe alloc_ok command cwd k)"

section \<open>Redirection in the kernel shell\<close>

text \<open>
  These work on \<^verbatim>\<open>FD_TABLE\<close>, a descriptor table of the kernel itself. The guard of its lock lives to the
  end of a \<^verbatim>\<open>match\<close> on what a locked call returns, so the branch that closes the file when the standard
  descriptor cannot be saved locks it a second time and never returns.
\<close>

definition execute_simple_command :: "probe \<Rightarrow> (nat \<Rightarrow> bool) \<Rightarrow> bytes \<Rightarrow> bytes \<Rightarrow> kernel \<Rightarrow> unit step" where
  "execute_simple_command probe alloc_ok command cwd k =
     (case split_ascii_whitespace command of
        [] \<Rightarrow> (Ok (), k)
      | first_word # rest_of_command \<Rightarrow>
          handle_run_command probe alloc_ok (run_command_of (ascii ''/bin/'' @ first_word) rest_of_command) cwd k)"

definition run_redirected ::
  "probe \<Rightarrow> (nat \<Rightarrow> bool) \<Rightarrow> nat \<Rightarrow> bytes \<Rightarrow> bytes \<Rightarrow> FileMode \<Rightarrow> bytes \<Rightarrow> bytes \<Rightarrow> bytes \<Rightarrow> FdTable \<Rightarrow> kernel \<Rightarrow>
     (unit, leave) outcome \<times> FdTable \<times> kernel"
where
  "run_redirected probe alloc_ok std std_name purpose mode file_path cmd_part cwd t k =
     (case file_open file_path mode k of
        (Err err, k) \<Rightarrow>
          (Ok (), t, println (ascii ''Failed to open '' @ file_path @ ascii '' for '' @ purpose @ ascii '': '' @ fd_debug err) k)
      | (Panic, k) \<Rightarrow> (Panic, t, k)
      | (Hang, k) \<Rightarrow> (Hang, t, k)
      | (Ok file_fd, k) \<Rightarrow>
          (case fd_alloc t (FdFile file_fd) of
             (Ok fd, t) \<Rightarrow>
               (case dup2 std 10 t k of
                  (Ok _, t, k) \<Rightarrow>
                    tryS (ignore_err (dup2 fd std t k)) (\<lambda>_ (t, k).
                    tryS (ignore_err (fd_close fd t k)) (\<lambda>_ (t, k).
                    tryS (case execute_simple_command probe alloc_ok cmd_part cwd k of (r, k) \<Rightarrow> (r, t, k)) (\<lambda>_ (t, k).
                    tryS (ignore_err (dup2 10 std t k)) (\<lambda>_ (t, k).
                      ignore_err (fd_close 10 t k)))))
                | (Err err, t, k) \<Rightarrow>
                    (Hang, t, println (ascii ''Failed to save '' @ std_name @ ascii '': '' @ fd_debug err) k)
                | (Panic, t, k) \<Rightarrow> (Panic, t, k)
                | (Hang, t, k) \<Rightarrow> (Hang, t, k))
           | (Err err, t) \<Rightarrow> (Ok (), t, println (ascii ''Failed to allocate fd: '' @ fd_debug err) k)
           | (Panic, t) \<Rightarrow> (Panic, t, k)
           | (Hang, t) \<Rightarrow> (Hang, t, k)))"

definition handle_output_redirect ::
  "probe \<Rightarrow> (nat \<Rightarrow> bool) \<Rightarrow> bytes \<Rightarrow> bytes \<Rightarrow> FdTable \<Rightarrow> kernel \<Rightarrow> (unit, leave) outcome \<times> FdTable \<times> kernel"
where
  "handle_output_redirect probe alloc_ok command cwd t k =
     (case position (\<lambda>b. b = 62) command of
        None \<Rightarrow> (Ok (), t, k)
      | Some redir_pos \<Rightarrow>
          let cmd_part = trim (take redir_pos command);
              file_part = trim (drop (redir_pos + 1) command);
              append = starts_with [62] file_part;
              file_path = (if append then normalize_path cwd (trim (drop 1 file_part)) else normalize_path cwd file_part);
              mode = \<lparr>m_read = False, m_write = True, m_append = append, m_create = True\<rparr>
          in run_redirected probe alloc_ok 1 (ascii ''stdout'') (ascii ''writing'') mode file_path cmd_part cwd t k)"

definition handle_input_redirect ::
  "probe \<Rightarrow> (nat \<Rightarrow> bool) \<Rightarrow> bytes \<Rightarrow> bytes \<Rightarrow> FdTable \<Rightarrow> kernel \<Rightarrow> (unit, leave) outcome \<times> FdTable \<times> kernel"
where
  "handle_input_redirect probe alloc_ok command cwd t k =
     (case position (\<lambda>b. b = 60) command of
        None \<Rightarrow> (Ok (), t, k)
      | Some redir_pos \<Rightarrow>
          let cmd_part = trim (take redir_pos command);
              file_part = trim (drop (redir_pos + 1) command);
              file_path = normalize_path cwd file_part;
              mode = \<lparr>m_read = True, m_write = False, m_append = False, m_create = False\<rparr>
          in run_redirected probe alloc_ok 0 (ascii ''stdin'') (ascii ''reading'') mode file_path cmd_part cwd t k)"

section \<open>Installing the embedded programs\<close>

record embedded =
  CAT_BIN :: bytes
  WC_BIN :: bytes
  SH_BIN :: bytes

definition install_bin :: "bytes \<Rightarrow> bytes \<Rightarrow> kernel \<Rightarrow> unit step" where
  "install_bin path bin k =
     (case on_fs (\<lambda>g. fs_read_file g path) k of
        (Ok _, k) \<Rightarrow> (Ok (), k)
      | (Err NotFound, k) \<Rightarrow>
          or_report () (on_fs (\<lambda>g. fs_write_file g path bin) k) (\<lambda>_ k. (Ok (), println (ascii ''installed '' @ path) k))
      | (Err err, k) \<Rightarrow> (Ok (), println (ascii ''fs error: '' @ fs_message err) k)
      | (Panic, k) \<Rightarrow> (Panic, k)
      | (Hang, k) \<Rightarrow> (Hang, k))"

definition install_embedded_bins :: "embedded \<Rightarrow> kernel \<Rightarrow> unit step" where
  "install_embedded_bins bins k =
     (let install = (\<lambda>k.
        or_report () (on_fs (\<lambda>g. fs_write_file g (ascii ''test.txt'') (ascii ''hello world'')) k) (\<lambda>_ k.
          tryS (install_bin (ascii ''/bin/cat'') (CAT_BIN bins) k) (\<lambda>_ k.
          tryS (install_bin (ascii ''/bin/sh'') (SH_BIN bins) k) (\<lambda>_ k.
            install_bin (ascii ''/bin/wc'') (WC_BIN bins) k)))) in
      case on_fs (\<lambda>g. fs_mkdir g (ascii ''/bin'')) k of
        (Ok _, k) \<Rightarrow> install k
      | (Err AlreadyExists, k) \<Rightarrow> install k
      | (Err err, k) \<Rightarrow> (Ok (), println (ascii ''fs error: '' @ fs_message err) k)
      | (Panic, k) \<Rightarrow> (Panic, k)
      | (Hang, k) \<Rightarrow> (Hang, k))"

text \<open>\<^verbatim>\<open>embedded::install_embedded_bins\<close>, the other function of that name, which overwrites the programs.\<close>

definition reinstall_bin :: "bytes \<Rightarrow> bytes \<Rightarrow> kernel \<Rightarrow> unit step" where
  "reinstall_bin path bin k =
     (case on_fs (\<lambda>g. fs_write_file g path bin) k of
        (Ok _, k) \<Rightarrow> (Ok (), k)
      | (Err err, k) \<Rightarrow> (Ok (), println (ascii ''Failed to install '' @ path @ ascii '': '' @ fs_message err) k)
      | (Panic, k) \<Rightarrow> (Panic, k)
      | (Hang, k) \<Rightarrow> (Hang, k))"

definition reinstall_embedded_bins :: "embedded \<Rightarrow> kernel \<Rightarrow> unit step" where
  "reinstall_embedded_bins bins k =
     tryS (reinstall_bin (ascii ''/bin/cat'') (CAT_BIN bins) (println (ascii ''Installing embedded binaries...'') k)) (\<lambda>_ k.
     tryS (reinstall_bin (ascii ''/bin/wc'') (WC_BIN bins) k) (\<lambda>_ k.
     tryS (reinstall_bin (ascii ''/bin/sh'') (SH_BIN bins) k) (\<lambda>_ k.
       (Ok (), println (ascii ''Installed embedded binaries: cat, wc, sh'') k))))"

section \<open>Launching the shell\<close>

definition idle_loop :: "kernel \<Rightarrow> 'a step" where
  "idle_loop k = (Err Idle, k)"

text \<open>A step of \<^verbatim>\<open>launch_user_shell\<close> whose failure is reported before the kernel idles.\<close>

fun or_idle :: "bytes \<Rightarrow> ('a, 'e) outcome \<times> kernel \<Rightarrow> ('a \<Rightarrow> kernel \<Rightarrow> 'b step) \<Rightarrow> 'b step" where
  "or_idle message (Ok x, k) f = f x k"
| "or_idle message (Err _, k) f = idle_loop (println message k)"
| "or_idle message (Panic, k) f = (Panic, k)"
| "or_idle message (Hang, k) f = (Hang, k)"

text \<open>The two blocks that hold the lock of the process table.\<close>

definition create_shell :: "LoadedProgram \<Rightarrow> bytes list \<Rightarrow> nat \<Rightarrow> nat \<Rightarrow> nat \<Rightarrow> kernel \<Rightarrow> (Pid, SpawnError) outcome \<times> kernel" where
  "create_shell program args sp shell_argc shell_argv_ptr k =
     (let shell_memory = snapshot_user_window (umem (k_machine k)) in
      with_lock (\<lambda>k.
        case spawn (word_of_nat (lp_entry program)) (word_of_nat sp) (ascii ''/bin/sh'') args with_standard shell_memory
               shell_argc shell_argv_ptr (k_table k) of (r, t) \<Rightarrow> (r, k\<lparr>k_table := t\<rparr>)) k)"

definition select_shell :: "kernel \<Rightarrow> (u64 \<times> u64) step" where
  "select_shell =
     with_lock (\<lambda>k.
       case get_all_processes (k_table k) of
         [] \<Rightarrow> (Panic, k)
       | first # _ \<Rightarrow>
           let shell_pid = p_pid first;
               t = set_current shell_pid (k_table k);
               k = k\<lparr>k_table := t, k_machine := restore_process_memory shell_pid t (k_machine k)\<rparr>
           in case get t shell_pid of
                None \<Rightarrow> (Panic, k)
              | Some process \<Rightarrow> (Ok (p_pc process, p_sp process), k))"

definition launch_user_shell :: "(nat \<Rightarrow> bool) \<Rightarrow> kernel \<Rightarrow> unit step" where
  "launch_user_shell alloc_ok k =
     (let sh_path = ascii ''/bin/sh''; args = [sh_path] in
      or_idle (ascii ''failed to load /bin/sh'') (on_load alloc_ok sh_path k) (\<lambda>program k.
      or_idle (ascii ''failed to load shell image'') (on_mem (load_into_user_window program) k) (\<lambda>_ k.
      or_idle (ascii ''failed to build shell stack'') (k_build_user_stack args k) (\<lambda>_ k.
      or_idle (ascii ''failed to build shell stack'') (k_build_user_stack args k) (\<lambda>(sp, shell_argc, shell_argv_ptr) k.
      or_idle (ascii ''failed to spawn shell'') (create_shell program args sp shell_argc shell_argv_ptr k) (\<lambda>pid k.
        let k = println (ascii ''Shell process created, starting execution...'') k in
        tryS (select_shell k) (\<lambda>(entry, sp) k. enter_user_at entry sp 0 0 k)))))))"

text \<open>\<^verbatim>\<open>main\<close>, from the banner on; the heap, the console and the interrupts are set up before.\<close>

definition kernel_main :: "probe \<Rightarrow> (nat \<Rightarrow> bool) \<Rightarrow> embedded \<Rightarrow> u64 \<Rightarrow> kernel \<Rightarrow> unit step" where
  "kernel_main probe alloc_ok bins hart k =
     (if hart \<noteq> 0 then idle_loop k
      else
        let k = println (ascii ''Hello world from hart '' @ show_nat (unat hart) @ ascii ''!'' @ [10]) k in
        tryS (case on_fs (fs_init probe) k of
                (Ok _, k) \<Rightarrow> install_embedded_bins bins k
              | (Err err, k) \<Rightarrow> (Ok (), println (ascii ''failed to initialize filesystem: '' @ fs_message err) k)
              | (Panic, k) \<Rightarrow> (Panic, k)
              | (Hang, k) \<Rightarrow> (Hang, k)) (\<lambda>_ k.
          launch_user_shell alloc_ok k))"

end
