(* ===== verification/KernelMainProps.thy ===== *)
theory KernelMainProps
  imports KernelMain
begin

text \<open>
  Properties of the kernel's entry and of its built-in shell: paths are normalized to a canonical
  form that resolves like a walk through the tree, the current directory of the kernel shell stays
  canonical, and booting from an unformatted disk installs the embedded programs and enters the
  user shell in a well-formed kernel state.
\<close>

section \<open>Canonical paths\<close>

definition canonical_part :: "bytes \<Rightarrow> bool" where
  "canonical_part c \<longleftrightarrow> c \<noteq> [] \<and> SLASH \<notin> set c \<and> c \<noteq> ascii ''.'' \<and> c \<noteq> ascii ''..''"

definition render_path :: "bytes list \<Rightarrow> bytes" where
  "render_path cs = (if cs = [] then [] else SLASH # join [SLASH] cs)"

definition canonical :: "bytes \<Rightarrow> bool" where
  "canonical p \<longleftrightarrow> list_all canonical_part (comps p) \<and> p = render_path (comps p)"

text \<open>Walking from a directory, as a user reads a path.\<close>

fun walk_path :: "bytes list \<Rightarrow> bytes list \<Rightarrow> bytes list" where
  "walk_path here [] = here"
| "walk_path here (c # cs) =
     (if c = ascii ''.'' then walk_path here cs
      else if c = ascii ''..'' then walk_path (butlast here) cs
      else walk_path (here @ [c]) cs)"

definition resolve :: "bytes list \<Rightarrow> bytes \<Rightarrow> bytes list" where
  "resolve here path = walk_path (if starts_with [SLASH] path then [] else here) (comps path)"

lemma normalize_parts: "foldl normalize_part here cs = walk_path here (filter (\<lambda>c. c \<noteq> []) cs)"
  by (induction cs arbitrary: here) (simp_all add: normalize_part_def)

lemma normalize_path_resolve:
  "normalize_path cwd path = (if path = [] then cwd else render_path (resolve (comps cwd) path))"
  by (simp add: normalize_path_def normalize_parts resolve_def render_path_def comps_def Let_def)

lemma walk_path_canonical:
  "list_all canonical_part here \<Longrightarrow> \<forall>c \<in> set cs. c \<noteq> [] \<and> SLASH \<notin> set c \<Longrightarrow> list_all canonical_part (walk_path here cs)"
proof (induction cs arbitrary: here)
  case (Cons c cs)
  have "list_all canonical_part (butlast here)" using Cons.prems(1) by (auto simp: list_all_iff dest: in_set_butlastD)
  moreover have "c \<noteq> ascii ''.'' \<Longrightarrow> c \<noteq> ascii ''..'' \<Longrightarrow> canonical_part c"
    using Cons.prems(2) by (simp add: canonical_part_def)
  ultimately show ?case using Cons.IH Cons.prems by simp
qed simp

lemma comps_parts: "c \<in> set (comps p) \<Longrightarrow> c \<noteq> [] \<and> SLASH \<notin> set c"
  by (auto simp: comps_def dest: split_on_no_sep)

lemma comps_render: "list_all canonical_part cs \<Longrightarrow> comps (render_path cs) = cs"
proof (cases "cs = []")
  case False
  assume cs: "list_all canonical_part cs"
  then have "split_on SLASH (join [SLASH] cs) = cs"
    using False by (intro split_on_join) (auto simp: list_all_iff canonical_part_def)
  moreover have "filter (\<lambda>c. c \<noteq> []) cs = cs"
    using cs by (auto simp: filter_id_conv list_all_iff canonical_part_def)
  ultimately show ?thesis using False by (simp add: render_path_def comps_def)
qed (simp add: render_path_def comps_def)

lemma resolve_canonical: "list_all canonical_part here \<Longrightarrow> list_all canonical_part (resolve here path)"
  unfolding resolve_def by (intro walk_path_canonical) (auto dest: comps_parts)

lemma walk_path_append: "walk_path here (cs @ ds) = walk_path (walk_path here cs) ds"
  by (induction cs arbitrary: here) simp_all

lemma walk_path_plain: "list_all canonical_part cs \<Longrightarrow> walk_path here cs = here @ cs"
  by (induction cs arbitrary: here) (simp_all add: canonical_part_def)

lemma split_on_append: "split_on c (xs @ c # ys) = split_on c xs @ split_on c ys"
  by (induction xs) (auto split: list.split)

lemma comps_append: "comps (a @ SLASH # b) = comps a @ comps b"
  by (simp add: comps_def split_on_append)

lemma normalize_path_laws:
  assumes "canonical cwd"
  shows "canonical (normalize_path cwd path)"
    and "path \<noteq> [] \<Longrightarrow> comps (normalize_path cwd path) = resolve (comps cwd) path"
    and "canonical path \<Longrightarrow> path \<noteq> [] \<Longrightarrow> normalize_path any path = path"
    and "path \<noteq> [] \<Longrightarrow> rel \<noteq> [] \<Longrightarrow> \<not> starts_with [SLASH] rel \<Longrightarrow>
      normalize_path (normalize_path cwd path) rel = normalize_path cwd (path @ SLASH # rel)"
proof -
  have cwd: "list_all canonical_part (comps cwd)" using assms by (simp add: canonical_def)
  note parts = resolve_canonical [OF cwd, of path]
  show "canonical (normalize_path cwd path)"
    using assms comps_render [OF parts] parts by (simp add: normalize_path_resolve canonical_def)
  show c: "comps (normalize_path cwd path) = resolve (comps cwd) path" if "path \<noteq> []"
    using that comps_render [OF parts] by (simp add: normalize_path_resolve)
  show "normalize_path any path = path" if "canonical path" "path \<noteq> []"
  proof -
    from that have p: "list_all canonical_part (comps path)" "path = render_path (comps path)" by (simp_all add: canonical_def)
    have "starts_with [SLASH] (render_path cs)" if "render_path cs \<noteq> []" for cs
      using that by (simp add: render_path_def starts_with_def split: if_splits)
    with that p(2) have "starts_with [SLASH] path" by metis
    with that p show ?thesis by (simp add: normalize_path_resolve resolve_def walk_path_plain)
  qed
  show "normalize_path (normalize_path cwd path) rel = normalize_path cwd (path @ SLASH # rel)"
    if "path \<noteq> []" "rel \<noteq> []" "\<not> starts_with [SLASH] rel"
  proof -
    have "starts_with [SLASH] (path @ SLASH # rel) = starts_with [SLASH] path"
      using that(1) by (cases path) (simp_all add: starts_with_def)
    then show ?thesis
      using that c by (simp add: normalize_path_resolve [of "normalize_path cwd path"]
          normalize_path_resolve [of cwd "path @ SLASH # rel"] resolve_def comps_append walk_path_append)
  qed
qed

text \<open>
  C39. \<^verbatim>\<open>normalize_path\<close> resolves a path as a walk from the current directory does (the empty component and
  \<^verbatim>\<open>.\<close> stay, \<^verbatim>\<open>..\<close> goes up and stays at the root, a leading slash starts there), and returns it in canonical
  form: empty for the root, otherwise each component preceded by one slash and none of them empty, \<^verbatim>\<open>.\<close> or
  \<^verbatim>\<open>..\<close>. The file system finds in it exactly the components of the walk. A canonical path is normalized to
  itself, from any directory, and going to one path and then to a relative one is going to the two
  joined by a slash.
\<close>

theorem normalize_path_canonical:
  assumes "canonical cwd"
  shows "canonical (normalize_path cwd path) \<and>
    (path \<noteq> [] \<longrightarrow> comps (normalize_path cwd path) = resolve (comps cwd) path) \<and>
    (canonical path \<and> path \<noteq> [] \<longrightarrow> normalize_path any path = path) \<and>
    (path \<noteq> [] \<and> rel \<noteq> [] \<and> \<not> starts_with [SLASH] rel \<longrightarrow>
      normalize_path (normalize_path cwd path) rel = normalize_path cwd (path @ SLASH # rel))"
  using normalize_path_laws [OF assms] by blast

theorem normalize_path_canonical_witness:
  "canonical (normalize_path (ascii ''/usr/bin'') (ascii ''.././../etc//conf'')) \<and>
   comps (normalize_path (ascii ''/usr/bin'') (ascii ''.././../etc//conf'')) = [ascii ''etc'', ascii ''conf''] \<and>
   normalize_path (ascii ''/tmp'') (ascii ''/usr/bin'') = ascii ''/usr/bin'' \<and>
   normalize_path (normalize_path (ascii ''/usr/bin'') (ascii ''../lib'')) (ascii ''c'') =
     normalize_path (ascii ''/usr/bin'') (ascii ''../lib/c'')"
proof -
  have cwd: "canonical (ascii ''/usr/bin'')" by code_simp
  have ne: "ascii ''.././../etc//conf'' \<noteq> []" "ascii ''/usr/bin'' \<noteq> []" "ascii ''../lib'' \<noteq> []" "ascii ''c'' \<noteq> []"
    by (simp_all add: ascii_def)
  have "resolve (comps (ascii ''/usr/bin'')) (ascii ''.././../etc//conf'') = [ascii ''etc'', ascii ''conf'']" by code_simp
  then have "comps (normalize_path (ascii ''/usr/bin'') (ascii ''.././../etc//conf'')) = [ascii ''etc'', ascii ''conf'']"
    using normalize_path_canonical [OF cwd, of "ascii ''.././../etc//conf''"] ne(1) by simp
  moreover have "normalize_path (ascii ''/tmp'') (ascii ''/usr/bin'') = ascii ''/usr/bin''"
    using normalize_path_canonical [OF cwd, of "ascii ''/usr/bin''" "ascii ''/tmp''"] cwd ne(2) by simp
  moreover have "ascii ''../lib/c'' = ascii ''../lib'' @ SLASH # ascii ''c''" "\<not> starts_with [SLASH] (ascii ''c'')"
    by code_simp+
  then have "normalize_path (normalize_path (ascii ''/usr/bin'') (ascii ''../lib'')) (ascii ''c'') =
      normalize_path (ascii ''/usr/bin'') (ascii ''../lib/c'')"
    using normalize_path_canonical [OF cwd, of "ascii ''../lib''" _ "ascii ''c''"] ne(3,4) by simp
  ultimately show ?thesis using normalize_path_canonical [OF cwd] by blast
qed

section \<open>The current directory of the kernel shell\<close>

text \<open>What a step returns that reports file system errors, or does not.\<close>

lemma or_report_Ok:
  assumes "or_report d r f = (Ok x, k')"
  shows "x = d \<or> (\<exists>y k1. r = (Ok y, k1) \<and> f y k1 = (Ok x, k'))"
  using assms by (cases "(d, r, f)" rule: or_report.cases) auto

lemma with_init_Ok:
  assumes "with_init probe d f k = (Ok x, k')"
  shows "x = d \<or> (\<exists>k1. f k1 = (Ok x, k'))"
  using or_report_Ok [OF assms [unfolded with_init_def]] by blast

lemma fs_path_command_cwd: "fs_path_command usage f message parts cwd k = (Ok cwd', k') \<Longrightarrow> cwd' = cwd"
  by (auto simp: fs_path_command_def split: list.splits dest!: or_report_Ok)

lemma fs_write_command_cwd: "fs_write_command command cwd k = (Ok cwd', k') \<Longrightarrow> cwd' = cwd"
  by (auto simp: fs_write_command_def Let_def split: if_splits list.splits dest!: or_report_Ok)

lemma handle_fs_command_cwd:
  "handle_fs_command probe command cwd k = (Ok cwd', k') \<Longrightarrow> cwd' = cwd \<or> cwd' = []"
  by (auto simp: handle_fs_command_def split: if_splits list.splits
      dest!: with_init_Ok or_report_Ok fs_path_command_cwd fs_write_command_cwd)

lemma ls_command_cwd: "ls_command probe command cwd k = (Ok cwd', k') \<Longrightarrow> cwd' = cwd"
  by (auto simp: ls_command_def Let_def dest!: with_init_Ok or_report_Ok)

lemma cd_command_cwd:
  "cd_command probe command cwd k = (Ok cwd', k') \<Longrightarrow> cwd' = cwd \<or> (\<exists>path. cwd' = normalize_path cwd path)"
  by (auto simp: cd_command_def Let_def dest!: with_init_Ok or_report_Ok)

lemma bin_command_cwd: "bin_command probe alloc_ok command cwd k = (Ok cwd', k') \<Longrightarrow> cwd' = cwd"
  by (auto simp: bin_command_def Let_def tryS_eq_Ok split: if_splits list.splits prod.splits outcome.splits
      dest!: with_init_Ok)

text \<open>Whatever is typed, the kernel shell's current directory stays canonical.\<close>

lemma process_command_canonical:
  assumes "canonical cwd" and "process_command probe alloc_ok sbi_call command cwd k = (Ok cwd', k')"
  shows "canonical cwd'"
proof -
  have "cwd' = cwd \<or> cwd' = [] \<or> (\<exists>path. cwd' = normalize_path cwd path)"
    using assms(2) unfolding process_command_def
    by (auto simp: tryS_eq_Ok split: if_splits prod.splits outcome.splits
        dest: handle_fs_command_cwd ls_command_cwd cd_command_cwd bin_command_cwd)
  moreover have "canonical []" by (simp add: canonical_def comps_def render_path_def)
  ultimately show ?thesis using assms(1) normalize_path_laws(1) by blast
qed

section \<open>Installing on an empty file system\<close>

text \<open>An operation whose specification accepts it and whose blocks fit.\<close>

lemma write_success:
  assumes "fs_ok fs" and "path_ok path" and "length data < 4294967296"
    and "spec_write (comps path) data (fs_tree fs) = Ok t"
    and "nfree fs + div_ceil (length data) 512 + path_blocks (butlast (comps path)) t \<le> ntotal fs"
  shows "\<exists>fs'. fs_write_file (Some fs) path data = (Ok (), Some fs') \<and> fs_ok fs' \<and> fs_tree fs' = t \<and>
    nfree fs' = nfree fs + div_ceil (length data) 512 + path_blocks (butlast (comps path)) t \<and> ntotal fs' = ntotal fs"
  using write_file_refines [OF assms(1-3)] assms(4,5)
  by (auto simp: refines_Ok refines_to_def fs_write_file_def with_fs_def)

lemma mkdir_success:
  assumes "fs_ok fs" and "path_ok path" and "spec_create (DirN []) (comps path) (fs_tree fs) = Ok t"
    and "nfree fs + path_blocks (butlast (comps path)) t \<le> ntotal fs"
  shows "\<exists>fs'. fs_mkdir (Some fs) path = (Ok (), Some fs') \<and> fs_ok fs' \<and> fs_tree fs' = t \<and>
    nfree fs' = nfree fs + path_blocks (butlast (comps path)) t \<and> ntotal fs' = ntotal fs"
  using create_entry_refines [OF assms(1,2), of Directory] assms(3,4)
  by (auto simp: refines_Ok refines_to_def fs_mkdir_def with_fs_def create_directory_entry)

definition installed_tree :: "embedded \<Rightarrow> tree" where
  "installed_tree bins =
     [(ascii ''bin'', DirN [(ascii ''cat'', FileN (CAT_BIN bins)), (ascii ''sh'', FileN (SH_BIN bins)),
        (ascii ''wc'', FileN (WC_BIN bins))]),
      (ascii ''test.txt'', FileN (ascii ''hello world''))]"

lemma boot_paths:
  "path_ok (ascii ''/bin'')" "comps (ascii ''/bin'') = [ascii ''bin'']"
  "path_ok (ascii ''test.txt'')" "comps (ascii ''test.txt'') = [ascii ''test.txt'']"
  "path_ok (ascii ''/bin/cat'')" "comps (ascii ''/bin/cat'') = [ascii ''bin'', ascii ''cat'']"
  "path_ok (ascii ''/bin/sh'')" "comps (ascii ''/bin/sh'') = [ascii ''bin'', ascii ''sh'']"
  "path_ok (ascii ''/bin/wc'')" "comps (ascii ''/bin/wc'') = [ascii ''bin'', ascii ''wc'']"
  by (simp_all add: path_ok_def ascii_def comps_def SLASH_def)

lemma boot_names:
  "ascii ''bin'' \<noteq> ascii ''test.txt''" "ascii ''cat'' \<noteq> ascii ''sh''" "ascii ''cat'' \<noteq> ascii ''wc''" "ascii ''sh'' \<noteq> ascii ''wc''"
  "length (ascii ''bin'') = 3" "length (ascii ''cat'') = 3" "length (ascii ''sh'') = 2" "length (ascii ''wc'') = 2"
  "length (ascii ''test.txt'') = 8" "length (ascii ''hello world'') = 11"
  by (simp_all add: ascii_def)

text \<open>One program in \<^verbatim>\<open>/bin\<close>, which has fewer than eleven entries.\<close>

lemma install_bin_ok:
  assumes ok: "fs_ok fs" and k: "k_fs k = Some fs"
    and path: "path_ok path" "comps path = [ascii ''bin'', nm]" and nm: "length nm \<le> NAME_LEN"
    and tree: "fs_tree fs = (ascii ''bin'', DirN sub) # [(ascii ''test.txt'', f)]" and new: "map_of sub nm = None" "length sub < 11"
    and bin: "length bin < 4294967296" and room: "nfree fs + div_ceil (length bin) 512 + 1 \<le> ntotal fs"
  shows "\<exists>fs'. install_bin path bin k = (Ok (), println (ascii ''installed '' @ path) (k\<lparr>k_fs := Some fs'\<rparr>)) \<and> fs_ok fs' \<and>
    fs_tree fs' = (ascii ''bin'', DirN (sub @ [(nm, FileN bin)])) # [(ascii ''test.txt'', f)] \<and>
    nfree fs' = nfree fs + div_ceil (length bin) 512 + 1 \<and> ntotal fs' = ntotal fs"
proof -
  let ?t = "(ascii ''bin'', DirN (sub @ [(nm, FileN bin)])) # [(ascii ''test.txt'', f)]"
  have w: "spec_write (comps path) bin (fs_tree fs) = Ok ?t"
    using nm new boot_names(1) by (auto simp: path tree spec_write_def)
  have b: "path_blocks (butlast (comps path)) ?t = 1"
    using new(2) by (simp add: path dir_blocks_def div_ceil_def)
  have r: "fs_read_file (Some fs) path = (Err NotFound, Some fs)"
    using new by (simp add: fs_read_mounted [OF ok] path tree spec_read_def)
  from write_success [OF ok path(1) bin w] b room obtain fs' where "fs_write_file (Some fs) path bin = (Ok (), Some fs')"
    "fs_ok fs'" "fs_tree fs' = ?t" "nfree fs' = nfree fs + div_ceil (length bin) 512 + 1" "ntotal fs' = ntotal fs"
    by auto
  with k r show ?thesis by (intro exI [of _ fs']) (simp add: install_bin_def on_fs_def)
qed
lemma prepare_bin_ok:
  assumes ok: "fs_ok fs" and empty: "fs_tree fs = []" and room: "nfree fs + 1 \<le> ntotal fs"
  shows "\<exists>fs1 fs2. fs_mkdir (Some fs) (ascii ''/bin'') = (Ok (), Some fs1) \<and>
    fs_write_file (Some fs1) (ascii ''test.txt'') (ascii ''hello world'') = (Ok (), Some fs2) \<and> fs_ok fs2 \<and>
    fs_tree fs2 = [(ascii ''bin'', DirN []), (ascii ''test.txt'', FileN (ascii ''hello world''))] \<and>
    nfree fs2 = nfree fs + 1 \<and> ntotal fs2 = ntotal fs"
proof -
  have mk: "spec_create (DirN []) (comps (ascii ''/bin'')) (fs_tree fs) = Ok [(ascii ''bin'', DirN [])]"
    by (simp add: boot_paths empty spec_create_def boot_names)
  from mkdir_success [OF ok boot_paths(1) mk] room obtain fs1 where
    1: "fs_mkdir (Some fs) (ascii ''/bin'') = (Ok (), Some fs1)" "fs_ok fs1" "fs_tree fs1 = [(ascii ''bin'', DirN [])]"
      "nfree fs1 = nfree fs" "ntotal fs1 = ntotal fs"
    by (auto simp: boot_paths)
  let ?test = "(ascii ''test.txt'', FileN (ascii ''hello world''))"
  have w: "spec_write (comps (ascii ''test.txt'')) (ascii ''hello world'') (fs_tree fs1) =
      Ok [(ascii ''bin'', DirN []), ?test]"
    using boot_names(1) [symmetric] by (simp add: boot_paths 1 spec_write_def boot_names)
  have "div_ceil 11 512 = 1" by (simp add: div_ceil_def)
  with write_success [OF 1(2) boot_paths(3) _ w] room 1 obtain fs2 where
    "fs_write_file (Some fs1) (ascii ''test.txt'') (ascii ''hello world'') = (Ok (), Some fs2)" "fs_ok fs2"
    "fs_tree fs2 = [(ascii ''bin'', DirN []), ?test]" "nfree fs2 = nfree fs + 1" "ntotal fs2 = ntotal fs"
    by (auto simp: boot_paths boot_names)
  with 1(1) show ?thesis by blast
qed

lemma install_embedded_bins_ok:
  assumes ok: "fs_ok fs" and k: "k_fs k = Some fs" and empty: "fs_tree fs = []"
    and len: "length (CAT_BIN bins) < 4294967296" "length (SH_BIN bins) < 4294967296" "length (WC_BIN bins) < 4294967296"
    and room: "nfree fs + 4 + div_ceil (length (CAT_BIN bins)) 512 + div_ceil (length (SH_BIN bins)) 512 +
      div_ceil (length (WC_BIN bins)) 512 \<le> ntotal fs"
  shows "\<exists>fs' k'. install_embedded_bins bins k = (Ok (), k') \<and> k_fs k' = Some fs' \<and> fs_ok fs' \<and>
    fs_tree fs' = installed_tree bins \<and> k' = k\<lparr>k_fs := k_fs k', k_tx := k_tx k'\<rparr>"
proof -
  from prepare_bin_ok [OF ok empty] room obtain fs1 fs2 where
    2: "fs_mkdir (Some fs) (ascii ''/bin'') = (Ok (), Some fs1)"
      "fs_write_file (Some fs1) (ascii ''test.txt'') (ascii ''hello world'') = (Ok (), Some fs2)"
      "fs_tree fs2 = [(ascii ''bin'', DirN []), (ascii ''test.txt'', FileN (ascii ''hello world''))]"
      "fs_ok fs2" "nfree fs2 = nfree fs + 1" "ntotal fs2 = ntotal fs"
    by auto
  let ?test = "(ascii ''test.txt'', FileN (ascii ''hello world''))"
  let ?k2 = "k\<lparr>k_fs := Some fs2\<rparr>"
  from install_bin_ok [OF 2(4), of ?k2 "ascii ''/bin/cat''", OF _ boot_paths(5,6) _ 2(3) _ _ len(1)] room 2
  obtain fs3 where 3: "install_bin (ascii ''/bin/cat'') (CAT_BIN bins) ?k2 =
      (Ok (), println (ascii ''installed '' @ ascii ''/bin/cat'') (k\<lparr>k_fs := Some fs3\<rparr>))" "fs_ok fs3"
    "fs_tree fs3 = [(ascii ''bin'', DirN [(ascii ''cat'', FileN (CAT_BIN bins))]), ?test]"
    "nfree fs3 = nfree fs + 2 + div_ceil (length (CAT_BIN bins)) 512" "ntotal fs3 = ntotal fs"
    by (auto simp: boot_names)
  let ?k3 = "println (ascii ''installed '' @ ascii ''/bin/cat'') (k\<lparr>k_fs := Some fs3\<rparr>)"
  have k3: "k_fs ?k3 = Some fs3" by (simp add: println_def print_def uart_write_bytes_def)
  from install_bin_ok [OF 3(2) k3 boot_paths(7,8) _ 3(3) _ _ len(2)] room 3 boot_names(2)
  obtain fs4 where 4: "install_bin (ascii ''/bin/sh'') (SH_BIN bins) ?k3 =
      (Ok (), println (ascii ''installed '' @ ascii ''/bin/sh'') (?k3\<lparr>k_fs := Some fs4\<rparr>))" "fs_ok fs4"
    "fs_tree fs4 = [(ascii ''bin'', DirN [(ascii ''cat'', FileN (CAT_BIN bins)), (ascii ''sh'', FileN (SH_BIN bins))]), ?test]"
    "nfree fs4 = nfree fs + 3 + div_ceil (length (CAT_BIN bins)) 512 + div_ceil (length (SH_BIN bins)) 512" "ntotal fs4 = ntotal fs"
    by (auto simp: boot_names)
  let ?k4 = "println (ascii ''installed '' @ ascii ''/bin/sh'') (?k3\<lparr>k_fs := Some fs4\<rparr>)"
  have k4: "k_fs ?k4 = Some fs4" by (simp add: println_def print_def uart_write_bytes_def)
  from install_bin_ok [OF 4(2) k4 boot_paths(9,10) _ 4(3) _ _ len(3)] room 4 boot_names(3,4)
  obtain fs5 where 5: "install_bin (ascii ''/bin/wc'') (WC_BIN bins) ?k4 =
      (Ok (), println (ascii ''installed '' @ ascii ''/bin/wc'') (?k4\<lparr>k_fs := Some fs5\<rparr>))" "fs_ok fs5"
    "fs_tree fs5 = installed_tree bins"
    by (auto simp: boot_names installed_tree_def)
  let ?k5 = "println (ascii ''installed '' @ ascii ''/bin/wc'') (?k4\<lparr>k_fs := Some fs5\<rparr>)"
  have "install_embedded_bins bins k = (Ok (), ?k5)"
    using k by (simp add: install_embedded_bins_def on_fs_def 2 3 4 5)
  moreover have "k_fs ?k5 = Some fs5" "?k5 = k\<lparr>k_fs := k_fs ?k5, k_tx := k_tx ?k5\<rparr>"
    by (simp_all add: println_def print_def uart_write_bytes_def)
  ultimately show ?thesis using 5 by blast
qed

section \<open>Launching the shell\<close>

definition boot_kernel :: "bytes \<Rightarrow> machine \<Rightarrow> kernel" where
  "boot_kernel rx m = \<lparr>k_table = table_new, k_locked = False, k_pipes = replicate MAX_PIPES None,
     k_fs = None, k_rx = rx, k_tx = [], k_machine = m\<rparr>"

definition sh_args :: "bytes list" where
  "sh_args = [ascii ''/bin/sh'']"

lemma sh_args_fit: "length sh_args \<le> 16" "length (arg_block sh_args) \<le> USER_WINDOW_SIZE" "length sh_args = 1"
  by (simp_all add: sh_args_def arg_block_def ascii_def window_consts)

text \<open>The process table with the shell as its first and only process.\<close>

definition shell_process :: "LoadedProgram \<Rightarrow> mem \<Rightarrow> Process" where
  "shell_process program m =
     process_new 1 INVALID_PID (word_of_nat (lp_entry program)) (word_of_nat (initial_sp sh_args))
       (ascii ''/bin/sh'') sh_args with_standard (snapshot_user_window m) 1 (initial_sp sh_args + 8)"

definition shell_table :: "Process \<Rightarrow> ProcessTable" where
  "shell_table p = \<lparr>processes = Some p # replicate 7 None, current_pid = 1, next_pid = 2\<rparr>"

lemma shell_table_simps:
  assumes "p_pid p = 1"
  shows "get_all_processes (shell_table p) = [p]" "get (shell_table p) 1 = Some p" "procs (shell_table p) = {p}"
  using assms by (simp_all add: shell_table_def get_all_processes_def List.map_filter_def get_def has_pid_def procs_def)

lemma snapshot_not_Nil: "snapshot_user_window m \<noteq> []"
proof
  assume "snapshot_user_window m = []"
  then have "USER_WINDOW_SIZE = 0" using length_snapshot [of m] by (metis list.size(3))
  then show False by (simp add: window_consts)
qed

lemma mem_write_read: "mem_write a (mem_read a n m) m = m"
  by (rule ext) (auto simp: mem_write_def mem_read_def)

lemma restore_snapshot: "restore_user_window (snapshot_user_window m) m = m"
  by (simp add: restore_user_window_def snapshot_user_window_def mem_write_read)

lemma kernel_ok_shell:
  assumes k: "k_table k = shell_table (shell_process program m)" "\<not> k_locked k" "k_pipes k = replicate MAX_PIPES None"
  shows "kernel_ok (\<lambda>_ _. 0) k"
proof -
  let ?p = "shell_process program m"
  have p: "p_pid ?p = 1" "p_state ?p = Ready" "p_fd_table ?p = with_standard" "length (p_memory ?p) = USER_WINDOW_SIZE"
    by (simp_all add: shell_process_def process_new_def length_snapshot)
  have "table_ok (shell_table ?p)"
    using p shell_table_simps [OF p(1)]
    by (simp add: table_ok_def process_ok_def) (simp add: shell_table_def with_standard_def fd_new_def)
  moreover have "held (shell_table ?p) = (\<lambda>_ _. 0)"
    by (intro ext) (simp add: held_def shell_table_simps [OF p(1)] p(3))
  ultimately show ?thesis
    using k by (simp add: kernel_ok_def counted_def pipe_counted_def plus_def)
qed

lemma set_umem_again [simp]: "umem (k_machine (set_umem m k)) = m" "set_umem m (set_umem m' k) = set_umem m k"
  by (simp_all add: set_umem_def)

lemma create_shell_ok:
  assumes "k_table k = table_new" and "\<not> k_locked k" and "m = umem (k_machine k)"
  shows "create_shell program sh_args (initial_sp sh_args) 1 (initial_sp sh_args + 8) k =
    (Ok 1, k\<lparr>k_table := (shell_table (shell_process program m))\<lparr>current_pid := INVALID_PID\<rparr>\<rparr>)"
proof -
  have "processes table_new = None # replicate 7 None" by (simp add: table_new_def numeral_eq_Suc)
  then have "spawn (word_of_nat (lp_entry program)) (word_of_nat (initial_sp sh_args)) (ascii ''/bin/sh'') sh_args
       with_standard (snapshot_user_window m) 1 (initial_sp sh_args + 8) table_new =
     (Ok 1, (shell_table (shell_process program m))\<lparr>current_pid := INVALID_PID\<rparr>)"
    by (simp add: spawn_def find_free_slot_def alloc_pid_def shell_table_def shell_process_def Let_def)
       (simp add: table_new_def)
  with assms show ?thesis by (simp add: create_shell_def with_lock_def del: One_nat_def)
qed

lemma select_shell_ok:
  assumes p: "p_pid p = 1" "p_memory p = snapshot_user_window (umem (k_machine k))"
    and k: "k_table k = (shell_table p)\<lparr>current_pid := INVALID_PID\<rparr>" "\<not> k_locked k"
  shows "select_shell k = (Ok (p_pc p, p_sp p), k\<lparr>k_table := shell_table p\<rparr>)"
proof -
  note t = shell_table_simps [OF p(1)]
  have all: "get_all_processes (k_table k) = [p]"
    using t(1) k(1) by (simp add: get_all_processes_def shell_table_def)
  have cur: "set_current 1 (k_table k) = shell_table p"
    by (simp add: k set_current_def shell_table_def)
  have got: "get (k_table k) 1 = Some p" using t(2) by (simp add: cur [symmetric])
  have mem: "restore_process_memory 1 (shell_table p) (k_machine k) = k_machine k"
    using snapshot_not_Nil [of "umem (k_machine k)"] by (simp add: restore_process_memory_def t(2) p(2) restore_snapshot del: One_nat_def)
  show ?thesis
    unfolding select_shell_def with_lock_def using k(2) by (simp add: all got cur mem p(1) Let_def del: One_nat_def)
qed

lemma launch_user_shell_ok:
  assumes load: "load alloc_ok (k_fs k) (ascii ''/bin/sh'') = (Ok program, k_fs k)"
    and elf: "load_elf alloc_ok elf = Ok program"
    and k: "k_table k = table_new" "\<not> k_locked k"
  shows "\<exists>m1 m2 m3 k'. load_into_user_window program (umem (k_machine k)) = (Ok (), m1) \<and>
    build_user_stack sh_args m1 = (Ok (initial_sp sh_args, 1, initial_sp sh_args + 8), m2) \<and>
    build_user_stack sh_args m2 = (Ok (initial_sp sh_args, 1, initial_sp sh_args + 8), m3) \<and>
    launch_user_shell alloc_ok k =
      (Err (UserMode (word_of_nat (lp_entry program)) (word_of_nat (initial_sp sh_args)) 0 0), k') \<and>
    k_table k' = shell_table (shell_process program m3) \<and> umem (k_machine k') = m3 \<and>
    sepc (k_machine k') = word_of_nat (lp_entry program) \<and>
    \<not> k_locked k' \<and> k_pipes k' = k_pipes k \<and> k_fs k' = k_fs k"
proof -
  from elf have "load_segments alloc_ok (ef_data elf) (base_vaddr elf) (ef_segments elf) = Ok (lp_segments program)"
    by (auto simp: load_elf_def outcome_simps Let_def split: if_splits)
  from copy_segments_ok [OF load_segments_inside [OF this]] obtain m1 where
    1: "load_into_user_window program (umem (k_machine k)) = (Ok (), m1)"
    unfolding load_into_user_window_def by blast
  from build_user_stack_ok [OF sh_args_fit(1,2)] obtain m2 where
    2: "build_user_stack sh_args m1 = (Ok (initial_sp sh_args, 1, initial_sp sh_args + 8), m2)"
    using sh_args_fit(3) by fastforce
  from build_user_stack_ok [OF sh_args_fit(1,2)] obtain m3 where
    3: "build_user_stack sh_args m2 = (Ok (initial_sp sh_args, 1, initial_sp sh_args + 8), m3)"
    using sh_args_fit(3) by fastforce
  let ?p = "shell_process program m3"
  have p: "p_pid ?p = 1" "p_pc ?p = word_of_nat (lp_entry program)" "p_sp ?p = word_of_nat (initial_sp sh_args)"
    "p_memory ?p = snapshot_user_window m3" "p_memory ?p \<noteq> []"
    using snapshot_not_Nil [of m3] by (simp_all add: shell_process_def process_new_def)
  let ?k2 = "reports (stack_notes sh_args m1) (set_umem m2 k)"
  let ?k3 = "reports (stack_notes sh_args m2) (set_umem m3 ?k2)"
  have mem: "umem (k_machine (set_umem x k0)) = x" for x k0 by (simp add: set_umem_def)
  have st: "k_build_user_stack sh_args (set_umem m1 k) = (Ok (initial_sp sh_args, 1, initial_sp sh_args + 8), ?k2)"
    "k_build_user_stack sh_args ?k2 = (Ok (initial_sp sh_args, 1, initial_sp sh_args + 8), ?k3)"
    using 2 3 by (simp_all add: k_build_user_stack_def mem set_umem_again del: One_nat_def)
  let ?k4 = "println (ascii ''Shell process created, starting execution...'')
    (?k3\<lparr>k_table := (shell_table ?p)\<lparr>current_pid := INVALID_PID\<rparr>\<rparr>)"
  let ?k' = "?k4\<lparr>k_table := shell_table ?p, k_machine := (k_machine ?k4)\<lparr>sepc := word_of_nat (lp_entry program)\<rparr>\<rparr>"
  have "create_shell program sh_args (initial_sp sh_args) 1 (initial_sp sh_args + 8) ?k3 =
      (Ok 1, ?k3\<lparr>k_table := (shell_table ?p)\<lparr>current_pid := INVALID_PID\<rparr>\<rparr>)"
    using k by (intro create_shell_ok) (simp_all add: set_umem_def)
  moreover have "select_shell ?k4 = (Ok (p_pc ?p, p_sp ?p), ?k4\<lparr>k_table := shell_table ?p\<rparr>)"
    using k p by (intro select_shell_ok) (simp_all add: set_umem_def println_def print_def uart_write_bytes_def)
  moreover have "[ascii ''/bin/sh''] = sh_args" "k\<lparr>k_fs := k_fs k\<rparr> = k"
    by (simp_all add: sh_args_def)
  ultimately have "launch_user_shell alloc_ok k =
      (Err (UserMode (word_of_nat (lp_entry program)) (word_of_nat (initial_sp sh_args)) 0 0), ?k')"
    by (simp add: launch_user_shell_def Let_def on_load_def load on_mem_def 1 st p enter_user_at_def del: One_nat_def reports.simps)
  with 1 2 3 k show ?thesis
    by (intro exI [of _ m1] exI [of _ m2] exI [of _ m3] exI [of _ ?k'])
       (simp add: println_def print_def uart_write_bytes_def set_umem_def)
qed

lemma stack_argc:
  assumes "length args \<le> 16" and "length (arg_block args) \<le> USER_WINDOW_SIZE" and "build_user_stack args m = (r, m')"
  shows "read_usize (initial_sp args) m' = length args"
proof -
  let ?ws = "stack_words args"
  from build_user_stack_ok [OF assms(1,2), of m] assms(3) obtain gap where
    g: "mem_read (initial_sp args) (USER_IMAGE_LIMIT - initial_sp args) m' = usizes ?ws @ gap @ arg_block args"
    by auto
  have n: "USER_IMAGE_LIMIT - initial_sp args = 8 * length ?ws + length (gap @ arg_block args)"
    using arg_cong [OF g, of length] by (simp add: length_usizes)
  have "read_usize (initial_sp args + 8 * 0) m' = ?ws ! 0"
    by (rule read_usizes [OF g [unfolded n]]) (use assms(1) in \<open>simp_all add: stack_words_def\<close>)
  then show ?thesis by (simp add: stack_words_def)
qed

section \<open>Booting\<close>

text \<open>
  C40. Booting from an unformatted disk. When the disk has room for the embedded programs and the
  executable of the shell loads, \<^verbatim>\<open>main\<close> on hart 0 formats the disk and leaves on it exactly \<^verbatim>\<open>/bin\<close> with the
  three programs and \<^verbatim>\<open>test.txt\<close>, makes the shell the only process and the current one, with standard
  descriptors and a snapshot of the window it starts in, and enters user mode at the shell's entry with
  the stack pointer below its argument vector. The kernel state is well formed and holds no pipe
  references. The registers \<^verbatim>\<open>argc\<close> and \<^verbatim>\<open>argv\<close> are passed as 0, unlike what the process records, and the process
  is not marked as started.
\<close>

theorem boot_enters_shell:
  assumes disk: "dev_ok d" "unat (total_blocks d) \<le> 4194304"
      "magic (parse_superblock (sectors d 0)) \<noteq> MAGIC \<or> version (parse_superblock (sectors d 0)) \<noteq> VERSION"
    and room: "6 + div_ceil (length (CAT_BIN bins)) 512 + div_ceil (length (SH_BIN bins)) 512 +
      div_ceil (length (WC_BIN bins)) 512 \<le> unat (total_blocks d)"
    and elf: "elf_parse (SH_BIN bins) = Ok elf" "load_elf alloc_ok elf = Ok program"
  shows "\<exists>k' fs. kernel_main (Ok d) alloc_ok bins 0 (boot_kernel rx m) =
      (Err (UserMode (word_of_nat (lp_entry program)) (word_of_nat (initial_sp sh_args)) 0 0), k') \<and>
    k_fs k' = Some fs \<and> fs_ok fs \<and> fs_tree fs = installed_tree bins \<and> kernel_ok (\<lambda>_ _. 0) k' \<and>
    (let p = shell_process program (umem (k_machine k')) in
      current_pid (k_table k') = p_pid p \<and> procs (k_table k') = {p} \<and>
      p_state p = Ready \<and> p_argc p = 1 \<and> \<not> p_started p) \<and>
    read_usize (initial_sp sh_args) (umem (k_machine k')) = 1"
proof -
  from mount_unformatted [OF disk(1) _ disk(2,3)] room obtain fs0 where fs0: "mount d = (Ok (), fs0)" "fs_ok fs0"
    "fs_tree fs0 = []" "nfree fs0 = 2" "ntotal fs0 = unat (total_blocks d)"
    by auto
  have len: "length bin < 4294967296" if "div_ceil (length bin) 512 \<le> 4194304" for bin :: bytes
    using that div_ceil_bounds [of 512 "length bin"] by simp
  let ?k0 = "(println (ascii ''Hello world from hart '' @ show_nat 0 @ ascii ''!'' @ [10]) (boot_kernel rx m))\<lparr>k_fs := Some fs0\<rparr>"
  have "\<exists>fs k1. install_embedded_bins bins ?k0 = (Ok (), k1) \<and> k_fs k1 = Some fs \<and> fs_ok fs \<and>
      fs_tree fs = installed_tree bins \<and> k1 = ?k0\<lparr>k_fs := k_fs k1, k_tx := k_tx k1\<rparr>"
    by (rule install_embedded_bins_ok [OF fs0(2) _ fs0(3)]) (use room disk(2) fs0 in \<open>auto intro!: len\<close>)
  then obtain fs k1 where 1: "install_embedded_bins bins ?k0 = (Ok (), k1)" "k_fs k1 = Some fs" "fs_ok fs"
    "fs_tree fs = installed_tree bins" and k1: "k1 = ?k0\<lparr>k_fs := k_fs k1, k_tx := k_tx k1\<rparr>"
    by blast
  have st: "k_table k1 = table_new" "\<not> k_locked k1" "k_pipes k1 = replicate MAX_PIPES None"
    using arg_cong [OF k1, of k_table] arg_cong [OF k1, of k_locked] arg_cong [OF k1, of k_pipes]
    by (simp_all add: boot_kernel_def println_def print_def uart_write_bytes_def)
  have load: "load alloc_ok (k_fs k1) (ascii ''/bin/sh'') = (Ok program, k_fs k1)"
    using boot_names by (simp add: load_def 1 fs_read_mounted boot_paths installed_tree_def spec_read_def elf)
  from launch_user_shell_ok [OF load elf(2) st(1,2)] obtain m2 m3 k' where
    2: "build_user_stack sh_args m2 = (Ok (initial_sp sh_args, 1, initial_sp sh_args + 8), m3)"
      "launch_user_shell alloc_ok k1 =
        (Err (UserMode (word_of_nat (lp_entry program)) (word_of_nat (initial_sp sh_args)) 0 0), k')"
      "k_table k' = shell_table (shell_process program m3)" "umem (k_machine k') = m3"
      "\<not> k_locked k'" "k_pipes k' = k_pipes k1" "k_fs k' = k_fs k1"
    by blast
  have "kernel_main (Ok d) alloc_ok bins 0 (boot_kernel rx m) = launch_user_shell alloc_ok k1"
    using 1(1) fs0(1)
    by (simp add: kernel_main_def on_fs_def fs_init_def println_def print_def uart_write_bytes_def boot_kernel_def)
  moreover have "kernel_ok (\<lambda>_ _. 0) k'" using kernel_ok_shell [OF 2(3,5)] 2(6) st(3) by simp
  moreover have "read_usize (initial_sp sh_args) m3 = 1" using stack_argc [OF sh_args_fit(1,2) 2(1)] sh_args_fit(3) by simp
  moreover have "p_pid (shell_process program m3) = 1" by (simp add: shell_process_def process_new_def)
  note shell_table_simps [OF this]
  ultimately show ?thesis
    using 1 2 by (simp add: shell_table_def) (simp add: shell_process_def process_new_def)
qed

text \<open>A shell of one segment with two bytes of code.\<close>

definition tiny_shell :: bytes where
  "tiny_shell = elf_image 0x10000
     [\<lparr>ph_type = 1, ph_flags = 5, ph_offset = 120, ph_vaddr = 0x10000, ph_paddr = 0, ph_filesz = 2, ph_memsz = 4,
       ph_align = 1\<rparr>] [7, 8]"

definition tiny_bins :: embedded where
  "tiny_bins = \<lparr>CAT_BIN = [1], WC_BIN = [2], SH_BIN = tiny_shell\<rparr>"

definition tiny_program :: LoadedProgram where
  "tiny_program = \<lparr>lp_entry = 0x80400000, lp_stack_top = USER_IMAGE_LIMIT,
     lp_segments = [\<lparr>si_dest = 0x80400000, si_data = [7, 8, 0, 0], si_flags = 5\<rparr>]\<rparr>"

lemma tiny_shell_loads:
  "elf_parse tiny_shell = Ok \<lparr>ef_entry = 0x10000,
     ef_segments = [\<lparr>sg_vaddr = 0x10000, sg_mem_size = 4, sg_file_size = 2, sg_file_offset = 120, sg_align = 1, sg_flags = 5\<rparr>],
     ef_data = tiny_shell\<rparr>"
  "load_elf (\<lambda>_. True) \<lparr>ef_entry = 0x10000,
     ef_segments = [\<lparr>sg_vaddr = 0x10000, sg_mem_size = 4, sg_file_size = 2, sg_file_offset = 120, sg_align = 1, sg_flags = 5\<rparr>],
     ef_data = tiny_shell\<rparr> = Ok tiny_program"
  "length tiny_shell = 122"
proof -
  let ?ph = "\<lparr>ph_type = 1, ph_flags = 5, ph_offset = 120, ph_vaddr = 0x10000, ph_paddr = 0, ph_filesz = 2, ph_memsz = 4,
    ph_align = 1\<rparr>"
  have d: "drop 120 tiny_shell = [7, 8]" and l: "length tiny_shell = 122"
    by (simp_all add: tiny_shell_def elf_image_def)
  then show "length tiny_shell = 122" by blast
  have r: "replicate 2 (0 :: u8) = [0, 0]" by (simp add: numeral_2_eq_2)
  show "elf_parse tiny_shell = Ok \<lparr>ef_entry = 0x10000,
     ef_segments = [\<lparr>sg_vaddr = 0x10000, sg_mem_size = 4, sg_file_size = 2, sg_file_offset = 120, sg_align = 1, sg_flags = 5\<rparr>],
     ef_data = tiny_shell\<rparr>"
    using elf_parse_image [of "[?ph]" "0x10000" "[7, 8]"] unfolding tiny_shell_def [symmetric]
    by (simp add: segment_of_def PT_LOAD_def)
  show "load_elf (\<lambda>_. True) \<lparr>ef_entry = 0x10000,
     ef_segments = [\<lparr>sg_vaddr = 0x10000, sg_mem_size = 4, sg_file_size = 2, sg_file_offset = 120, sg_align = 1, sg_flags = 5\<rparr>],
     ef_data = tiny_shell\<rparr> = Ok tiny_program"
    using d l r by (simp add: load_elf_def base_vaddr_def segment_data_def window_consts slice_def put_slice_def
        tiny_program_def Let_def)
qed

theorem boot_enters_shell_witness:
  "\<exists>k' fs. kernel_main (Ok blank_disk) (\<lambda>_. True) tiny_bins 0
      (boot_kernel [] \<lparr>umem = (\<lambda>_. 0), sepc = 0, sscratch = 0\<rparr>) =
      (Err (UserMode 0x80400000 (word_of_nat (initial_sp sh_args)) 0 0), k') \<and>
    k_fs k' = Some fs \<and> fs_tree fs = installed_tree tiny_bins \<and> kernel_ok (\<lambda>_ _. 0) k'"
proof -
  have room: "6 + div_ceil (length (CAT_BIN tiny_bins)) 512 + div_ceil (length (SH_BIN tiny_bins)) 512 +
      div_ceil (length (WC_BIN tiny_bins)) 512 \<le> unat (total_blocks blank_disk)"
    by (simp add: tiny_bins_def tiny_shell_loads(3) blank_disk_ok(2) div_ceil_def)
  have "SH_BIN tiny_bins = tiny_shell" "lp_entry tiny_program = 0x80400000"
    by (simp_all add: tiny_bins_def tiny_program_def)
  with boot_enters_shell [OF blank_disk_ok(1) _ _ room, of _ "\<lambda>_. True" tiny_program "[]" "\<lparr>umem = (\<lambda>_. 0), sepc = 0, sscratch = 0\<rparr>"]
    tiny_shell_loads(1,2) blank_disk_ok(2,3) show ?thesis
    by auto
qed

end
