(* ===== verification/Spec2Isabelle.thy ===== *)
theory Spec2Isabelle
  imports FsProps SyscallProps ShellFds VirtioProps UartProps KernelMainProps
begin

text \<open>
  \<^bold>\<open>crabv6\<close>, a small xv6-like kernel in Rust for 64-bit RISC-V, with a user library and three user
  programs. This theory joins the development; the model and the theorems are in the theories it
  imports.

  \<^bold>\<open>The program.\<close> \<^verbatim>\<open>src/main.rs\<close> boots: it sets up the console (\<^verbatim>\<open>src/uart.rs\<close>,
  \<^verbatim>\<open>src/interrupts.rs\<close>) and the file system, installs the embedded programs
  (\<^verbatim>\<open>src/embedded.rs\<close>) and enters the user shell. TinyFS (\<^verbatim>\<open>src/fs.rs\<close>) lives on a VirtIO disk
  (\<^verbatim>\<open>src/virtio.rs\<close>). Programs are ELF files (\<^verbatim>\<open>src/elf.rs\<close>) that the loader
  (\<^verbatim>\<open>src/process.rs\<close>) lays out in one window of user memory; the process table
  (\<^verbatim>\<open>src/proc.rs\<close>) keeps a copy of that window per process and the scheduler
  (\<^verbatim>\<open>src/scheduler.rs\<close>) exchanges it. A trap from user mode ends in
  \<^verbatim>\<open>src/syscall.rs\<close>, whose handlers work on the descriptor table of the current process
  (\<^verbatim>\<open>src/fd.rs\<close>: console, files, pipes), on the file system and on the process table; after
  each call the scheduler may switch. On the other side of the trap are the stubs of
  \<^verbatim>\<open>user_bin/src/lib.rs\<close> (and of \<^verbatim>\<open>src/user.rs\<close>) and the programs \<^verbatim>\<open>wc\<close>,
  \<^verbatim>\<open>cat\<close> and \<^verbatim>\<open>sh\<close> under \<^verbatim>\<open>user_bin/src/bin/\<close>.

  \<^bold>\<open>Conventions.\<close> A Rust function is a definition of the same name, with a prefix where several
  modules share one (\<open>fs_write_file\<close> is \<^verbatim>\<open>fs::write_file\<close>, \<open>u_open\<close> the stub
  \<^verbatim>\<open>open\<close>, \<open>hw_write_bytes\<close> the driver's \<^verbatim>\<open>write_bytes\<close>). Its result is an
  \<open>outcome\<close>: \<open>Ok\<close>, \<open>Err\<close> with the error of the source, \<open>Panic\<close>, or \<open>Hang\<close>
  for a call that never returns; a function with effects also returns the new state, on every branch.
  \<open>tryS\<close> is the operator \<^verbatim>\<open>?\<close>. Integers that can wrap are words of their width; indices and
  lengths that cannot are \<open>nat\<close>. Overflow, alignment and index checks are those of the dev
  profile the kernel is built with: they panic. Strings and files are byte lists, and what Rust
  guarantees of a \<^verbatim>\<open>str\<close> is the check \<open>valid_utf8\<close>.

  \<^bold>\<open>Shared theories.\<close>
  \<^item> \<open>Prelude\<close>: outcomes and their combinators, slices, chunks, little-endian numbers, ceiling
    division, and their lemmas.
  \<^item> \<open>Utf8\<close>, \<open>RustStr\<close>: the parts of the string library the source uses.

  \<^bold>\<open>Disk and file system.\<close>
  \<^item> \<open>BlockDev\<close>: the trait \<^verbatim>\<open>BlockDevice\<close> as the locale \<open>block_device\<close>, and the sector
    store that interprets it. The locale proves that writing and reading an extent are inverse.
  \<^item> \<open>Virtio\<close>, \<open>VirtioProps\<close>: the driver on registers and shared memory. The state is
    \<open>driver\<close>: the handle, the two ring counters, the statics shared with the device, the device.
    \<open>init_answers\<close> gives the answer of \<^verbatim>\<open>init\<close> for every kind of device and, with a handle, the
    state the device is left in: features, queue size and addresses, enabled and running;
    \<open>driver_refines_block_device\<close> shows that any sequence of transfers is the sector store of
    \<open>BlockDev\<close>, panics included, and that every polling loop ends.
  \<^item> \<open>Fs\<close>: every method of \<^verbatim>\<open>TinyFs\<close> (record \<open>TinyFs\<close>: device, superblock, root
    directory) and every public function behind the global instance \<open>fs_instance\<close>.
  \<^item> \<open>FsCodec\<close> (encodings round-trip), \<open>FsInv\<close> (the invariant \<open>fs_ok\<close> and the tree
    \<open>fs_tree\<close> a state stands for), \<open>FsTree\<close> (the specification of each operation on trees),
    \<open>FsPersist\<close>, \<open>FsRefine\<close>, \<open>FsOps\<close> (every operation refines its specification).
  \<^item> \<open>FsProps\<close>: what the public functions promise: exactly which calls succeed, what they change,
    that they survive a remount, and whole sequences; locale \<open>file_store\<close> is the contract the
    descriptors rely on.

  \<^bold>\<open>Processes.\<close>
  \<^item> \<open>Elf\<close>, \<open>Loader\<close>: parsing (which files give which answer, round trip with an image
    writer), loading, the initial stack and when it stays in the window, the user window.
  \<^item> \<open>Proc\<close>, \<open>Scheduler\<close>: the process table (locale \<open>keyed_store\<close>), spawning, waiting,
    context switches; round robin gives every runnable process its turn, memory and program counter
    of a process survive, the general registers do not: a process goes on with those of whoever ran
    before it.
  \<^item> \<open>Pipe\<close>: the ring buffer as a bounded queue (locale \<open>bounded_queue\<close>), with the
    descriptor tables' own operations.
  \<^item> \<open>Fd\<close>, \<open>FdRefs\<close>: the record \<open>kernel\<close> (process table and its lock, pipe table, file
    system, console streams, machine), descriptors of all kinds, pipe reference counts, and which
    closings wait for ever. What was sent to the console is kept with its origin, program or kernel:
    \<open>wire\<close> is the whole stream, \<open>printed\<close> what programs wrote.

  \<^bold>\<open>System calls.\<close>
  \<^item> \<open>Syscall\<close>: every handler, \<open>dispatch\<close> and \<open>handle_ecall\<close>, with every line they
    print on the console.
  \<^item> \<open>KernelInv\<close>: the invariant \<open>kernel_ok\<close> and that every call that returns keeps it.
  \<^item> \<open>SyscallProps\<close>: pipes and exit on every branch, including the calls that wait for a lock
    they hold.

  \<^bold>\<open>Console and boot.\<close>
  \<^item> \<open>Uart\<close>, \<open>UartProps\<close>: both drivers on a bus. Any sequence of reads, writes and
    interrupts presents the two byte streams the rest of the model uses (\<open>k_rx\<close>, and \<open>wire\<close> of
    what was sent), also on a transmitter that loses what is written while it is busy; the interrupt
    handler ends.
  \<^item> \<open>KernelMain\<close>, \<open>KernelMainProps\<close>: \<^verbatim>\<open>main.rs\<close>. Normalized paths are canonical; booting
    from an unformatted disk installs the programs and enters the shell in a state of the invariant.

  \<^bold>\<open>User side.\<close>
  \<^item> \<open>UserLib\<close>, \<open>UserPrograms\<close>: library and programs over an abstract system
    (record \<open>sys\<close>; locales \<open>program_out\<close> and \<open>program_io\<close> say what a program relies on).
  \<^item> \<open>UserKernel\<close>: the stubs as traps into \<open>handle_ecall\<close>, the interpretation of the locales
    on the kernel, and so \<^verbatim>\<open>wc\<close> and \<^verbatim>\<open>cat\<close> from the program down to the disk. The
    kernel prints a line about every call on the same console, so their output is stated as what
    programs have \<open>printed\<close>, and \<open>noted\<close> says that the rest are only these lines.
  \<^item> \<open>UserSh\<close>, \<open>ShellFds\<close>: the shell's line editor, parser and pipelines; parsing inverts
    printing; a command is started with the redirected descriptors, pipe ends included, and the shell
    gets its own back, when the call fails and when it goes on after the child was scheduled (locale
    \<open>shell_fds\<close>, interpreted on the kernel).

  \<^bold>\<open>Parameters.\<close> Code and devices outside the sources are arguments: the VirtIO device, the bus with
  UART and interrupt controller, the addresses the linker gives (\<open>layout\<close>, the addresses of
  \<open>env\<close>), what probing the disk found, whether an allocation of a size succeeds
  (\<open>alloc_ok\<close>), the firmware call, the embedded images. Their laws are hypotheses named after the
  documents they come from (\<open>keeps_registers\<close>, \<open>answers\<close>, \<open>completes_requests\<close>, \<open>receives\<close>,
  \<open>transmits\<close>, \<open>configures\<close>, \<open>plic_apart\<close>); each theorem that has them has a witness on a
  concrete device.

  \<^bold>\<open>Bounds and fuel.\<close> The file system theorems take a disk of at most 4194304 blocks (2 GiB), since
  the length of a file is a \<^verbatim>\<open>u32\<close>. Loops over data recurse on it. Loops that wait (for a device,
  for a byte, for a retried system call) take fuel and are \<open>Hang\<close> without it; the theorems say
  from which fuel on the result is there: one turn per byte for the interrupt handler, a bound that
  depends on the device for polling, one call per piece and retry for the programs. A user program's
  call is \<open>Hang\<close> when another process is scheduled in it: the theorems on programs are about
  calls that come back to the caller. A spawn that succeeds never does at once: the child runs next,
  and what the shell does when it is scheduled again is the separate definition
  \<open>finish_spawn\<close>.

  \<^bold>\<open>Not modelled.\<close> The allocator (\<^verbatim>\<open>src/heap.rs\<close> hands an array to a library; allocations that
  Rust treats as infallible succeed), the panic handler (a panic is \<open>Panic\<close>), the assembly of
  \<^verbatim>\<open>src/kernel_entry.S\<close> (its effect is the trap frame and the entry to user mode), the build
  scripts, and the empty \<^verbatim>\<open>handle_pipe\<close>. Memory fences have no counterpart: driver and device alternate. An interrupt is taken between
  console operations or while the hart waits, never in a trap handler, as the hardware masks it
  there. Pointers of user programs are taken to point outside the kernel's own data: the kernel does
  not check them, and what it would overwrite is not part of the model. \<^verbatim>\<open>main\<close> is modelled from
  its banner on; the set-up of console and interrupts before it is in \<open>Uart\<close>.
\<close>

end
